(* ===== verification/Caio_Prelude.thy ===== *)
theory Caio_Prelude
  imports Main "HOL-Library.Word" "HOL-Library.Multiset"
begin

text \<open>
  The prelude of the development: names for the machine integers the C code uses, the
  C conversions between them, and the generic lemmas the components share.

  \<^item> \<open>c_div\<close> is the division of C (it rounds towards zero).
  \<^item> \<open>ring_list\<close> reads a circular array as a list: the elements at \<open>n\<close> successive
    positions from a start. Both circular buffers of the program are seen through it: the
    task queue of the thread pool (indices modulo the queue size) and the submission ring
    of io_uring (32-bit indices masked by the ring mask).
  \<^item> \<open>sum_upd\<close> is the one arithmetic fact behind every counter that counts threads: what
    a sum over all threads becomes when one thread moves.
\<close>

named_theorems wf_simps \<open>unfolding rules of well-formedness predicates\<close>
named_theorems op_defs \<open>unfolding rules of the operations of a component\<close>

unbundle bit_operations_syntax

type_synonym u8 = "8 word"
type_synonym u16 = "16 word"
type_synonym u32 = "32 word"
type_synonym u64 = "64 word"

text \<open>An address of the C program. The null pointer is address zero.\<close>

type_synonym ptr = "64 word"

abbreviation NULL :: ptr where "NULL \<equiv> 0"

subsection \<open>C arithmetic\<close>

definition c_div :: "int \<Rightarrow> int \<Rightarrow> int" where
  "c_div n d = (let q = \<bar>n\<bar> div \<bar>d\<bar> in if (n < 0) = (d < 0) then q else - q)"

text \<open>What is left after a division has the sign of the dividend and is smaller than the divisor.\<close>

lemma c_div_rem:
  assumes "0 < d"
  shows "n - c_div n d * d = (if n < 0 then - ((- n) mod d) else n mod d)"
  using assms by (auto simp: c_div_def Let_def minus_mod_eq_div_mult [symmetric])

lemma c_div_bounds: "0 < d \<Longrightarrow> \<bar>n - c_div n d * d\<bar> < d"
  by (simp add: c_div_rem)

lemma sint_scast_32_64 [simp]: "sint (scast (x :: 32 word) :: 64 word) = sint x"
  by (rule sint_up_scast) (simp add: is_up)

lemma unat_lt32: "unat (n :: u32) < 2 ^ 32"
  using unsigned_less [of n] by simp

lemma uint_of_nat_small: "n < 2 ^ 32 \<Longrightarrow> uint (of_nat n :: u32) = int n"
  by (simp add: unsigned_of_nat take_bit_nat_eq_self)

lemma uint_of_sint: "uint (w :: u64) = (if sint w < 0 then 2 ^ 64 + sint w else sint w)"
proof -
  have mod: "uint w = sint w mod 2 ^ 64" by (simp add: uint_sint take_bit_eq_mod)
  have range: "- (2 ^ 63) \<le> sint w" "sint w < 2 ^ 63" using sint_greater_eq [of w] sint_less [of w] by simp_all
  show ?thesis
  proof (cases "sint w < 0")
    case True
    have "sint w mod 2 ^ 64 = (2 ^ 64 + sint w) mod 2 ^ 64" by simp
    also have "\<dots> = 2 ^ 64 + sint w" using True range(1) by (intro mod_pos_pos_trivial) simp_all
    finally show ?thesis using True mod by simp
  next
    case False
    then have "sint w mod 2 ^ 64 = sint w" using range(2) by (intro mod_pos_pos_trivial) simp_all
    then show ?thesis using False mod by simp
  qed
qed

text \<open>Error numbers: small naturals, negated in a 64-bit result, cut to an int.\<close>

lemma sint_of_small: "unat (w :: u64) < 2 ^ 63 \<Longrightarrow> 0 \<le> sint w"
  using uint_of_sint [of w] sint_greater_eq [of w] by (auto simp: unat_eq_nat_uint split: if_splits)

lemma sint_neg_of_nat:
  assumes "e < 2 ^ 31"
  shows "sint (- of_nat e :: u64) = - int e" and "sint (- of_nat e :: u32) = - int e"
proof -
  have "(- of_nat e :: u64) = word_of_int (- int e)" "(- of_nat e :: u32) = word_of_int (- int e)" by simp_all
  moreover have "signed_take_bit 63 (- int e) = - int e" "signed_take_bit 31 (- int e) = - int e"
    using assms by (simp_all add: signed_take_bit_int_eq_self_iff)
  ultimately show "sint (- of_nat e :: u64) = - int e" and "sint (- of_nat e :: u32) = - int e"
    by (simp_all only: signed_of_int) simp_all
qed

lemma sint_ucast_of_nat:
  assumes "e < 2 ^ 31"
  shows "sint (ucast (of_nat e :: u64) :: u32) = int e"
proof -
  have "(ucast (of_nat e :: u64) :: u32) = of_nat e" using assms by (simp add: unsigned_of_nat take_bit_nat_eq_self)
  then show ?thesis using assms by (simp add: signed_of_nat signed_take_bit_int_eq_self)
qed

text \<open>
  The 32-bit counters of the io_uring rings run freely and wrap; their difference, modulo
  \<open>2 ^ 32\<close>, is the number of entries. Moving the lower one forward by one takes one off
  the difference.
\<close>

lemma unat_diff_Suc:
  fixes h t :: "'a::len word"
  assumes "h \<noteq> t"
  shows "Suc (unat (t - (h + 1))) = unat (t - h)"
proof -
  have "t - h \<noteq> 0" using assms by simp
  then have "unat (t - h - 1) = unat (t - h) - 1" and "0 < unat (t - h)"
    by (simp_all add: unat_minus_one unat_gt_0)
  then show ?thesis by (simp add: diff_diff_eq)
qed

text \<open>Masking with \<open>2 ^ k - 1\<close> is the remainder modulo the ring size.\<close>

lemma unat_and_mask: "unat (w AND mask k) = unat w mod 2 ^ k"
  by (simp flip: take_bit_eq_mask add: unsigned_take_bit_eq) (simp add: take_bit_eq_mod)

subsection \<open>Circular buffers as lists\<close>

definition ring_list :: "('i \<Rightarrow> 'a) \<Rightarrow> (nat \<Rightarrow> 'i) \<Rightarrow> nat \<Rightarrow> 'a list" where
  "ring_list get pos n = map (\<lambda>i. get (pos i)) [0..<n]"

lemma length_ring_list [simp]: "length (ring_list get pos n) = n"
  by (simp add: ring_list_def)

lemma ring_list_0 [simp]: "ring_list get pos 0 = []"
  by (simp add: ring_list_def)

lemma ring_list_Suc: "ring_list get pos (Suc n) = ring_list get pos n @ [get (pos n)]"
  by (simp add: ring_list_def)

lemma ring_list_Cons: "ring_list get pos (Suc n) = get (pos 0) # ring_list get (\<lambda>i. pos (Suc i)) n"
  by (simp add: ring_list_def upt_conv_Cons map_Suc_upt [symmetric] del: upt_Suc)

lemma ring_list_cong:
  "(\<And>i. i < n \<Longrightarrow> get (pos i) = get' (pos' i)) \<Longrightarrow> ring_list get pos n = ring_list get' pos' n"
  by (simp add: ring_list_def)

lemma ring_list_eq_Nil [simp]: "ring_list get pos n = [] \<longleftrightarrow> n = 0"
  by (simp add: ring_list_def)

subsection \<open>Lists without repetition\<close>

lemma distinct_if_count_le_1: "(\<And>a. count (mset xs) a \<le> 1) \<Longrightarrow> distinct xs"
  unfolding distinct_count_atmost_1
  by (metis One_nat_def count_greater_zero_iff le_antisym less_eq_Suc_le not_in_iff set_mset_mset)

lemma sub_mset_distinct:
  assumes "mset xs \<subseteq># mset ys" and "distinct ys"
  shows "distinct xs" "set xs \<subseteq> set ys" "length xs \<le> length ys"
proof -
  have "count (mset ys) a \<le> 1" for a using assms(2) by (simp add: distinct_count_atmost_1)
  then have "count (mset xs) a \<le> 1" for a using mset_subset_eq_count [OF assms(1)] le_trans by blast
  then show "distinct xs" by (rule distinct_if_count_le_1)
  show "set xs \<subseteq> set ys" using set_mset_mono [OF assms(1)] by simp
  show "length xs \<le> length ys" using size_mset_mono [OF assms(1)] by simp
qed

subsection \<open>Sums over threads\<close>

lemma sum_upd:
  fixes g :: "'b \<Rightarrow> 'c::comm_monoid_add"
  assumes "t < (n::nat)"
  shows "(\<Sum>i<n. g (if i = t then x else f i)) + g (f t) = (\<Sum>i<n. g (f i)) + g x"
proof -
  have "(\<Sum>i<n. g (if i = t then x else f i)) = g x + (\<Sum>i\<in>{..<n} - {t}. g (f i))"
    using assms by (subst sum.remove [of _ t]) (auto intro!: sum.cong)
  moreover have "(\<Sum>i<n. g (f i)) = g (f t) + (\<Sum>i\<in>{..<n} - {t}. g (f i))"
    using assms by (subst sum.remove [of _ t]) auto
  ultimately show ?thesis by (simp add: ac_simps)
qed

lemma sum_int_upd:
  fixes g :: "'b \<Rightarrow> int"
  assumes "t < (n::nat)"
  shows "(\<Sum>i<n. g (if i = t then x else f i)) = (\<Sum>i<n. g (f i)) + g x - g (f t)"
  using sum_upd [OF assms, of g x f] by simp

text \<open>A sum over a map when one entry changes.\<close>

lemma sum_fun_upd:
  fixes f :: "'v \<Rightarrow> nat"
  assumes "finite A" and "p \<in> A"
  shows "(\<Sum>r\<in>A. f ((g(p := v)) r)) + f (g p) = (\<Sum>r\<in>A. f (g r)) + f v"
proof -
  have "(\<Sum>r\<in>A. f ((g(p := v)) r)) = f v + (\<Sum>r\<in>A - {p}. f (g r))"
    using assms by (auto simp: sum.remove intro!: sum.cong)
  then show ?thesis using assms by (simp add: sum.remove)
qed

end
