(* ===== verification/Interfaces.thy ===== *)
theory Interfaces
  imports Caio_Prelude "HOL-Library.Sublist"
begin

text \<open>
  The interfaces of the program, stated as locales: what a client of a component may rely
  on. Every locale is interpreted on the model's own definitions in the theory of the
  component that provides it.

  \<open>bounded_fifo\<close> is the contract of the two queues of the program: the task queue of the
  thread pool (filled by \<^verbatim>\<open>threadpool_add\<close>, emptied by the workers) and the submission
  ring of io_uring (filled by \<^verbatim>\<open>Context.submit\<close>, emptied by the kernel).
\<close>

datatype 'a fifo_op = Push 'a | Pop

text \<open>
  A run of pushes and pops, in any order: what was accepted, what was delivered, and the
  queue at the end. A push that is refused and a pop that finds nothing leave the queue.
\<close>

fun fifo_run :: "('a \<Rightarrow> 'q \<Rightarrow> 'q option) \<Rightarrow> ('q \<Rightarrow> ('a \<times> 'q) option) \<Rightarrow> 'a fifo_op list \<Rightarrow> 'q
    \<Rightarrow> 'a list \<times> 'a list \<times> 'q" where
  "fifo_run push pop [] q = ([], [], q)"
| "fifo_run push pop (Push x # ops) q =
     (case push x q of
        None \<Rightarrow> fifo_run push pop ops q
      | Some q' \<Rightarrow> let (acc, del, r) = fifo_run push pop ops q' in (x # acc, del, r))"
| "fifo_run push pop (Pop # ops) q =
     (case pop q of
        None \<Rightarrow> fifo_run push pop ops q
      | Some (x, q') \<Rightarrow> let (acc, del, r) = fifo_run push pop ops q' in (acc, x # del, r))"

locale bounded_fifo =
  fixes inv :: "'q \<Rightarrow> bool"
    and content :: "'q \<Rightarrow> 'a list"
    and capacity :: "'q \<Rightarrow> nat"
    and closed :: "'q \<Rightarrow> bool"
    and stopped :: "'q \<Rightarrow> bool"
    and push :: "'a \<Rightarrow> 'q \<Rightarrow> 'q option"
    and pop :: "'q \<Rightarrow> ('a \<times> 'q) option"
  assumes content_bound: "inv q \<Longrightarrow> length (content q) \<le> capacity q"
    and push_refused: "inv q \<Longrightarrow> push x q = None \<longleftrightarrow> closed q \<or> length (content q) = capacity q"
    and push_accepted: "inv q \<Longrightarrow> push x q = Some q' \<Longrightarrow>
      inv q' \<and> content q' = content q @ [x] \<and> capacity q' = capacity q"
    and pop_nothing: "inv q \<Longrightarrow> pop q = None \<longleftrightarrow> stopped q \<or> content q = []"
    and pop_delivered: "inv q \<Longrightarrow> pop q = Some (x, q') \<Longrightarrow>
      inv q' \<and> content q = x # content q' \<and> capacity q' = capacity q"
begin

text \<open>Nothing is lost, duplicated or reordered, whatever the interleaving.\<close>

lemma run_conserves:
  assumes "inv q" and "fifo_run push pop ops q = (acc, del, r)"
  shows "inv r \<and> content q @ acc = del @ content r \<and> capacity r = capacity q"
  using assms
proof (induction ops arbitrary: q acc del)
  case Nil
  then show ?case by simp
next
  case (Cons op ops)
  show ?case
  proof (cases op)
    case (Push x)
    then show ?thesis
      using Cons push_accepted [OF Cons.prems(1), of x]
      by (fastforce split: option.splits prod.splits)
  next
    case Pop
    then show ?thesis
      using Cons pop_delivered [OF Cons.prems(1)]
      by (fastforce split: option.splits prod.splits)
  qed
qed

lemma run_bounded:
  assumes "inv q" and "fifo_run push pop ops q = (acc, del, r)"
  shows "length (content r) \<le> capacity q"
  using run_conserves [OF assms] content_bound [of r] by simp

text \<open>Between two states of a queue that accepted \<open>x\<close>, \<open>x\<close> is delivered after all before it.\<close>

lemma push_then_last:
  assumes "inv q" and "push x q = Some q'"
  shows "last (content q') = x" and "butlast (content q') = content q"
  using push_accepted [OF assms] by simp_all

end

section \<open>Claiming operations\<close>

text \<open>
  The loop with which \<^verbatim>\<open>submit\<close> walks over its arguments: an operation that is not free is
  passed over, a free one is claimed unless the backend refuses, and a refusal ends the
  loop. The result is the refusal, the operations claimed, in order, and the state.
\<close>

fun claim_loop :: "('w \<Rightarrow> 'p \<Rightarrow> bool) \<Rightarrow> ('w \<Rightarrow> 'e option) \<Rightarrow> ('p \<Rightarrow> 'w \<Rightarrow> 'w) \<Rightarrow> 'p list \<Rightarrow> 'w
    \<Rightarrow> 'e option \<times> 'p list \<times> 'w" where
  "claim_loop free refuse claim [] w = (None, [], w)"
| "claim_loop free refuse claim (p # ps) w =
     (if \<not> free w p then claim_loop free refuse claim ps w
      else
        (case refuse w of Some e \<Rightarrow> (Some e, [], w)
         | None \<Rightarrow> let (r, cs, v) = claim_loop free refuse claim ps (claim p w) in (r, p # cs, v)))"

lemma claim_loop_keeps:
  assumes "claim_loop free refuse claim ps w = (r, cs, v)" and "P w"
    and "\<And>w p. P w \<Longrightarrow> free w p \<Longrightarrow> refuse w = None \<Longrightarrow> P (claim p w)"
  shows "P v"
  using assms(1,2)
proof (induction ps arbitrary: w cs)
  case (Cons p ps)
  show ?case
  proof (cases "free w p \<and> refuse w = None")
    case True
    then obtain cs' where "claim_loop free refuse claim ps (claim p w) = (r, cs', v)"
      using Cons.prems(1) by (auto split: prod.splits)
    then show ?thesis using Cons.IH assms(3) Cons.prems(2) True by blast
  next
    case False
    then show ?thesis using Cons by (auto split: if_splits option.splits)
  qed
qed simp

text \<open>
  \<open>claiming\<close> is what a backend promises of one claim: the operation is no longer free, its
  request is appended to the requests of the backend, and no other operation changes.
\<close>

locale claiming =
  fixes ok :: "'w \<Rightarrow> bool"
    and free :: "'w \<Rightarrow> 'p \<Rightarrow> bool"
    and requests :: "'w \<Rightarrow> 't list"
    and request_of :: "'w \<Rightarrow> 'p \<Rightarrow> 't"
    and refuse :: "'w \<Rightarrow> 'e option"
    and claim :: "'p \<Rightarrow> 'w \<Rightarrow> 'w"
  assumes claim_ok: "ok w \<Longrightarrow> free w p \<Longrightarrow> refuse w = None \<Longrightarrow> ok (claim p w)"
    and claim_requests: "ok w \<Longrightarrow> free w p \<Longrightarrow> refuse w = None \<Longrightarrow>
      requests (claim p w) = requests w @ [request_of w p]"
    and claim_free: "ok w \<Longrightarrow> free w p \<Longrightarrow> refuse w = None \<Longrightarrow> free (claim p w) q \<longleftrightarrow> q \<noteq> p \<and> free w q"
    and claim_others: "ok w \<Longrightarrow> free w p \<Longrightarrow> refuse w = None \<Longrightarrow> q \<noteq> p \<Longrightarrow>
      request_of (claim p w) q = request_of w q"
begin

text \<open>
  The loop claims each operation at most once and only free ones, appends their requests in
  order, and stops early only when refused.
\<close>

lemma loop_claims:
  assumes "ok w" and "claim_loop free refuse claim ps w = (r, cs, v)"
  shows "ok v \<and> v = fold claim cs w \<and> subseq cs ps \<and> distinct cs \<and> set cs \<subseteq> {p \<in> set ps. free w p} \<and>
     requests v = requests w @ map (request_of w) cs \<and>
     (\<forall>q. free v q \<longleftrightarrow> q \<notin> set cs \<and> free w q) \<and>
     (case r of None \<Rightarrow> set cs = {p \<in> set ps. free w p} | Some e \<Rightarrow> refuse v = Some e)"
  using assms
proof (induction ps arbitrary: w cs)
  case Nil
  then show ?case by auto
next
  case (Cons p ps)
  show ?case
  proof (cases "free w p \<and> refuse w = None")
    case True
    then obtain cs' where cs: "cs = p # cs'"
      and loop: "claim_loop free refuse claim ps (claim p w) = (r, cs', v)"
      using Cons.prems(2) by (auto split: prod.splits)
    note c = claim_ok [OF Cons.prems(1)] claim_requests [OF Cons.prems(1)] claim_free [OF Cons.prems(1)]
      claim_others [OF Cons.prems(1)]
    note ih = Cons.IH [OF c(1) loop]
    have "map (request_of (claim p w)) cs' = map (request_of w) cs'"
      using ih c(3,4) True by (intro map_cong) auto
    then show ?thesis
      using ih c(2,3) True cs by (cases r) auto
  next
    case False
    then show ?thesis
      using Cons.prems Cons.IH [OF Cons.prems(1)]
      by (cases "free w p"; cases r) (auto split: option.splits)
  qed
qed

end

end
