(* ===== verification/Threadpool.thy ===== *)
theory Threadpool
  imports Interfaces
begin

text \<open>
  The thread pool of \<^verbatim>\<open>caio/src/threadpool/threadpool.c\<close>: the pool record, the
  sequential effect of each function of its interface on every branch, and the body of the
  worker loop.

  Failing calls. Every call into libc or pthreads that can fail appears as an argument: its
  return code, or whether the allocation gave memory. A theorem therefore covers each
  branch of the C code.

  Locking. The shared fields are read and written with the mutex held only, so the code
  between two lock operations is one function here; \<open>tp_lock\<close> says whether the mutex is
  held when it is left. Condition variable: \<open>tp_notify\<close> is the set of the threads blocked
  in \<^verbatim>\<open>pthread_cond_wait\<close>.
\<close>

section \<open>Data\<close>

definition MAX_THREADS :: int where [simp]: "MAX_THREADS = 128"
definition MAX_QUEUE :: int where [simp]: "MAX_QUEUE = 65536"

definition threadpool_invalid :: int where [simp]: "threadpool_invalid = -1"
definition threadpool_lock_failure :: int where [simp]: "threadpool_lock_failure = -2"
definition threadpool_queue_full :: int where [simp]: "threadpool_queue_full = -3"
definition threadpool_shutdown :: int where [simp]: "threadpool_shutdown = -4"
definition threadpool_thread_failure :: int where [simp]: "threadpool_thread_failure = -5"

datatype threadpool_shutdown_t = immediate_shutdown | graceful_shutdown

record threadpool_task_t =
  func :: ptr
  argument :: ptr

text \<open>
  \<open>tp_shutdown\<close> is \<open>None\<close> for the value 0 of the C field. \<open>tp_threads\<close> and \<open>tp_queue\<close> are
  \<open>None\<close> when the pointer is null; the thread array holds thread numbers.
\<close>

record threadpool_t =
  tp_lock :: bool
  tp_notify :: "nat set"
  tp_threads :: "nat list option"
  tp_queue :: "threadpool_task_t list option"
  tp_thread_count :: int
  tp_queue_size :: int
  tp_head :: int
  tp_tail :: int
  tp_count :: int
  tp_shutdown :: "threadpool_shutdown_t option"
  tp_started :: int

section \<open>Adding a task\<close>

record pthread_env =
  mutex_lock_rc :: int
  cond_rc :: int
  mutex_unlock_rc :: int
  woken :: "nat set"

abbreviation pthread_ok :: "nat set \<Rightarrow> pthread_env" where
  "pthread_ok w \<equiv> \<lparr>mutex_lock_rc = 0, cond_rc = 0, mutex_unlock_rc = 0, woken = w\<rparr>"

definition queue_store :: "int \<Rightarrow> threadpool_task_t \<Rightarrow> threadpool_t \<Rightarrow> threadpool_t" where
  "queue_store i t p = p\<lparr>tp_queue := map_option (\<lambda>q. q[nat i := t]) (tp_queue p)\<rparr>"

definition queue_load :: "int \<Rightarrow> threadpool_t \<Rightarrow> threadpool_task_t" where
  "queue_load i p = the (tp_queue p) ! nat i"

text \<open>The part of \<^verbatim>\<open>threadpool_add\<close> that runs with the mutex held (the \<^verbatim>\<open>do ... while(0)\<close>).\<close>

definition threadpool_add_locked :: "pthread_env \<Rightarrow> threadpool_t \<Rightarrow> ptr \<Rightarrow> ptr \<Rightarrow> int \<times> threadpool_t" where
  "threadpool_add_locked e p f a =
     (let next = (tp_tail p + 1) mod tp_queue_size p in
      if tp_count p = tp_queue_size p then (threadpool_queue_full, p)
      else if tp_shutdown p \<noteq> None then (threadpool_shutdown, p)
      else
        let p = queue_store (tp_tail p) \<lparr>func = f, argument = a\<rparr> p;
            p = p\<lparr>tp_tail := next, tp_count := tp_count p + 1\<rparr>
        in if cond_rc e \<noteq> 0 then (threadpool_lock_failure, p)
           else (0, p\<lparr>tp_notify := tp_notify p - woken e\<rparr>))"

definition threadpool_add ::
  "pthread_env \<Rightarrow> threadpool_t option \<Rightarrow> ptr \<Rightarrow> ptr \<Rightarrow> int \<times> threadpool_t option" where
  "threadpool_add e pool f a =
     (case pool of None \<Rightarrow> (threadpool_invalid, None)
      | Some p \<Rightarrow>
          if f = NULL then (threadpool_invalid, Some p)
          else if mutex_lock_rc e \<noteq> 0 then (threadpool_lock_failure, Some p)
          else
            let (err, p) = threadpool_add_locked e (p\<lparr>tp_lock := True\<rparr>) f a
            in if mutex_unlock_rc e \<noteq> 0 then (threadpool_lock_failure, Some p)
               else (err, Some (p\<lparr>tp_lock := False\<rparr>)))"

section \<open>The worker loop\<close>

text \<open>
  \<^verbatim>\<open>threadpool_thread\<close> from the moment it owns the mutex (after
  \<^verbatim>\<open>pthread_mutex_lock\<close> at the top of the loop, or after \<^verbatim>\<open>pthread_cond_wait\<close>
  returned; both go to the test of the inner loop) to the moment it gives the mutex up:
  it waits, or it runs a task, or it leaves the loop.
\<close>

datatype worker_act = Cond_Wait | Run_Task threadpool_task_t | Thread_Exit

definition threadpool_thread :: "nat \<Rightarrow> threadpool_t \<Rightarrow> worker_act \<times> threadpool_t" where
  "threadpool_thread tid p =
     (if tp_count p = 0 \<and> tp_shutdown p = None then
        (Cond_Wait, p\<lparr>tp_notify := insert tid (tp_notify p), tp_lock := False\<rparr>)
      else if tp_shutdown p = Some immediate_shutdown \<or>
              (tp_shutdown p = Some graceful_shutdown \<and> tp_count p = 0) then
        (Thread_Exit, p\<lparr>tp_started := tp_started p - 1, tp_lock := False\<rparr>)
      else
        let task = queue_load (tp_head p) p
        in (Run_Task task,
            p\<lparr>tp_head := (tp_head p + 1) mod tp_queue_size p,
              tp_count := tp_count p - 1, tp_lock := False\<rparr>))"

section \<open>Freeing and destroying a pool\<close>

text \<open>
  The calls \<^verbatim>\<open>threadpool_free\<close> makes, in order. \<open>Mutex_Destroy\<close> records whether the
  mutex is held at the call.
\<close>

datatype pool_call = Free_Threads | Free_Queue | Mutex_Lock | Mutex_Destroy bool
  | Cond_Destroy | Free_Pool

definition threadpool_free :: "threadpool_t option \<Rightarrow> int \<times> pool_call list" where
  "threadpool_free pool =
     (case pool of None \<Rightarrow> (-1, [])
      | Some p \<Rightarrow>
          if tp_started p > 0 then (-1, [])
          else if tp_threads p \<noteq> None then
            (0, [Free_Threads, Free_Queue, Mutex_Lock, Mutex_Destroy True, Cond_Destroy, Free_Pool])
          else (0, [Free_Pool]))"

text \<open>
  \<^verbatim>\<open>threadpool_destroy\<close> up to the point where it has told the workers and released the
  mutex. The result is the error so far, and whether the loop of joins is reached.
\<close>

definition threadpool_destroy_begin ::
  "pthread_env \<Rightarrow> bool \<Rightarrow> threadpool_t \<Rightarrow> int \<times> bool \<times> threadpool_t" where
  "threadpool_destroy_begin e graceful p =
     (if mutex_lock_rc e \<noteq> 0 then (threadpool_lock_failure, False, p)
      else
        let p = p\<lparr>tp_lock := True\<rparr> in
        if tp_shutdown p \<noteq> None then (threadpool_shutdown, False, p)
        else
          let p = p\<lparr>tp_shutdown := Some (if graceful then graceful_shutdown else immediate_shutdown)\<rparr> in
          if cond_rc e \<noteq> 0 then (threadpool_lock_failure, False, p)
          else
            let p = p\<lparr>tp_notify := {}\<rparr> in
            if mutex_unlock_rc e \<noteq> 0 then (threadpool_lock_failure, False, p)
            else (0, True, p\<lparr>tp_lock := False\<rparr>))"

text \<open>
  The loop of joins: any failing \<^verbatim>\<open>pthread_join\<close> sets the error. \<open>joins\<close> gives the
  return codes of the successive calls.
\<close>

primrec join_loop :: "(nat \<Rightarrow> int) \<Rightarrow> nat \<Rightarrow> int" where
  "join_loop joins 0 = 0"
| "join_loop joins (Suc n) = (if joins n \<noteq> 0 then threadpool_thread_failure else join_loop joins n)"

text \<open>
  The whole function. \<open>meanwhile\<close> is what the other threads do to the pool while the caller
  is blocked in the joins; the pool is gone (\<open>None\<close>) when it has been freed.
\<close>

definition threadpool_destroy ::
  "pthread_env \<Rightarrow> (nat \<Rightarrow> int) \<Rightarrow> (threadpool_t \<Rightarrow> threadpool_t) \<Rightarrow> threadpool_t option \<Rightarrow> bool
   \<Rightarrow> int \<times> threadpool_t option \<times> pool_call list" where
  "threadpool_destroy e joins meanwhile pool graceful =
     (case pool of None \<Rightarrow> (threadpool_invalid, None, [])
      | Some p \<Rightarrow>
          let (err, joining, p) = threadpool_destroy_begin e graceful p;
              p = (if joining then meanwhile p else p);
              err = (if joining then join_loop joins (nat (tp_thread_count p)) else err)
          in if err \<noteq> 0 then (err, Some p, [])
             else
               let (rc, calls) = threadpool_free (Some p)
               in (0, if rc = 0 then None else Some p, calls))"

section \<open>Creating a pool\<close>

record create_env =
  malloc_pool :: bool
  malloc_threads :: bool
  malloc_queue :: bool
  mutex_init_rc :: int
  cond_init_rc :: int
  thread_create_rc :: "nat \<Rightarrow> int"
  queue_garbage :: "threadpool_task_t list"

text \<open>
  The loop that starts the workers: thread \<open>i\<close> is created, then the two counters move. The
  result says whether all were created. (Fuel: the number of threads left.)
\<close>

primrec create_loop :: "create_env \<Rightarrow> nat \<Rightarrow> nat \<Rightarrow> threadpool_t \<Rightarrow> bool \<times> threadpool_t" where
  "create_loop ce 0 i p = (True, p)"
| "create_loop ce (Suc n) i p =
     (if thread_create_rc ce i \<noteq> 0 then (False, p)
      else create_loop ce n (Suc i)
        (p\<lparr>tp_threads := map_option (\<lambda>ts. ts @ [i]) (tp_threads p),
           tp_thread_count := tp_thread_count p + 1, tp_started := tp_started p + 1\<rparr>))"

definition pool_allocated :: "create_env \<Rightarrow> int \<Rightarrow> threadpool_t" where
  "pool_allocated ce queue_size =
     \<lparr>tp_lock = False, tp_notify = {},
      tp_threads = (if malloc_threads ce then Some [] else None),
      tp_queue = (if malloc_queue ce then Some (take (nat queue_size) (queue_garbage ce) @
          replicate (nat queue_size - length (queue_garbage ce)) \<lparr>func = NULL, argument = NULL\<rparr>) else None),
      tp_thread_count = 0, tp_queue_size = queue_size,
      tp_head = 0, tp_tail = 0, tp_count = 0, tp_shutdown = None, tp_started = 0\<rparr>"

text \<open>
  \<open>de\<close>, \<open>joins\<close> and \<open>meanwhile\<close> are for the \<^verbatim>\<open>threadpool_destroy\<close> of the path on which a
  worker cannot be started. The result is the pool, if any, and the calls made to free.
\<close>

definition threadpool_create ::
  "create_env \<Rightarrow> pthread_env \<Rightarrow> (nat \<Rightarrow> int) \<Rightarrow> (threadpool_t \<Rightarrow> threadpool_t) \<Rightarrow> int \<Rightarrow> int
   \<Rightarrow> threadpool_t option \<times> pool_call list" where
  "threadpool_create ce de joins meanwhile thread_count queue_size =
     (if thread_count \<le> 0 \<or> thread_count > MAX_THREADS \<or> queue_size \<le> 0 \<or> queue_size > MAX_QUEUE
      then (None, [])
      else if \<not> malloc_pool ce then (None, [])
      else
        let p = pool_allocated ce queue_size in
        if mutex_init_rc ce \<noteq> 0 \<or> cond_init_rc ce \<noteq> 0 \<or> tp_threads p = None \<or> tp_queue p = None
        then (None, snd (threadpool_free (Some p)))
        else
          (case create_loop ce (nat thread_count) 0 p of
             (False, p) \<Rightarrow> (None, snd (snd (threadpool_destroy de joins meanwhile (Some p) False)))
           | (True, p) \<Rightarrow> (Some p, [])))"

section \<open>Well-formed pools and the queue as a list\<close>

definition pool_wf :: "threadpool_t \<Rightarrow> bool" where
  "pool_wf p \<longleftrightarrow>
     (\<exists>q. tp_queue p = Some q \<and> length q = nat (tp_queue_size p)) \<and>
     0 < tp_queue_size p \<and> tp_queue_size p \<le> MAX_QUEUE \<and>
     0 \<le> tp_head p \<and> tp_head p < tp_queue_size p \<and>
     0 \<le> tp_count p \<and> tp_count p \<le> tp_queue_size p \<and>
     tp_tail p = (tp_head p + tp_count p) mod tp_queue_size p"

definition tp_list :: "threadpool_t \<Rightarrow> threadpool_task_t list" where
  "tp_list p = ring_list (\<lambda>i. queue_load i p)
     (\<lambda>i. (tp_head p + int i) mod tp_queue_size p) (nat (tp_count p))"

lemma length_tp_list [simp]: "length (tp_list p) = nat (tp_count p)"
  by (simp add: tp_list_def)

lemma pool_wf_upd [simp]:
  "pool_wf (p\<lparr>tp_lock := l\<rparr>) = pool_wf p"
  "pool_wf (p\<lparr>tp_notify := w\<rparr>) = pool_wf p"
  "pool_wf (p\<lparr>tp_shutdown := sd\<rparr>) = pool_wf p"
  "pool_wf (p\<lparr>tp_started := n\<rparr>) = pool_wf p"
  "pool_wf (p\<lparr>tp_threads := ts\<rparr>) = pool_wf p"
  "pool_wf (p\<lparr>tp_thread_count := n\<rparr>) = pool_wf p"
  by (simp_all add: pool_wf_def)

lemma tp_list_upd [simp]:
  "tp_list (p\<lparr>tp_lock := l\<rparr>) = tp_list p"
  "tp_list (p\<lparr>tp_notify := w\<rparr>) = tp_list p"
  "tp_list (p\<lparr>tp_shutdown := sd\<rparr>) = tp_list p"
  "tp_list (p\<lparr>tp_started := n\<rparr>) = tp_list p"
  "tp_list (p\<lparr>tp_threads := ts\<rparr>) = tp_list p"
  "tp_list (p\<lparr>tp_thread_count := n\<rparr>) = tp_list p"
  by (simp_all add: tp_list_def queue_load_def)

lemma pool_wf_tail: "pool_wf p \<Longrightarrow> 0 \<le> tp_tail p \<and> tp_tail p < tp_queue_size p"
  by (auto simp: pool_wf_def)

text \<open>Two positions of the same window of the ring are different slots.\<close>

lemma ring_slot_inj:
  fixes h :: int
  assumes "i < j" "int j < s" "0 < s"
  shows "(h + int i) mod s \<noteq> (h + int j) mod s"
proof
  assume "(h + int i) mod s = (h + int j) mod s"
  then have "s dvd int j - int i"
    by (simp add: mod_eq_dvd_iff) (metis dvd_minus_iff minus_diff_eq)
  then show False
    using assms by (auto dest: zdvd_imp_le)
qed

text \<open>The store of \<^verbatim>\<open>threadpool_add\<close> writes the first free slot and no pending one.\<close>

lemma push_list:
  fixes t :: threadpool_task_t
  assumes wf: "pool_wf p" and room: "tp_count p < tp_queue_size p"
  defines "p' \<equiv> (queue_store (tp_tail p) t p)
     \<lparr>tp_tail := (tp_tail p + 1) mod tp_queue_size p, tp_count := tp_count p + 1\<rparr>"
  shows "pool_wf p'" and "tp_list p' = tp_list p @ [t]"
proof -
  from wf obtain q where q: "tp_queue p = Some q" "length q = nat (tp_queue_size p)"
    by (auto simp: pool_wf_def)
  note f = wf [unfolded pool_wf_def]
  show "pool_wf p'"
    using f room q by (auto simp: p'_def queue_store_def pool_wf_def mod_add_left_eq mod_add_right_eq algebra_simps)
  have load: "queue_load j p' = (if j = tp_tail p then t else queue_load j p)"
    if "0 \<le> j" "j < tp_queue_size p" for j
    using that q f by (auto simp: p'_def queue_store_def queue_load_def nth_list_update nat_eq_iff2)
  have pos: "(tp_head p + int i) mod tp_queue_size p \<noteq> tp_tail p" if "i < nat (tp_count p)" for i
    using ring_slot_inj [of i "nat (tp_count p)" "tp_queue_size p" "tp_head p"] that f room by auto
  have "tp_list p' = ring_list (\<lambda>i. queue_load i p')
      (\<lambda>i. (tp_head p + int i) mod tp_queue_size p) (Suc (nat (tp_count p)))"
    using f by (simp add: tp_list_def p'_def queue_store_def nat_add_distrib)
  also have "\<dots> = tp_list p @ [t]"
    unfolding ring_list_Suc tp_list_def using f load pos
    by (auto intro!: ring_list_cong)
  finally show "tp_list p' = tp_list p @ [t]" .
qed

text \<open>The load of the worker reads the oldest pending slot.\<close>

lemma pop_list:
  assumes wf: "pool_wf p" and nonempty: "tp_count p \<noteq> 0"
  defines "p' \<equiv> p\<lparr>tp_head := (tp_head p + 1) mod tp_queue_size p, tp_count := tp_count p - 1\<rparr>"
  shows "pool_wf p'" and "tp_list p = queue_load (tp_head p) p # tp_list p'"
proof -
  note f = wf [unfolded pool_wf_def]
  show "pool_wf p'"
    using f nonempty by (auto simp: p'_def pool_wf_def mod_add_left_eq)
  have n: "nat (tp_count p) = Suc (nat (tp_count p - 1))"
    using f nonempty by (simp add: Suc_nat_eq_nat_zadd1)
  show "tp_list p = queue_load (tp_head p) p # tp_list p'"
    using f unfolding tp_list_def n ring_list_Cons
    by (auto simp: p'_def queue_load_def mod_add_left_eq mod_add_right_eq algebra_simps
        intro!: ring_list_cong)
qed

section \<open>The operations on the queue\<close>

lemma threadpool_add_locked_cases:
  "threadpool_add_locked e p f a =
     (if tp_count p = tp_queue_size p then (threadpool_queue_full, p)
      else if tp_shutdown p \<noteq> None then (threadpool_shutdown, p)
      else let p' = (queue_store (tp_tail p) \<lparr>func = f, argument = a\<rparr> p)
             \<lparr>tp_tail := (tp_tail p + 1) mod tp_queue_size p, tp_count := tp_count p + 1\<rparr>
           in if cond_rc e \<noteq> 0 then (threadpool_lock_failure, p')
              else (0, p'\<lparr>tp_notify := tp_notify p - woken e\<rparr>))"
  by (simp add: threadpool_add_locked_def queue_store_def Let_def)

lemma pool_wf_full: "pool_wf p \<Longrightarrow> tp_count p \<noteq> tp_queue_size p \<Longrightarrow> tp_count p < tp_queue_size p"
  by (simp add: pool_wf_def)

lemma add_locked_err:
  "fst (threadpool_add_locked e p f a) =
     (if tp_count p = tp_queue_size p then threadpool_queue_full
      else if tp_shutdown p \<noteq> None then threadpool_shutdown
      else if cond_rc e \<noteq> 0 then threadpool_lock_failure else 0)"
  by (simp add: threadpool_add_locked_def Let_def)

lemma add_locked_wf: "pool_wf p \<Longrightarrow> pool_wf (snd (threadpool_add_locked e p f a))"
  by (auto simp: threadpool_add_locked_cases Let_def pool_wf_full push_list)

lemma add_locked_list:
  "pool_wf p \<Longrightarrow> tp_list (snd (threadpool_add_locked e p f a)) =
     (if tp_count p < tp_queue_size p \<and> tp_shutdown p = None
      then tp_list p @ [\<lparr>func = f, argument = a\<rparr>] else tp_list p)"
  by (auto simp: threadpool_add_locked_cases Let_def push_list dest: pool_wf_full)

lemma add_locked_frame [simp]:
  "tp_lock (snd (threadpool_add_locked e p f a)) = tp_lock p"
  "tp_shutdown (snd (threadpool_add_locked e p f a)) = tp_shutdown p"
  "tp_started (snd (threadpool_add_locked e p f a)) = tp_started p"
  "tp_thread_count (snd (threadpool_add_locked e p f a)) = tp_thread_count p"
  "tp_queue_size (snd (threadpool_add_locked e p f a)) = tp_queue_size p"
  "tp_threads (snd (threadpool_add_locked e p f a)) = tp_threads p"
  by (simp_all add: threadpool_add_locked_def queue_store_def Let_def)

lemma worker_act_cases:
  assumes "pool_wf p"
  obtains (Wait) "tp_count p = 0" "tp_shutdown p = None"
      "threadpool_thread tid p = (Cond_Wait, p\<lparr>tp_notify := insert tid (tp_notify p), tp_lock := False\<rparr>)"
  | (Exit) "tp_shutdown p = Some immediate_shutdown \<or> tp_shutdown p = Some graceful_shutdown \<and> tp_count p = 0"
      "threadpool_thread tid p = (Thread_Exit, p\<lparr>tp_started := tp_started p - 1, tp_lock := False\<rparr>)"
  | (Run) k p' where "tp_count p \<noteq> 0" "tp_shutdown p \<noteq> Some immediate_shutdown"
      "threadpool_thread tid p = (Run_Task k, p')" "pool_wf p'" "tp_list p = k # tp_list p'"
      "\<not> tp_lock p'" "tp_count p' = tp_count p - 1" "tp_shutdown p' = tp_shutdown p"
      "tp_notify p' = tp_notify p" "tp_started p' = tp_started p" "tp_queue_size p' = tp_queue_size p"
proof -
  consider "tp_count p = 0 \<and> tp_shutdown p = None"
    | "tp_shutdown p = Some immediate_shutdown \<or> tp_shutdown p = Some graceful_shutdown \<and> tp_count p = 0"
    | "tp_count p \<noteq> 0 \<and> tp_shutdown p \<noteq> Some immediate_shutdown"
    by (cases "tp_shutdown p") (auto intro: threadpool_shutdown_t.exhaust)
  then show thesis
  proof cases
    case 1
    then show thesis using Wait by (simp add: threadpool_thread_def)
  next
    case 2
    then show thesis using Exit by (auto simp: threadpool_thread_def)
  next
    case 3
    let ?p = "p\<lparr>tp_head := (tp_head p + 1) mod tp_queue_size p, tp_count := tp_count p - 1\<rparr>"
    have "threadpool_thread tid p = (Run_Task (queue_load (tp_head p) p), ?p\<lparr>tp_lock := False\<rparr>)"
      using 3 by (auto simp: threadpool_thread_def Let_def)
    moreover have "pool_wf (?p\<lparr>tp_lock := False\<rparr>)"
      and "tp_list p = queue_load (tp_head p) p # tp_list (?p\<lparr>tp_lock := False\<rparr>)"
      using pop_list [OF assms] 3 by simp_all
    ultimately show thesis
      using 3 by (intro Run [of "queue_load (tp_head p) p" "?p\<lparr>tp_lock := False\<rparr>"]) simp_all
  qed
qed

lemma threadpool_add_ok:
  assumes wf: "pool_wf p" and f: "f \<noteq> NULL"
    and add: "threadpool_add (pthread_ok w) (Some p) f a = (err, Some p')"
  shows "pool_wf p'" and "\<not> tp_lock p'"
    and "err = (if tp_count p = tp_queue_size p then threadpool_queue_full
                else if tp_shutdown p \<noteq> None then threadpool_shutdown else 0)"
    and "tp_list p' = tp_list p @ (if err = 0 then [\<lparr>func = f, argument = a\<rparr>] else [])"
    and "tp_notify p' = (if err = 0 then tp_notify p - w else tp_notify p)"
    and "tp_shutdown p' = tp_shutdown p" and "tp_started p' = tp_started p"
    and "tp_queue_size p' = tp_queue_size p" and "tp_thread_count p' = tp_thread_count p"
    and "tp_count p' = (if err = 0 then tp_count p + 1 else tp_count p)"
proof -
  let ?r = "threadpool_add_locked (pthread_ok w) (p\<lparr>tp_lock := True\<rparr>) f a"
  have wf': "pool_wf (p\<lparr>tp_lock := True\<rparr>)" using wf by simp
  have err: "err = fst ?r" and p': "p' = snd ?r\<lparr>tp_lock := False\<rparr>"
    using add f by (simp_all add: threadpool_add_def case_prod_beta)
  show "err = (if tp_count p = tp_queue_size p then threadpool_queue_full
                else if tp_shutdown p \<noteq> None then threadpool_shutdown else 0)"
    by (simp add: err add_locked_err)
  show "pool_wf p'" "\<not> tp_lock p'" "tp_shutdown p' = tp_shutdown p" "tp_started p' = tp_started p"
    "tp_queue_size p' = tp_queue_size p" "tp_thread_count p' = tp_thread_count p"
    using add_locked_wf [OF wf'] by (simp_all add: p')
  show "tp_list p' = tp_list p @ (if err = 0 then [\<lparr>func = f, argument = a\<rparr>] else [])"
    using add_locked_list [OF wf'] pool_wf_full [OF wf] by (auto simp: p' err add_locked_err)
  show "tp_notify p' = (if err = 0 then tp_notify p - w else tp_notify p)"
    and "tp_count p' = (if err = 0 then tp_count p + 1 else tp_count p)"
    by (simp_all add: p' err threadpool_add_locked_def queue_store_def Let_def)
qed

text \<open>The two ends of the queue as the operations of the interface.\<close>

definition pool_push :: "threadpool_task_t \<Rightarrow> threadpool_t \<Rightarrow> threadpool_t option" where
  "pool_push t p =
     (case threadpool_add_locked (pthread_ok {}) p (func t) (argument t) of
        (err, p') \<Rightarrow> if err = 0 then Some p' else None)"

lemma pool_push_eq:
  "pool_push t p =
     (if tp_count p = tp_queue_size p \<or> tp_shutdown p \<noteq> None then None
      else Some (snd (threadpool_add_locked (pthread_ok {}) p (func t) (argument t))))"
  by (simp add: pool_push_def case_prod_beta add_locked_err)

definition pool_pop :: "threadpool_t \<Rightarrow> (threadpool_task_t \<times> threadpool_t) option" where
  "pool_pop p =
     (case threadpool_thread 0 p of (Run_Task t, p') \<Rightarrow> Some (t, p') | _ \<Rightarrow> None)"

lemma task_eta [simp]: "\<lparr>func = func t, argument = argument t\<rparr> = (t :: threadpool_task_t)"
  by simp

interpretation pool: bounded_fifo pool_wf tp_list "\<lambda>p. nat (tp_queue_size p)"
  "\<lambda>p. tp_shutdown p \<noteq> None" "\<lambda>p. tp_shutdown p = Some immediate_shutdown" pool_push pool_pop
proof
  fix p :: threadpool_t and x :: threadpool_task_t
  assume wf: "pool_wf p"
  show "length (tp_list p) \<le> nat (tp_queue_size p)"
    using wf by (simp add: pool_wf_def nat_mono)
  show "(pool_push x p = None) = (tp_shutdown p \<noteq> None \<or> length (tp_list p) = nat (tp_queue_size p))"
    using wf by (auto simp: pool_push_eq pool_wf_def)
  show "(pool_pop p = None) = (tp_shutdown p = Some immediate_shutdown \<or> tp_list p = [])"
    by (rule worker_act_cases [OF wf, of 0]) (auto simp: pool_pop_def tp_list_def pool_wf_def)
next
  fix p p' :: threadpool_t and x :: threadpool_task_t
  assume wf: "pool_wf p" and push: "pool_push x p = Some p'"
  then show "pool_wf p' \<and> tp_list p' = tp_list p @ [x] \<and> nat (tp_queue_size p') = nat (tp_queue_size p)"
    using add_locked_wf [OF wf] add_locked_list [OF wf] pool_wf_full [OF wf]
    by (auto simp: pool_push_eq split: if_splits)
next
  fix p p' :: threadpool_t and x :: threadpool_task_t
  assume wf: "pool_wf p" and pop: "pool_pop p = Some (x, p')"
  show "pool_wf p' \<and> tp_list p = x # tp_list p' \<and> nat (tp_queue_size p') = nat (tp_queue_size p)"
    using pop by (cases rule: worker_act_cases [OF wf, of 0]) (auto simp: pool_pop_def)
qed

section \<open>Properties\<close>

definition empty_pool :: "int \<Rightarrow> threadpool_t" where
  "empty_pool n = \<lparr>tp_lock = False, tp_notify = {}, tp_threads = Some [],
     tp_queue = Some (replicate (nat n) \<lparr>func = NULL, argument = NULL\<rparr>),
     tp_thread_count = 0, tp_queue_size = n, tp_head = 0, tp_tail = 0, tp_count = 0,
     tp_shutdown = None, tp_started = 0\<rparr>"

lemma empty_pool_wf: "0 < n \<Longrightarrow> n \<le> MAX_QUEUE \<Longrightarrow> pool_wf (empty_pool n)"
  by (simp add: pool_wf_def empty_pool_def)

text \<open>
  What a call of \<^verbatim>\<open>threadpool_add\<close> does to the queue: it stores the task if the function
  is not null, the mutex could be locked, the queue has room and the pool is not shutting
  down.
\<close>

definition add_stores :: "pthread_env \<Rightarrow> threadpool_t \<Rightarrow> ptr \<Rightarrow> bool" where
  "add_stores e p f \<longleftrightarrow> f \<noteq> NULL \<and> mutex_lock_rc e = 0 \<and>
     length (tp_list p) < nat (tp_queue_size p) \<and> tp_shutdown p = None"

lemma pool_wf_room:
  assumes "pool_wf p"
  shows "tp_count p = tp_queue_size p \<longleftrightarrow> length (tp_list p) = nat (tp_queue_size p)"
    and "tp_count p < tp_queue_size p \<longleftrightarrow> length (tp_list p) < nat (tp_queue_size p)"
  using assms by (auto simp: pool_wf_def)

lemma threadpool_add_unfold:
  "f \<noteq> NULL \<Longrightarrow> mutex_lock_rc e = 0 \<Longrightarrow> threadpool_add e (Some p) f a =
     (let r = threadpool_add_locked e (p\<lparr>tp_lock := True\<rparr>) f a
      in if mutex_unlock_rc e \<noteq> 0 then (threadpool_lock_failure, Some (snd r))
         else (fst r, Some (snd r\<lparr>tp_lock := False\<rparr>)))"
  by (simp add: threadpool_add_def case_prod_beta Let_def)

lemma threadpool_add_refuses:
  "f = NULL \<or> mutex_lock_rc e \<noteq> 0 \<Longrightarrow> threadpool_add e (Some p) f a =
     (if f = NULL then threadpool_invalid else threadpool_lock_failure, Some p)"
  by (auto simp: threadpool_add_def)

text \<open>
  C6. \<^verbatim>\<open>threadpool_add\<close> on every branch, whatever libc answers. The task is appended at the
  end of the queue exactly when the function is not null, the lock succeeded, there is room
  and the pool is not shutting down; otherwise the queue is as it was. The code is
  \<^verbatim>\<open>threadpool_invalid\<close> for a null function, \<^verbatim>\<open>threadpool_lock_failure\<close> for a failed lock or
  unlock, else queue full, shutdown, a failed signal, or 0, in that order: a failed signal or
  unlock is reported although the task stays in the queue. The pool stays well formed, the
  counters and flags other than the queue are as they were, and the mutex is free afterwards
  unless the unlock failed. Without a pool the call is \<^verbatim>\<open>threadpool_invalid\<close>.
\<close>

theorem threadpool_add_spec:
  assumes wf: "pool_wf p" and add: "threadpool_add e (Some p) f a = (err, Some p')"
  shows "err = (if f = NULL then threadpool_invalid
                else if mutex_lock_rc e \<noteq> 0 \<or> mutex_unlock_rc e \<noteq> 0 then threadpool_lock_failure
                else if length (tp_list p) = nat (tp_queue_size p) then threadpool_queue_full
                else if tp_shutdown p \<noteq> None then threadpool_shutdown
                else if cond_rc e \<noteq> 0 then threadpool_lock_failure else 0) \<and>
    tp_list p' = tp_list p @ (if add_stores e p f then [\<lparr>func = f, argument = a\<rparr>] else []) \<and>
    pool_wf p' \<and>
    tp_notify p' = (if add_stores e p f \<and> cond_rc e = 0 then tp_notify p - woken e else tp_notify p) \<and>
    tp_shutdown p' = tp_shutdown p \<and> tp_started p' = tp_started p \<and>
    tp_queue_size p' = tp_queue_size p \<and> tp_thread_count p' = tp_thread_count p \<and>
    tp_lock p' = (if f = NULL \<or> mutex_lock_rc e \<noteq> 0 then tp_lock p else mutex_unlock_rc e \<noteq> 0) \<and>
    threadpool_add e None f a = (threadpool_invalid, None)"
proof (cases "f = NULL \<or> mutex_lock_rc e \<noteq> 0")
  case True
  then show ?thesis
    using wf add threadpool_add_refuses [OF True] by (auto simp: add_stores_def threadpool_add_def)
next
  case False
  let ?r = "threadpool_add_locked e (p\<lparr>tp_lock := True\<rparr>) f a"
  have wf': "pool_wf (p\<lparr>tp_lock := True\<rparr>)" using wf by simp
  have err: "err = (if mutex_unlock_rc e \<noteq> 0 then threadpool_lock_failure else fst ?r)"
    and p': "p' = (if mutex_unlock_rc e \<noteq> 0 then snd ?r else snd ?r\<lparr>tp_lock := False\<rparr>)"
    using add False by (auto simp: threadpool_add_unfold Let_def split: if_splits)
  have stores: "add_stores e p f \<longleftrightarrow> tp_count p \<noteq> tp_queue_size p \<and> tp_shutdown p = None"
    and "tp_count p < tp_queue_size p \<longleftrightarrow> tp_count p \<noteq> tp_queue_size p"
    unfolding add_stores_def pool_wf_room(2) [OF wf, symmetric] using False pool_wf_full [OF wf] by auto
  then have list: "tp_list p' = tp_list p @ (if add_stores e p f then [\<lparr>func = f, argument = a\<rparr>] else [])"
    using add_locked_list [OF wf', of e f a] by (simp add: p')
  have notify: "tp_notify p' =
      (if add_stores e p f \<and> cond_rc e = 0 then tp_notify p - woken e else tp_notify p)"
    by (simp add: stores p' threadpool_add_locked_cases queue_store_def Let_def)
  have "pool_wf p'" using add_locked_wf [OF wf'] by (simp add: p')
  moreover have "tp_lock p' \<longleftrightarrow> mutex_unlock_rc e \<noteq> 0" "tp_shutdown p' = tp_shutdown p"
    "tp_started p' = tp_started p" "tp_queue_size p' = tp_queue_size p"
    "tp_thread_count p' = tp_thread_count p" by (simp_all add: p')
  moreover have "err = (if mutex_unlock_rc e \<noteq> 0 then threadpool_lock_failure
      else if length (tp_list p) = nat (tp_queue_size p) then threadpool_queue_full
      else if tp_shutdown p \<noteq> None then threadpool_shutdown
      else if cond_rc e \<noteq> 0 then threadpool_lock_failure else 0)"
    unfolding pool_wf_room(1) [OF wf, symmetric] by (simp add: err add_locked_err)
  moreover have "threadpool_add e None f a = (threadpool_invalid, None)" by (simp add: threadpool_add_def)
  ultimately show ?thesis using False list notify by simp
qed

theorem threadpool_add_spec_witness:
  "tp_list (the (snd (threadpool_add (pthread_ok {}) (Some (empty_pool 4)) 7 9))) = [\<lparr>func = 7, argument = 9\<rparr>]"
proof -
  have r: "threadpool_add (pthread_ok {}) (Some (empty_pool 4)) 7 9 =
      (0, Some ((queue_store 0 \<lparr>func = 7, argument = 9\<rparr> (empty_pool 4))\<lparr>tp_tail := 1, tp_count := 1\<rparr>))"
    by (simp add: threadpool_add_def threadpool_add_locked_def queue_store_def empty_pool_def)
  have wf: "pool_wf (empty_pool 4)" by (rule empty_pool_wf) simp_all
  have "tp_list (empty_pool 4) = []" by (simp add: empty_pool_def tp_list_def)
  moreover have "add_stores (pthread_ok {}) (empty_pool 4) 7"
    by (simp add: empty_pool_def add_stores_def tp_list_def)
  ultimately show ?thesis using threadpool_add_spec [OF wf r] by (simp add: r)
qed

text \<open>
  C5. The circular buffer is a FIFO queue. Over any sequence of adds and takes on a
  well-formed pool, what was in the buffer followed by what was accepted equals what was
  taken followed by what is left, and the buffer never holds more than \<^verbatim>\<open>queue_size\<close> tasks.
\<close>

theorem pool_queue_fifo:
  assumes "pool_wf p" and "fifo_run pool_push pool_pop ops p = (accepted, taken, p')"
  shows "tp_list p @ accepted = taken @ tp_list p' \<and> pool_wf p' \<and>
     length (tp_list p') \<le> nat (tp_queue_size p)"
  using pool.run_conserves [OF assms] pool.run_bounded [OF assms] by simp

theorem pool_queue_fifo_witness:
  "\<exists>accepted taken p'. fifo_run pool_push pool_pop
       [Push \<lparr>func = 1, argument = 2\<rparr>, Push \<lparr>func = 3, argument = 4\<rparr>, Pop] (empty_pool 1) = (accepted, taken, p') \<and>
     accepted = taken @ tp_list p'"
proof -
  have wf: "pool_wf (empty_pool 1)" by (rule empty_pool_wf) simp_all
  obtain accepted taken p' where r: "fifo_run pool_push pool_pop
       [Push \<lparr>func = 1, argument = 2\<rparr>, Push \<lparr>func = 3, argument = 4\<rparr>, Pop] (empty_pool 1) = (accepted, taken, p')"
    by (metis prod_cases3)
  have "tp_list (empty_pool 1) = []" by (simp add: tp_list_def empty_pool_def)
  with r pool_queue_fifo [OF wf r] show ?thesis by auto
qed

text \<open>
  An error of \<^verbatim>\<open>threadpool_add\<close> does not mean that the task was refused. If
  \<^verbatim>\<open>pthread_cond_signal\<close> or \<^verbatim>\<open>pthread_mutex_unlock\<close> fails after the task was stored, the
  function returns \<^verbatim>\<open>threadpool_lock_failure\<close> and the task stays in the queue.
\<close>

theorem add_failure_after_store:
  assumes "pool_wf p" and "f \<noteq> NULL" and "tp_count p < tp_queue_size p" and "tp_shutdown p = None"
    and "mutex_lock_rc e = 0" and "cond_rc e \<noteq> 0 \<or> mutex_unlock_rc e \<noteq> 0"
  shows "\<exists>p'. threadpool_add e (Some p) f a = (threadpool_lock_failure, Some p') \<and>
     tp_list p' = tp_list p @ [\<lparr>func = f, argument = a\<rparr>]"
proof -
  let ?r = "threadpool_add_locked e (p\<lparr>tp_lock := True\<rparr>) f a"
  have "tp_list (snd ?r) = tp_list p @ [\<lparr>func = f, argument = a\<rparr>]"
    using add_locked_list [of "p\<lparr>tp_lock := True\<rparr>" e f a] assms(1,3,4) by simp
  moreover have "fst ?r = (if cond_rc e \<noteq> 0 then threadpool_lock_failure else 0)"
    using assms(3,4) by (simp add: add_locked_err)
  ultimately show ?thesis
    using assms(2,5,6) by (auto simp: threadpool_add_def case_prod_beta)
qed

theorem add_failure_after_store_witness:
  "\<exists>p'. threadpool_add \<lparr>mutex_lock_rc = 0, cond_rc = 22, mutex_unlock_rc = 0, woken = {}\<rparr>
       (Some (empty_pool 4)) 7 9 = (threadpool_lock_failure, Some p') \<and>
     tp_list p' = tp_list (empty_pool 4) @ [\<lparr>func = 7, argument = 9\<rparr>]"
  by (rule add_failure_after_store [OF empty_pool_wf]) (simp_all add: empty_pool_def)

text \<open>
  What the error path of \<^verbatim>\<open>threadpool_create\<close> frees. When an allocation or an
  initialisation fails, the task queue is freed only if the thread array was allocated: an
  allocated queue is lost when the array was not. And when \<^verbatim>\<open>pthread_mutex_init\<close> failed
  with both arrays allocated, the mutex that was never initialised is locked and destroyed.
\<close>

theorem create_error_frees:
  assumes "0 < thread_count" "thread_count \<le> MAX_THREADS" "0 < queue_size" "queue_size \<le> MAX_QUEUE"
    and "malloc_pool ce"
    and "mutex_init_rc ce \<noteq> 0 \<or> cond_init_rc ce \<noteq> 0 \<or> \<not> malloc_threads ce \<or> \<not> malloc_queue ce"
    and "threadpool_create ce de joins meanwhile thread_count queue_size = (pool, calls)"
  shows "pool = None \<and> Free_Pool \<in> set calls \<and>
     (Free_Queue \<in> set calls \<longleftrightarrow> malloc_threads ce) \<and> (Mutex_Lock \<in> set calls \<longleftrightarrow> malloc_threads ce)"
  using assms by (auto simp: threadpool_create_def threadpool_free_def pool_allocated_def Let_def
      split: if_splits)

theorem create_error_frees_witness:
  "Free_Queue \<notin> set (snd (threadpool_create
      \<lparr>malloc_pool = True, malloc_threads = False, malloc_queue = True, mutex_init_rc = 0,
       cond_init_rc = 0, thread_create_rc = (\<lambda>_. 0), queue_garbage = []\<rparr> (pthread_ok {}) (\<lambda>_. 0) id 2 8))"
  (is "_ \<notin> set (snd (threadpool_create ?ce ?de ?j ?m _ _))")
proof -
  obtain pool calls where "threadpool_create ?ce ?de ?j ?m 2 8 = (pool, calls)" by (metis surj_pair)
  with create_error_frees [OF _ _ _ _ _ _ this] show ?thesis by simp
qed

end
