(* ===== verification/Pool_System.thy ===== *)
theory Pool_System
  imports Threadpool
begin

text \<open>
  The thread pool as a concurrent system: the workers of one pool, the threads that add
  tasks and the thread that destroys the pool, interleaved at the granularity of the
  critical sections of \<^verbatim>\<open>threadpool.c\<close>. The operations are those of \<open>Threadpool\<close>.

  The system adds to the pool where each worker stands and, for the statements only, the
  tasks accepted, taken and finished so far. Assumed of pthreads is its documented
  behaviour: one holder of a mutex at a time, \<^verbatim>\<open>pthread_cond_signal\<close> wakes at least one
  waiter if there is one, wakeups may be spurious, and the calls succeed. Assumed of the
  clients is what \<^verbatim>\<open>AIOContext_close_pool\<close> guarantees by swapping the pool pointer out
  first: the pool is destroyed once, and not used after that thread has freed it.
\<close>

section \<open>The system and its steps\<close>

datatype worker_pc = At_Lock | Waiting | Running threadpool_task_t | Exited

record pool_sys =
  ps_pool :: threadpool_t
  ps_pc :: "nat \<Rightarrow> worker_pc"
  ps_workers :: nat
  ps_accepted :: "threadpool_task_t list"
  ps_taken :: "threadpool_task_t list"
  ps_finished :: "threadpool_task_t list"
  ps_joining :: bool
  ps_freed :: bool

definition pool_start :: "nat \<Rightarrow> threadpool_t \<Rightarrow> pool_sys" where
  "pool_start n p = \<lparr>ps_pool = p, ps_pc = (\<lambda>_. At_Lock), ps_workers = n, ps_accepted = [],
     ps_taken = [], ps_finished = [], ps_joining = False, ps_freed = False\<rparr>"

text \<open>A worker that got the mutex runs to the point where it gives it up.\<close>

definition worker_section :: "nat \<Rightarrow> pool_sys \<Rightarrow> pool_sys" where
  "worker_section t s =
     (case threadpool_thread t (ps_pool s\<lparr>tp_lock := True\<rparr>) of
        (Cond_Wait, p) \<Rightarrow> s\<lparr>ps_pool := p, ps_pc := (ps_pc s)(t := Waiting)\<rparr>
      | (Run_Task k, p) \<Rightarrow> s\<lparr>ps_pool := p, ps_pc := (ps_pc s)(t := Running k), ps_taken := ps_taken s @ [k]\<rparr>
      | (Thread_Exit, p) \<Rightarrow> s\<lparr>ps_pool := p, ps_pc := (ps_pc s)(t := Exited)\<rparr>)"

text \<open>Threads no longer blocked on the condition variable contend for the mutex again.\<close>

definition wake :: "threadpool_t \<Rightarrow> (nat \<Rightarrow> worker_pc) \<Rightarrow> nat \<Rightarrow> worker_pc" where
  "wake p pc = (\<lambda>t. if pc t = Waiting \<and> t \<notin> tp_notify p then At_Lock else pc t)"

inductive pool_step :: "pool_sys \<Rightarrow> pool_sys \<Rightarrow> bool" where
  worker: "t < ps_workers s \<Longrightarrow> ps_pc s t = At_Lock \<Longrightarrow> \<not> tp_lock (ps_pool s) \<Longrightarrow>
     pool_step s (worker_section t s)"
| spurious: "t < ps_workers s \<Longrightarrow> ps_pc s t = Waiting \<Longrightarrow>
     pool_step s (s\<lparr>ps_pool := ps_pool s\<lparr>tp_notify := tp_notify (ps_pool s) - {t}\<rparr>,
       ps_pc := (ps_pc s)(t := At_Lock)\<rparr>)"
| finish: "t < ps_workers s \<Longrightarrow> ps_pc s t = Running k \<Longrightarrow>
     pool_step s (s\<lparr>ps_pc := (ps_pc s)(t := At_Lock), ps_finished := ps_finished s @ [k]\<rparr>)"
| add: "\<not> tp_lock (ps_pool s) \<Longrightarrow> \<not> ps_freed s \<Longrightarrow> f \<noteq> NULL \<Longrightarrow> w \<subseteq> tp_notify (ps_pool s) \<Longrightarrow>
     (tp_notify (ps_pool s) \<noteq> {} \<Longrightarrow> w \<noteq> {}) \<Longrightarrow>
     threadpool_add (pthread_ok w) (Some (ps_pool s)) f a = (err, Some p') \<Longrightarrow>
     pool_step s (s\<lparr>ps_pool := p', ps_pc := wake p' (ps_pc s),
       ps_accepted := ps_accepted s @ (if err = 0 then [\<lparr>func = f, argument = a\<rparr>] else [])\<rparr>)"
| destroy: "\<not> tp_lock (ps_pool s) \<Longrightarrow> \<not> ps_joining s \<Longrightarrow>
     threadpool_destroy_begin (pthread_ok {}) graceful (ps_pool s) = (0, True, p') \<Longrightarrow>
     pool_step s (s\<lparr>ps_pool := p', ps_pc := wake p' (ps_pc s), ps_joining := True\<rparr>)"
| free: "ps_joining s \<Longrightarrow> \<not> ps_freed s \<Longrightarrow> (\<And>t. t < ps_workers s \<Longrightarrow> ps_pc s t = Exited) \<Longrightarrow>
     threadpool_free (Some (ps_pool s)) = (0, calls) \<Longrightarrow> pool_step s (s\<lparr>ps_freed := True\<rparr>)"

inductive pool_reach :: "int \<Rightarrow> int \<Rightarrow> pool_sys \<Rightarrow> bool" for threads queue_size where
  created: "threadpool_create ce de joins meanwhile threads queue_size = (Some p, calls) \<Longrightarrow>
     pool_reach threads queue_size (pool_start (nat threads) p)"
| stepped: "pool_reach threads queue_size s \<Longrightarrow> pool_step s s' \<Longrightarrow> pool_reach threads queue_size s'"

section \<open>The pool a successful creation returns\<close>

lemma create_loop_all:
  "create_loop ce n i p = (True, p') \<Longrightarrow>
     p' = p\<lparr>tp_threads := map_option (\<lambda>ts. ts @ [i..<i + n]) (tp_threads p),
            tp_thread_count := tp_thread_count p + int n, tp_started := tp_started p + int n\<rparr>"
proof (induction n arbitrary: i p)
  case 0
  then show ?case by (simp add: option.map_ident)
next
  case (Suc n)
  then have "create_loop ce n (Suc i)
      (p\<lparr>tp_threads := map_option (\<lambda>ts. ts @ [i]) (tp_threads p),
         tp_thread_count := tp_thread_count p + 1, tp_started := tp_started p + 1\<rparr>) = (True, p')"
    by (simp split: if_splits)
  from Suc.IH [OF this] show ?case
    by (simp add: option.map_comp comp_def upt_conv_Cons del: upt_Suc)
qed

lemma create_success:
  assumes "threadpool_create ce de joins meanwhile threads queue_size = (Some p, calls)"
  shows "0 < threads" "threads \<le> MAX_THREADS" "pool_wf p" "tp_list p = []" "tp_count p = 0"
    "tp_queue_size p = queue_size" "tp_notify p = {}" "\<not> tp_lock p" "tp_shutdown p = None"
    "tp_started p = threads" "tp_thread_count p = threads" "tp_threads p = Some [0..<nat threads]"
proof -
  from assms have arg: "0 < threads" "threads \<le> MAX_THREADS" "0 < queue_size" "queue_size \<le> MAX_QUEUE"
    and loop: "create_loop ce (nat threads) 0 (pool_allocated ce queue_size) = (True, p)"
    and mem: "malloc_threads ce" "malloc_queue ce"
    by (auto simp: threadpool_create_def Let_def pool_allocated_def split: if_splits prod.splits bool.splits)
  from create_loop_all [OF loop] arg mem
  show "0 < threads" "threads \<le> MAX_THREADS" "pool_wf p" "tp_list p = []" "tp_count p = 0"
    "tp_queue_size p = queue_size" "tp_notify p = {}" "\<not> tp_lock p" "tp_shutdown p = None"
    "tp_started p = threads" "tp_thread_count p = threads" "tp_threads p = Some [0..<nat threads]"
    by (simp_all add: pool_allocated_def pool_wf_def tp_list_def)
qed

section \<open>The invariant\<close>

fun alive :: "worker_pc \<Rightarrow> int" where
  "alive Exited = 0"
| "alive _ = 1"

fun busy :: "worker_pc \<Rightarrow> threadpool_task_t multiset" where
  "busy (Running k) = {#k#}"
| "busy _ = {#}"

text \<open>What the fields of the pool say about the workers: who waits, who is still there.\<close>

definition threads_inv :: "pool_sys \<Rightarrow> bool" where
  "threads_inv s \<longleftrightarrow>
     0 < ps_workers s \<and> \<not> tp_lock (ps_pool s) \<and>
     tp_notify (ps_pool s) = {t. t < ps_workers s \<and> ps_pc s t = Waiting} \<and>
     tp_started (ps_pool s) = (\<Sum>t<ps_workers s. alive (ps_pc s t))"

text \<open>What happens to the tasks: each accepted task is queued, running or finished, once.\<close>

definition tasks_inv :: "pool_sys \<Rightarrow> bool" where
  "tasks_inv s \<longleftrightarrow>
     pool_wf (ps_pool s) \<and> ps_accepted s = ps_taken s @ tp_list (ps_pool s) \<and>
     mset (ps_taken s) = mset (ps_finished s) + (\<Sum>t<ps_workers s. busy (ps_pc s t))"

text \<open>The life of the pool: running, shutting down, freed.\<close>

definition phase_inv :: "pool_sys \<Rightarrow> bool" where
  "phase_inv s \<longleftrightarrow>
     (tp_shutdown (ps_pool s) = None \<longrightarrow> \<not> ps_joining s \<and> (\<forall>t<ps_workers s. ps_pc s t \<noteq> Exited) \<and>
        (tp_count (ps_pool s) \<noteq> 0 \<longrightarrow> (\<exists>t<ps_workers s. ps_pc s t \<noteq> Waiting))) \<and>
     (tp_shutdown (ps_pool s) \<noteq> None \<longrightarrow> ps_joining s \<and> (\<forall>t<ps_workers s. ps_pc s t \<noteq> Waiting)) \<and>
     (tp_shutdown (ps_pool s) = Some graceful_shutdown \<and> (\<exists>t<ps_workers s. ps_pc s t = Exited) \<longrightarrow>
        tp_count (ps_pool s) = 0) \<and>
     (ps_freed s \<longrightarrow> ps_joining s \<and> (\<forall>t<ps_workers s. ps_pc s t = Exited))"

definition pool_inv :: "pool_sys \<Rightarrow> bool" where
  "pool_inv s \<longleftrightarrow> threads_inv s \<and> tasks_inv s \<and> phase_inv s"

lemma pool_inv_start:
  assumes "threadpool_create ce de joins meanwhile threads queue_size = (Some p, calls)"
  shows "pool_inv (pool_start (nat threads) p)"
  using create_success [OF assms]
  by (auto simp: pool_inv_def threads_inv_def tasks_inv_def phase_inv_def pool_start_def)

subsection \<open>A worker's critical section\<close>

lemma waiting_upd:
  "t < n \<Longrightarrow> {i. i < n \<and> (if i = t then x else pc i) = Waiting} =
     (if x = Waiting then insert t {i. i < n \<and> pc i = Waiting} else {i. i < n \<and> pc i = Waiting} - {t})"
  by (auto split: if_splits)

lemma alive_upd:
  "threads_inv s \<Longrightarrow> t < ps_workers s \<Longrightarrow>
     (\<Sum>i<ps_workers s. alive (if i = t then x else ps_pc s i)) =
     tp_started (ps_pool s) + alive x - alive (ps_pc s t)"
  by (simp add: threads_inv_def sum_int_upd)

lemma busy_upd:
  "t < ps_workers s \<Longrightarrow>
     (\<Sum>i<ps_workers s. busy (if i = t then x else ps_pc s i)) + busy (ps_pc s t) =
     (\<Sum>i<ps_workers s. busy (ps_pc s i)) + busy x"
  by (rule sum_upd)

lemma worker_section_threads:
  assumes inv: "threads_inv s" and wf: "tasks_inv s" and t: "t < ps_workers s" "ps_pc s t = At_Lock"
  shows "threads_inv (worker_section t s)"
proof -
  have not_waiting: "t \<notin> {i. i < ps_workers s \<and> ps_pc s i = Waiting}" using t by simp
  note upd = alive_upd [OF inv t(1)] waiting_upd [OF t(1)]
  note f = inv [unfolded threads_inv_def]
  have wf: "pool_wf (ps_pool s\<lparr>tp_lock := True\<rparr>)" using wf by (simp add: tasks_inv_def)
  show ?thesis
    by (rule worker_act_cases [OF wf, of t])
      (use f not_waiting t(2) in \<open>simp_all add: threads_inv_def worker_section_def upd\<close>)
qed

lemma worker_section_tasks:
  assumes inv: "tasks_inv s" and t: "t < ps_workers s" "ps_pc s t = At_Lock"
  shows "tasks_inv (worker_section t s)"
proof -
  have wf: "pool_wf (ps_pool s\<lparr>tp_lock := True\<rparr>)" using inv by (simp add: tasks_inv_def)
  note upd = busy_upd [OF t(1), unfolded t(2) busy.simps add_0_right]
  show ?thesis
    by (rule worker_act_cases [OF wf, of t])
      (use inv in \<open>simp_all add: tasks_inv_def worker_section_def upd\<close>)
qed

lemma worker_section_phase:
  assumes inv: "phase_inv s" and wf: "tasks_inv s" and t: "t < ps_workers s" "ps_pc s t = At_Lock"
  shows "phase_inv (worker_section t s)"
proof -
  have wf: "pool_wf (ps_pool s\<lparr>tp_lock := True\<rparr>)" using wf by (simp add: tasks_inv_def)
  show ?thesis
  proof (rule worker_act_cases [OF wf, of t])
    fix k p'
    assume "threadpool_thread t (ps_pool s\<lparr>tp_lock := True\<rparr>) = (Run_Task k, p')"
      and "tp_shutdown p' = tp_shutdown (ps_pool s\<lparr>tp_lock := True\<rparr>)"
      and "tp_count p' = tp_count (ps_pool s\<lparr>tp_lock := True\<rparr>) - 1"
      and "tp_count (ps_pool s\<lparr>tp_lock := True\<rparr>) \<noteq> 0"
      and "tp_shutdown (ps_pool s\<lparr>tp_lock := True\<rparr>) \<noteq> Some immediate_shutdown"
    then show "phase_inv (worker_section t s)"
      using inv t by (auto simp: phase_inv_def worker_section_def)
  qed (use inv t in \<open>auto simp: phase_inv_def worker_section_def\<close>)
qed

subsection \<open>The other steps\<close>

lemma wake_simps [simp]:
  "alive (wake p pc t) = alive (pc t)"
  "busy (wake p pc t) = busy (pc t)"
  "wake p pc t = Waiting \<longleftrightarrow> pc t = Waiting \<and> t \<in> tp_notify p"
  "wake p pc t = Exited \<longleftrightarrow> pc t = Exited"
  by (auto simp: wake_def)

lemma add_inv:
  assumes inv: "pool_inv s" and nf: "\<not> ps_freed s" and f: "f \<noteq> NULL" and w: "w \<subseteq> tp_notify (ps_pool s)"
    and some: "tp_notify (ps_pool s) \<noteq> {} \<Longrightarrow> w \<noteq> {}"
    and add: "threadpool_add (pthread_ok w) (Some (ps_pool s)) f a = (err, Some p')"
  shows "pool_inv (s\<lparr>ps_pool := p', ps_pc := wake p' (ps_pc s),
       ps_accepted := ps_accepted s @ (if err = 0 then [\<lparr>func = f, argument = a\<rparr>] else [])\<rparr>)"
    (is "pool_inv ?s")
proof -
  have wf: "pool_wf (ps_pool s)" using inv by (simp add: pool_inv_def tasks_inv_def)
  note r = threadpool_add_ok [OF wf f add]
  have waiters: "tp_notify (ps_pool s) = {t. t < ps_workers s \<and> ps_pc s t = Waiting}"
    using inv by (simp add: pool_inv_def threads_inv_def)
  have "threads_inv ?s"
    using inv r waiters w by (auto simp: pool_inv_def threads_inv_def)
  moreover have "tasks_inv ?s"
    using inv r by (simp add: pool_inv_def tasks_inv_def)
  moreover have "phase_inv ?s"
  proof -
    have "\<exists>t<ps_workers s. wake p' (ps_pc s) t \<noteq> Waiting"
      if "tp_shutdown (ps_pool s) = None" "tp_count p' \<noteq> 0"
    proof (cases "err = 0")
      case True
      show ?thesis
      proof (cases "w = {}")
        case True
        then have "ps_pc s 0 \<noteq> Waiting" "0 < ps_workers s"
          using some waiters inv by (auto simp: pool_inv_def threads_inv_def)
        then show ?thesis by auto
      next
        case False
        then obtain t where t: "t \<in> w" by blast
        then have "t < ps_workers s" and "t \<notin> tp_notify p'"
          using w waiters r(5) \<open>err = 0\<close> by auto
        then show ?thesis by (intro exI [of _ t]) simp
      qed
    next
      case False
      then show ?thesis
        using inv that r(10) by (auto simp: pool_inv_def phase_inv_def)
    qed
    moreover have "tp_count p' = tp_count (ps_pool s)" if "tp_shutdown (ps_pool s) \<noteq> None"
      using r(3,10) that by (auto split: if_splits)
    ultimately show ?thesis using inv r nf by (auto simp: pool_inv_def phase_inv_def)
  qed
  ultimately show ?thesis by (simp add: pool_inv_def)
qed

lemma destroy_begin_ok:
  "threadpool_destroy_begin (pthread_ok {}) graceful p = (0, True, p') \<longleftrightarrow>
     tp_shutdown p = None \<and>
     p' = p\<lparr>tp_shutdown := Some (if graceful then graceful_shutdown else immediate_shutdown),
            tp_notify := {}, tp_lock := False\<rparr>"
  by (auto simp: threadpool_destroy_begin_def Let_def)

lemma destroy_inv:
  assumes inv: "pool_inv s" and nj: "\<not> ps_joining s"
    and des: "threadpool_destroy_begin (pthread_ok {}) graceful (ps_pool s) = (0, True, p')"
  shows "pool_inv (s\<lparr>ps_pool := p', ps_pc := wake p' (ps_pc s), ps_joining := True\<rparr>)"
  using inv nj des [unfolded destroy_begin_ok]
  by (simp add: pool_inv_def threads_inv_def tasks_inv_def phase_inv_def) blast

lemma spurious_inv:
  assumes inv: "pool_inv s" and t: "t < ps_workers s" "ps_pc s t = Waiting"
  shows "pool_inv (s\<lparr>ps_pool := ps_pool s\<lparr>tp_notify := tp_notify (ps_pool s) - {t}\<rparr>,
       ps_pc := (ps_pc s)(t := At_Lock)\<rparr>)"
proof -
  have th: "threads_inv s" and ta: "tasks_inv s" and ph: "phase_inv s"
    using inv by (simp_all add: pool_inv_def)
  note f = th [unfolded threads_inv_def]
  note upd = busy_upd [OF t(1), unfolded t(2) busy.simps add_0_right]
  show ?thesis
    unfolding pool_inv_def
  proof (intro conjI)
    show "threads_inv (s\<lparr>ps_pool := ps_pool s\<lparr>tp_notify := tp_notify (ps_pool s) - {t}\<rparr>,
       ps_pc := (ps_pc s)(t := At_Lock)\<rparr>)"
      using f t by (simp add: threads_inv_def alive_upd [OF th t(1)] waiting_upd [OF t(1)])
    show "tasks_inv (s\<lparr>ps_pool := ps_pool s\<lparr>tp_notify := tp_notify (ps_pool s) - {t}\<rparr>,
       ps_pc := (ps_pc s)(t := At_Lock)\<rparr>)"
      using ta by (simp add: tasks_inv_def upd)
    show "phase_inv (s\<lparr>ps_pool := ps_pool s\<lparr>tp_notify := tp_notify (ps_pool s) - {t}\<rparr>,
       ps_pc := (ps_pc s)(t := At_Lock)\<rparr>)"
      using ph t by (auto simp: phase_inv_def)
  qed
qed

lemma finish_inv:
  assumes inv: "pool_inv s" and t: "t < ps_workers s" "ps_pc s t = Running k"
  shows "pool_inv (s\<lparr>ps_pc := (ps_pc s)(t := At_Lock), ps_finished := ps_finished s @ [k]\<rparr>)"
proof -
  have th: "threads_inv s" and ta: "tasks_inv s" and ph: "phase_inv s"
    using inv by (simp_all add: pool_inv_def)
  note f = th [unfolded threads_inv_def]
  have upd: "(\<Sum>i<ps_workers s. busy (if i = t then At_Lock else ps_pc s i)) + {#k#} =
      (\<Sum>i<ps_workers s. busy (ps_pc s i))"
    using busy_upd [OF t(1), of At_Lock] t(2) by simp
  show ?thesis
    unfolding pool_inv_def
  proof (intro conjI)
    show "threads_inv (s\<lparr>ps_pc := (ps_pc s)(t := At_Lock), ps_finished := ps_finished s @ [k]\<rparr>)"
      using f t by (simp add: threads_inv_def alive_upd [OF th t(1)] waiting_upd [OF t(1)])
    show "tasks_inv (s\<lparr>ps_pc := (ps_pc s)(t := At_Lock), ps_finished := ps_finished s @ [k]\<rparr>)"
      using ta upd by (simp add: tasks_inv_def)
    show "phase_inv (s\<lparr>ps_pc := (ps_pc s)(t := At_Lock), ps_finished := ps_finished s @ [k]\<rparr>)"
      using ph t by (auto simp: phase_inv_def)
  qed
qed

lemma pool_step_inv: "pool_step s s' \<Longrightarrow> pool_inv s \<Longrightarrow> pool_inv s'"
proof (induction rule: pool_step.induct)
  case (worker t s)
  then show ?case
    by (simp add: pool_inv_def worker_section_threads worker_section_tasks worker_section_phase)
next
  case (spurious t s)
  then show ?case by (intro spurious_inv)
next
  case (finish t s k)
  then show ?case by (intro finish_inv)
next
  case (add s f w a err p')
  then show ?case by (intro add_inv)
next
  case (destroy s graceful p')
  then show ?case by (intro destroy_inv)
next
  case (free s calls)
  then show ?case by (simp add: pool_inv_def threads_inv_def tasks_inv_def phase_inv_def)
qed

lemma pool_reach_inv: "pool_reach threads queue_size s \<Longrightarrow> pool_inv s"
  by (induction rule: pool_reach.induct) (auto intro: pool_inv_start pool_step_inv)

section \<open>Shutting down\<close>

text \<open>
  Once the pool is shutting down, each step of a worker brings the end nearer: \<open>pool_work\<close>
  counts the critical sections and tasks still to run.
\<close>

fun worker_work :: "worker_pc \<Rightarrow> nat" where
  "worker_work At_Lock = 1"
| "worker_work Waiting = 1"
| "worker_work (Running k) = 2"
| "worker_work Exited = 0"

definition pool_work :: "pool_sys \<Rightarrow> nat" where
  "pool_work s = 2 * length (tp_list (ps_pool s)) + (\<Sum>t<ps_workers s. worker_work (ps_pc s t))"

lemma work_upd:
  "t < ps_workers s \<Longrightarrow>
     (\<Sum>i<ps_workers s. worker_work (if i = t then x else ps_pc s i)) + worker_work (ps_pc s t) =
     (\<Sum>i<ps_workers s. worker_work (ps_pc s i)) + worker_work x"
  by (rule sum_upd)

lemma finish_work:
  assumes "t < ps_workers s" "ps_pc s t = Running k"
  shows "pool_work (s\<lparr>ps_pc := (ps_pc s)(t := At_Lock), ps_finished := fin\<rparr>) < pool_work s"
  using work_upd [OF assms(1), of At_Lock] assms(2) by (simp add: pool_work_def)

lemma worker_section_work:
  assumes inv: "tasks_inv s" and sd: "tp_shutdown (ps_pool s) \<noteq> None"
    and t: "t < ps_workers s" "ps_pc s t = At_Lock"
  shows "pool_work (worker_section t s) < pool_work s"
proof -
  have wf: "pool_wf (ps_pool s\<lparr>tp_lock := True\<rparr>)" using inv by (simp add: tasks_inv_def)
  note upd = work_upd [OF t(1)]
  show ?thesis
  proof (rule worker_act_cases [OF wf, of t])
    assume "threadpool_thread t (ps_pool s\<lparr>tp_lock := True\<rparr>) =
      (Thread_Exit, ps_pool s\<lparr>tp_lock := True, tp_started := tp_started (ps_pool s\<lparr>tp_lock := True\<rparr>) - 1, tp_lock := False\<rparr>)"
    then show "pool_work (worker_section t s) < pool_work s"
      using upd [of Exited] t(2) by (simp add: pool_work_def worker_section_def del: length_tp_list)
  next
    fix k p'
    assume "threadpool_thread t (ps_pool s\<lparr>tp_lock := True\<rparr>) = (Run_Task k, p')"
      and "tp_list (ps_pool s\<lparr>tp_lock := True\<rparr>) = k # tp_list p'"
    then show "pool_work (worker_section t s) < pool_work s"
      using upd [of "Running k"] t(2) by (simp add: pool_work_def worker_section_def del: length_tp_list)
  qed (use sd in simp_all)
qed

lemma worker_section_frame [simp]:
  "ps_workers (worker_section t s) = ps_workers s"
  "ps_joining (worker_section t s) = ps_joining s"
  "ps_freed (worker_section t s) = ps_freed s"
  "tp_shutdown (ps_pool (worker_section t s)) = tp_shutdown (ps_pool s)"
  by (simp_all add: worker_section_def threadpool_thread_def Let_def split: worker_act.splits prod.splits)

text \<open>Some worker that is not gone can always move.\<close>

lemma shutdown_progress:
  assumes inv: "pool_inv s" and sd: "tp_shutdown (ps_pool s) \<noteq> None"
    and left: "\<exists>t<ps_workers s. ps_pc s t \<noteq> Exited"
  shows "\<exists>s'. pool_step s s' \<and> pool_work s' < pool_work s \<and> tp_shutdown (ps_pool s') \<noteq> None"
proof -
  from left obtain t where t: "t < ps_workers s" "ps_pc s t \<noteq> Exited" by blast
  have "ps_pc s t \<noteq> Waiting" using inv sd t by (auto simp: pool_inv_def phase_inv_def)
  with t(2) consider "ps_pc s t = At_Lock" | k where "ps_pc s t = Running k"
    by (cases "ps_pc s t") auto
  then show ?thesis
  proof cases
    case 1
    have "\<not> tp_lock (ps_pool s)" and ta: "tasks_inv s"
      using inv by (simp_all add: pool_inv_def threads_inv_def)
    with pool_step.worker [OF t(1) 1] worker_section_work [OF ta sd t(1) 1] sd
    show ?thesis by (intro exI [of _ "worker_section t s"]) simp
  next
    case 2
    from pool_step.finish [OF t(1) 2] finish_work [OF t(1) 2] sd show ?thesis
      by (intro exI conjI) (assumption, assumption, simp)
  qed
qed

lemma shutdown_reaches_end:
  assumes "pool_inv s" "tp_shutdown (ps_pool s) \<noteq> None"
  shows "\<exists>s'. pool_step\<^sup>*\<^sup>* s s' \<and> (\<forall>t<ps_workers s'. ps_pc s' t = Exited)"
  using assms
proof (induction "pool_work s" arbitrary: s rule: less_induct)
  case less
  show ?case
  proof (cases "\<exists>t<ps_workers s. ps_pc s t \<noteq> Exited")
    case True
    with shutdown_progress [OF less.prems] obtain s' where
      s': "pool_step s s'" "pool_work s' < pool_work s" "tp_shutdown (ps_pool s') \<noteq> None" by blast
    then have "pool_inv s'" using less.prems(1) pool_step_inv by blast
    from less.hyps [OF s'(2) this s'(3)] s'(1) show ?thesis
      by (meson converse_rtranclp_into_rtranclp)
  next
    case False
    then show ?thesis by blast
  qed
qed

lemma pool_free_ok_iff:
  assumes "pool_inv s"
  shows "fst (threadpool_free (Some (ps_pool s))) = 0 \<longleftrightarrow> (\<forall>t<ps_workers s. ps_pc s t = Exited)"
proof -
  have nonneg: "0 \<le> alive x" and zero: "alive x = 0 \<longleftrightarrow> x = Exited" for x
    by (cases x; simp)+
  have sum: "tp_started (ps_pool s) = (\<Sum>t<ps_workers s. alive (ps_pc s t))"
    using assms by (simp add: pool_inv_def threads_inv_def)
  have "0 \<le> tp_started (ps_pool s)"
    unfolding sum by (rule sum_nonneg) (rule nonneg)
  moreover have "tp_started (ps_pool s) = 0 \<longleftrightarrow> (\<forall>t<ps_workers s. ps_pc s t = Exited)"
    unfolding sum by (subst sum_nonneg_eq_0_iff) (auto simp: nonneg zero)
  ultimately show ?thesis
    by (cases "tp_started (ps_pool s) = 0") (auto simp: threadpool_free_def)
qed

section \<open>A run from creation to the end\<close>

text \<open>
  One worker, a queue of two: a task is added, the pool is destroyed gracefully, the worker
  runs the task and leaves. The run shows that the hypotheses below hold together.
\<close>

definition ce_ok :: create_env where
  "ce_ok = \<lparr>malloc_pool = True, malloc_threads = True, malloc_queue = True, mutex_init_rc = 0,
     cond_init_rc = 0, thread_create_rc = (\<lambda>_. 0), queue_garbage = []\<rparr>"

definition demo_pool :: threadpool_t where
  "demo_pool = \<lparr>tp_lock = False, tp_notify = {}, tp_threads = Some [0],
     tp_queue = Some [\<lparr>func = NULL, argument = NULL\<rparr>, \<lparr>func = NULL, argument = NULL\<rparr>],
     tp_thread_count = 1, tp_queue_size = 2, tp_head = 0, tp_tail = 0, tp_count = 0,
     tp_shutdown = None, tp_started = 1\<rparr>"

lemma demo_create: "threadpool_create ce_ok (pthread_ok {}) (\<lambda>_. 0) id 1 2 = (Some demo_pool, [])"
  by (simp add: threadpool_create_def ce_ok_def pool_allocated_def demo_pool_def eval_nat_numeral)

lemma demo_reach0: "pool_reach 1 2 (pool_start 1 demo_pool)"
  using pool_reach.created [OF demo_create] by simp

definition demo_task :: threadpool_task_t where
  "demo_task = \<lparr>func = 7, argument = 9\<rparr>"

definition demo_added :: pool_sys where
  "demo_added = (pool_start 1 demo_pool)
     \<lparr>ps_pool := demo_pool\<lparr>tp_queue := Some [demo_task, \<lparr>func = NULL, argument = NULL\<rparr>],
        tp_tail := 1, tp_count := 1\<rparr>, ps_accepted := [demo_task]\<rparr>"

lemma demo_reach1: "pool_reach 1 2 demo_added"
proof -
  have "wake p (\<lambda>_. At_Lock) = (\<lambda>_. At_Lock)" for p by (simp add: wake_def fun_eq_iff)
  then show ?thesis
    using pool_reach.stepped [OF demo_reach0 pool_step.add
        [of "pool_start 1 demo_pool" 7 "{}" 9 0 "ps_pool demo_added"]]
    by (simp add: demo_added_def pool_start_def demo_pool_def demo_task_def threadpool_add_def
        threadpool_add_locked_def queue_store_def)
qed

definition demo_closing :: pool_sys where
  "demo_closing = demo_added\<lparr>ps_pool := ps_pool demo_added\<lparr>tp_shutdown := Some graceful_shutdown\<rparr>,
     ps_joining := True\<rparr>"

lemma demo_reach2: "pool_reach 1 2 demo_closing"
proof -
  have "wake p (\<lambda>_. At_Lock) = (\<lambda>_. At_Lock)" for p by (simp add: wake_def fun_eq_iff)
  then show ?thesis
    using pool_reach.stepped [OF demo_reach1 pool_step.destroy [of demo_added True "ps_pool demo_closing"]]
    by (simp add: demo_closing_def demo_added_def pool_start_def demo_pool_def destroy_begin_ok)
qed

definition demo_end :: pool_sys where
  "demo_end = demo_closing\<lparr>ps_pool := ps_pool demo_closing\<lparr>tp_head := 1, tp_count := 0, tp_started := 0\<rparr>,
     ps_pc := (\<lambda>_. At_Lock)(0 := Exited), ps_taken := [demo_task], ps_finished := [demo_task]\<rparr>"

lemma demo_reach3: "pool_reach 1 2 demo_end"
proof -
  note defs = demo_closing_def demo_added_def pool_start_def demo_pool_def worker_section_def
    threadpool_thread_def queue_load_def
  let ?a = "worker_section 0 demo_closing"
  have a: "pool_step demo_closing ?a"
    by (rule pool_step.worker) (simp_all add: defs)
  let ?b = "?a\<lparr>ps_pc := (ps_pc ?a)(0 := At_Lock), ps_finished := ps_finished ?a @ [demo_task]\<rparr>"
  have b: "pool_step ?a ?b"
    by (rule pool_step.finish) (simp_all add: defs)
  have c: "pool_step ?b (worker_section 0 ?b)"
    by (rule pool_step.worker) (simp_all add: defs)
  have "worker_section 0 ?b = demo_end"
    by (simp add: defs demo_end_def)
  with a b c demo_reach2 show ?thesis
    by (metis pool_reach.stepped)
qed

section \<open>Properties\<close>

text \<open>
  C1. Exactly once, in order. In every reachable state of a pool, under any interleaving of
  workers and clients, the tasks that \<^verbatim>\<open>threadpool_add\<close> accepted are the tasks the workers
  have taken followed by the tasks in the circular buffer, in the order of acceptance, and
  the tasks taken are, as a multiset, the finished ones and the ones now running.
\<close>

theorem pool_tasks_exactly_once:
  assumes "pool_reach threads queue_size s"
  shows "ps_accepted s = ps_taken s @ tp_list (ps_pool s) \<and>
     mset (ps_taken s) = mset (ps_finished s) + (\<Sum>t<ps_workers s. busy (ps_pc s t))"
  using pool_reach_inv [OF assms] by (simp add: pool_inv_def tasks_inv_def)

theorem pool_tasks_exactly_once_witness:
  "ps_accepted demo_end = ps_taken demo_end @ tp_list (ps_pool demo_end) \<and> ps_taken demo_end = [demo_task]"
  using pool_tasks_exactly_once [OF demo_reach3] by (simp add: demo_end_def)

text \<open>
  C2. Graceful shutdown loses nothing. When all workers have left a pool that was destroyed
  with \<^verbatim>\<open>threadpool_graceful\<close>, the queue is empty and the finished tasks are exactly the
  accepted ones.
\<close>

theorem graceful_shutdown_drains:
  assumes "pool_reach threads queue_size s"
    and "tp_shutdown (ps_pool s) = Some graceful_shutdown"
    and "\<forall>t<ps_workers s. ps_pc s t = Exited"
  shows "tp_list (ps_pool s) = [] \<and> mset (ps_finished s) = mset (ps_accepted s)"
proof -
  note inv = pool_reach_inv [OF assms(1)]
  have "0 < ps_workers s" using inv by (simp add: pool_inv_def threads_inv_def)
  then have "tp_count (ps_pool s) = 0"
    using inv assms(2,3) by (auto simp: pool_inv_def phase_inv_def)
  then have "tp_list (ps_pool s) = []" by (simp add: tp_list_def)
  moreover have "(\<Sum>t<ps_workers s. busy (ps_pc s t)) = {#}"
    using assms(3) by (auto intro: sum.neutral)
  ultimately show ?thesis
    using inv by (simp add: pool_inv_def tasks_inv_def)
qed

theorem graceful_shutdown_drains_witness:
  "tp_list (ps_pool demo_end) = [] \<and> mset (ps_finished demo_end) = mset (ps_accepted demo_end) \<and>
   ps_accepted demo_end = [demo_task]"
  using graceful_shutdown_drains [OF demo_reach3]
  by (simp add: demo_end_def demo_closing_def demo_added_def pool_start_def)

text \<open>
  C4. No lost wakeup. While the pool is running, whenever a task is in the queue some worker
  is not blocked on the condition variable: one \<^verbatim>\<open>pthread_cond_signal\<close> for each added task
  is enough, because a worker goes to sleep only after it found the queue empty with the
  mutex held.
\<close>

theorem no_lost_wakeup:
  assumes "pool_reach threads queue_size s"
    and "tp_shutdown (ps_pool s) = None" and "tp_list (ps_pool s) \<noteq> []"
  shows "\<exists>t<ps_workers s. t \<notin> tp_notify (ps_pool s)"
proof -
  note inv = pool_reach_inv [OF assms(1)]
  have "tp_count (ps_pool s) \<noteq> 0" using assms(3) by (auto simp: tp_list_def)
  then obtain t where "t < ps_workers s" "ps_pc s t \<noteq> Waiting"
    using inv assms(2) by (auto simp: pool_inv_def phase_inv_def)
  then show ?thesis
    using inv by (auto simp: pool_inv_def threads_inv_def)
qed

theorem no_lost_wakeup_witness: "\<exists>t<ps_workers demo_added. t \<notin> tp_notify (ps_pool demo_added)"
  by (rule no_lost_wakeup [OF demo_reach1])
    (simp_all add: demo_added_def pool_start_def demo_pool_def tp_list_def)

text \<open>
  C3. Shutdown terminates. From every reachable state in which the pool is shutting down,
  gracefully or not, the workers can run to a state in which all of them have left, so the
  joins of \<^verbatim>\<open>threadpool_destroy\<close> return; and each critical section of a worker and each end
  of a task on the way makes \<open>pool_work\<close> smaller, whatever the schedule.
\<close>

theorem shutdown_terminates:
  assumes "pool_reach threads queue_size s" and "tp_shutdown (ps_pool s) \<noteq> None"
  shows "(\<exists>s'. pool_step\<^sup>*\<^sup>* s s' \<and> (\<forall>t<ps_workers s'. ps_pc s' t = Exited)) \<and>
     (\<forall>t<ps_workers s. ps_pc s t = At_Lock \<longrightarrow> pool_work (worker_section t s) < pool_work s) \<and>
     (\<forall>t<ps_workers s. ps_pc s t \<noteq> Waiting)"
proof -
  note inv = pool_reach_inv [OF assms(1)]
  then have ta: "tasks_inv s" and ph: "phase_inv s" by (simp_all add: pool_inv_def)
  show ?thesis
    using shutdown_reaches_end [OF inv assms(2)] worker_section_work [OF ta assms(2)] ph assms(2)
    by (simp add: phase_inv_def)
qed

theorem shutdown_terminates_witness:
  "\<exists>s'. pool_step\<^sup>*\<^sup>* demo_closing s' \<and> (\<forall>t<ps_workers s'. ps_pc s' t = Exited)"
  using shutdown_terminates [OF demo_reach2] by (simp add: demo_closing_def)

text \<open>
  C7. No early free. The counter \<^verbatim>\<open>started\<close> is the number of workers that have not left,
  so \<^verbatim>\<open>threadpool_free\<close> succeeds exactly when no worker can touch the pool any more; it
  refuses in every other reachable state.
\<close>

theorem free_only_after_exit:
  assumes "pool_reach threads queue_size s"
  shows "tp_started (ps_pool s) = (\<Sum>t<ps_workers s. if ps_pc s t = Exited then 0 else 1) \<and>
     (fst (threadpool_free (Some (ps_pool s))) = 0 \<longleftrightarrow> (\<forall>t<ps_workers s. ps_pc s t = Exited))"
proof -
  have "alive x = (if x = Exited then 0 else 1)" for x by (cases x) simp_all
  then show ?thesis
    using pool_reach_inv [OF assms] pool_free_ok_iff [OF pool_reach_inv [OF assms]]
    by (simp add: pool_inv_def threads_inv_def)
qed

theorem free_only_after_exit_witness:
  "fst (threadpool_free (Some (ps_pool demo_end))) = 0 \<and>
   fst (threadpool_free (Some (ps_pool demo_added))) \<noteq> 0"
  using free_only_after_exit [OF demo_reach3] free_only_after_exit [OF demo_reach1]
  by (simp add: demo_end_def demo_closing_def demo_added_def pool_start_def)

text \<open>A mutex that is never released: no step gives it up, and no worker leaves.\<close>

lemma locked_step:
  "pool_step s s' \<Longrightarrow> tp_lock (ps_pool s) \<Longrightarrow>
     tp_lock (ps_pool s') \<and> ps_workers s' = ps_workers s \<and> (\<forall>t. ps_pc s' t = Exited \<longrightarrow> ps_pc s t = Exited)"
  by (induction rule: pool_step.induct) auto

lemma locked_steps:
  "pool_step\<^sup>*\<^sup>* s s' \<Longrightarrow> tp_lock (ps_pool s) \<Longrightarrow>
     tp_lock (ps_pool s') \<and> ps_workers s' = ps_workers s \<and> (\<forall>t. ps_pc s' t = Exited \<longrightarrow> ps_pc s t = Exited)"
  by (induction rule: rtranclp_induct) (auto dest: locked_step)

text \<open>
  C8. A second \<^verbatim>\<open>threadpool_destroy\<close> keeps the mutex. On a pool that is already shutting
  down the function returns \<^verbatim>\<open>threadpool_shutdown\<close> on a path without
  \<^verbatim>\<open>pthread_mutex_unlock\<close>. From then on no worker that has not left ever leaves: the
  joins of the first call never return.
\<close>

theorem second_destroy_blocks_workers:
  assumes "pool_reach threads queue_size s" and "tp_shutdown (ps_pool s) \<noteq> None"
    and "t < ps_workers s" and "ps_pc s t \<noteq> Exited"
    and "threadpool_destroy (pthread_ok {}) joins meanwhile (Some (ps_pool s)) graceful = (err, Some p', calls)"
    and "pool_step\<^sup>*\<^sup>* (s\<lparr>ps_pool := p'\<rparr>) s'"
  shows "err = threadpool_shutdown \<and> tp_lock p' \<and> ps_pc s' t \<noteq> Exited"
proof -
  have p': "p' = ps_pool s\<lparr>tp_lock := True\<rparr>" and err: "err = threadpool_shutdown"
    using assms(2,5) by (auto simp: threadpool_destroy_def threadpool_destroy_begin_def Let_def)
  then show ?thesis
    using locked_steps [OF assms(6)] assms(4) by auto
qed

theorem second_destroy_blocks_workers_witness:
  "ps_pc (demo_closing\<lparr>ps_pool := ps_pool demo_closing\<lparr>tp_lock := True\<rparr>\<rparr>) 0 \<noteq> Exited"
  by (rule second_destroy_blocks_workers [OF demo_reach2, of 0 "\<lambda>_. 0" id True threadpool_shutdown
        "ps_pool demo_closing\<lparr>tp_lock := True\<rparr>" "[]", THEN conjunct2, THEN conjunct2])
    (simp_all add: demo_closing_def demo_added_def pool_start_def demo_pool_def
      threadpool_destroy_def threadpool_destroy_begin_def)

end
