(* ===== verification/Py_Runtime.thy ===== *)
theory Py_Runtime
  imports Interfaces
begin

text \<open>
  What the three backend modules use of the Python runtime. The runtime is not part of the
  repository; only its documented behaviour is used:

  \<^item> a function raises (\<open>Raise\<close>, a null result with an exception set) or returns (\<open>Ret\<close>);
    \<open>Crash\<close> is the access to a null pointer, the one undefined behaviour the code can run
    into on the paths modelled here;
  \<^item> every object has a reference count (\<open>refs\<close>); the object whose count falls to zero is
    deallocated by the \<^verbatim>\<open>tp_dealloc\<close> of its type;
  \<^item> \<open>mem\<close> holds the blocks of memory that can be read and written through a pointer:
    the blocks of \<^verbatim>\<open>PyMem_Calloc\<close> and the storage inside bytes objects (\<open>bytes_at\<close>);
  \<^item> allocations, argument parsing and callbacks are answers given as arguments of the model.

  \<open>trace\<close> lists, in order, the calls out of the module that the statements speak about.
\<close>

section \<open>Exceptions and results\<close>

datatype pyexc_kind = PyExc_RuntimeError | PyExc_ValueError | PyExc_TypeError
  | PyExc_OverflowError | PyExc_SystemError | PyExc_NotImplementedError
  | PyExc_BlockingIOError | PyExc_MemoryError | PyExc_ImportError

text \<open>
  An exception as it is set: with a format and the integers formatted into it, with no
  message, from an error number, by \<^verbatim>\<open>PyErr_NoMemory\<close>, or (\<open>PyErr_Pending\<close>) by a runtime
  function that failed and whose exception is passed on.
\<close>

datatype pyexc = PyErr_Format pyexc_kind string "int list" | PyErr_SetNone pyexc_kind
  | PyErr_SetFromErrno pyexc_kind int | PyErr_NoMemory | PyErr_Pending

abbreviation PyErr_SetString :: "pyexc_kind \<Rightarrow> string \<Rightarrow> pyexc" where
  "PyErr_SetString k m \<equiv> PyErr_Format k m []"

datatype pyval = PyLong int | PyBytes "u8 list" | PyObj ptr | PyNone | PyTrue

datatype 'a outcome = Ret 'a | Raise pyexc | Crash

section \<open>The state shared by the modules\<close>

datatype event =
    Ev_Callback ptr pyval
  | Ev_Unraisable ptr
  | Ev_ClearWeakRefs ptr
  | Ev_Dealloc ptr
  | Ev_BadFree ptr
  | Ev_PoolDestroy int
  | Ev_IoDestroy u64
  | Ev_Close int
  | Ev_Munmap ptr u64

record pyrt =
  refs :: "ptr \<Rightarrow> int"
  mem :: "ptr \<Rightarrow> u8 list option"
  bytes_at :: "ptr \<Rightarrow> ptr"
  trace :: "event list"

definition emit :: "event \<Rightarrow> 'a pyrt_scheme \<Rightarrow> 'a pyrt_scheme" where
  "emit e w = w\<lparr>trace := trace w @ [e]\<rparr>"

definition Py_INCREF :: "ptr \<Rightarrow> 'a pyrt_scheme \<Rightarrow> 'a pyrt_scheme" where
  "Py_INCREF p w = w\<lparr>refs := (refs w)(p := refs w p + 1)\<rparr>"

text \<open>Dropping a reference, with the \<^verbatim>\<open>tp_dealloc\<close> of the object's type.\<close>

definition decref_with :: "(ptr \<Rightarrow> 'a pyrt_scheme \<Rightarrow> 'a pyrt_scheme) \<Rightarrow> ptr \<Rightarrow> 'a pyrt_scheme \<Rightarrow> 'a pyrt_scheme" where
  "decref_with tp_dealloc p w =
     (let w = w\<lparr>refs := (refs w)(p := refs w p - 1)\<rparr>
      in if refs w p = 0 then tp_dealloc p w else w)"

text \<open>Objects of the runtime itself: the storage of a bytes object goes with the object.\<close>

definition py_dealloc :: "ptr \<Rightarrow> 'a pyrt_scheme \<Rightarrow> 'a pyrt_scheme" where
  "py_dealloc p w =
     emit (Ev_Dealloc p) (if bytes_at w p = NULL then w else w\<lparr>mem := (mem w)(bytes_at w p := None)\<rparr>)"

definition Py_DECREF :: "ptr \<Rightarrow> 'a pyrt_scheme \<Rightarrow> 'a pyrt_scheme" where
  "Py_DECREF = decref_with py_dealloc"

definition Py_XDECREF :: "ptr \<Rightarrow> 'a pyrt_scheme \<Rightarrow> 'a pyrt_scheme" where
  "Py_XDECREF p w = (if p = NULL then w else Py_DECREF p w)"

definition Py_XINCREF :: "ptr \<Rightarrow> 'a pyrt_scheme \<Rightarrow> 'a pyrt_scheme" where
  "Py_XINCREF p w = (if p = NULL then w else Py_INCREF p w)"

definition PyMem_Free :: "ptr \<Rightarrow> 'a pyrt_scheme \<Rightarrow> 'a pyrt_scheme" where
  "PyMem_Free p w =
     (if p = NULL then w
      else if mem w p = None then emit (Ev_BadFree p) w
      else w\<lparr>mem := (mem w)(p := None)\<rparr>)"

text \<open>The kernel or the program writes \<open>data\<close> at the start of a block.\<close>

definition store_bytes :: "ptr \<Rightarrow> u8 list \<Rightarrow> 'a pyrt_scheme \<Rightarrow> 'a pyrt_scheme" where
  "store_bytes p data w =
     w\<lparr>mem := (mem w)(p := map_option (\<lambda>old. data @ drop (length data) old) (mem w p))\<rparr>"

text \<open>
  \<^verbatim>\<open>PyBytes_FromStringAndSize(p, n)\<close>: the first \<open>n\<close> bytes at \<open>p\<close>. A negative size
  raises; a block that is gone or shorter than \<open>n\<close> is an invalid access.
\<close>

definition PyBytes_FromStringAndSize :: "ptr \<Rightarrow> u64 \<Rightarrow> 'a pyrt_scheme \<Rightarrow> pyval outcome" where
  "PyBytes_FromStringAndSize p n w =
     (if sint n < 0 then Raise PyErr_Pending
      else case mem w p of None \<Rightarrow> Crash | Some bs \<Rightarrow>
             if length bs < unat n then Crash else Ret (PyBytes (take (unat n) bs)))"

section \<open>Steps the modules share\<close>

text \<open>The check of the arguments of \<^verbatim>\<open>submit\<close>: the index of the first one that is not an Operation.\<close>

fun wrong_type :: "(ptr \<Rightarrow> 'a option) \<Rightarrow> nat \<Rightarrow> ptr list \<Rightarrow> nat option" where
  "wrong_type ops i [] = None"
| "wrong_type ops i (p # ps) = (if ops p = None then Some i else wrong_type ops (Suc i) ps)"

lemma wrong_type_None: "wrong_type ops i ps = None \<longleftrightarrow> (\<forall>p\<in>set ps. ops p \<noteq> None)"
  by (induction ps arbitrary: i) auto

text \<open>
  Calling the callback of a completed operation under a reference of its own. \<open>call\<close> is what
  the callback does to the state and whether it returned; an exception is reported and
  forgotten.
\<close>

definition run_callback ::
  "(ptr \<Rightarrow> pyval \<Rightarrow> 'a pyrt_scheme \<Rightarrow> bool \<times> 'a pyrt_scheme) \<Rightarrow> ptr \<Rightarrow> pyval \<Rightarrow> 'a pyrt_scheme \<Rightarrow> 'a pyrt_scheme" where
  "run_callback call cb v w =
     (if cb = NULL then w
      else
        let (ok, w) = call cb v (emit (Ev_Callback cb v) (Py_INCREF cb w));
            w = (if ok then w else emit (Ev_Unraisable cb) w)
        in Py_DECREF cb w)"

section \<open>Frame facts\<close>

named_theorems rt_simps \<open>the runtime operations field by field\<close>

lemma emit_frame [rt_simps]:
  "refs (emit e w) = refs w" "mem (emit e w) = mem w" "bytes_at (emit e w) = bytes_at w"
  "trace (emit e w) = trace w @ [e]" "pyrt.more (emit e w) = pyrt.more w"
  by (simp_all add: emit_def)

lemma incref_frame [rt_simps]:
  "refs (Py_INCREF p w) = (refs w)(p := refs w p + 1)" "mem (Py_INCREF p w) = mem w"
  "bytes_at (Py_INCREF p w) = bytes_at w" "trace (Py_INCREF p w) = trace w"
  "pyrt.more (Py_INCREF p w) = pyrt.more w"
  by (simp_all add: Py_INCREF_def)

lemma decref_alive:
  "refs w p \<noteq> 1 \<Longrightarrow> decref_with d p w = w\<lparr>refs := (refs w)(p := refs w p - 1)\<rparr>"
  by (simp add: decref_with_def Let_def)

lemma decref_last:
  "refs w p = 1 \<Longrightarrow> decref_with d p w = d p (w\<lparr>refs := (refs w)(p := 0)\<rparr>)"
  by (simp add: decref_with_def Let_def)

lemma py_decref_frame [rt_simps]:
  "refs (Py_DECREF p w) = (refs w)(p := refs w p - 1)" "bytes_at (Py_DECREF p w) = bytes_at w"
  "pyrt.more (Py_DECREF p w) = pyrt.more w"
  by (simp_all add: Py_DECREF_def decref_with_def py_dealloc_def emit_def Let_def)

lemma incref_decref: "0 < refs w p \<Longrightarrow> decref_with d p (Py_INCREF p w) = w"
  by (simp add: decref_with_def Py_INCREF_def Let_def)

section \<open>Callbacks that only look\<close>

text \<open>
  What the callback of an operation leaves in the trace; \<open>verdict\<close> says whether it returned.
\<close>

definition callback_events :: "(ptr \<Rightarrow> pyval \<Rightarrow> bool) \<Rightarrow> ptr \<Rightarrow> pyval \<Rightarrow> event list" where
  "callback_events verdict cb v =
     (if cb = NULL then [] else Ev_Callback cb v # (if verdict cb v then [] else [Ev_Unraisable cb]))"

lemma run_callback_closed:
  assumes "cb \<noteq> NULL \<Longrightarrow> 0 < refs w cb"
  shows "run_callback (\<lambda>cb v w. (verdict cb v, w)) cb v w = w\<lparr>trace := trace w @ callback_events verdict cb v\<rparr>"
proof (cases "cb = NULL")
  case True
  then show ?thesis by (simp add: run_callback_def callback_events_def)
next
  case False
  then have "0 < refs w cb" by (rule assms)
  with False show ?thesis
    by (intro pyrt.equality)
      (simp_all add: run_callback_def callback_events_def emit_def Py_INCREF_def Py_DECREF_def decref_alive)
qed

section \<open>Bytes objects\<close>

text \<open>
  The storage of bytes objects as far as the modules rely on it: a live one has storage of
  its own, of a size that fits a signed word.
\<close>

definition storage :: "'a pyrt_scheme \<Rightarrow> ptr \<Rightarrow> nat option" where
  "storage w q = map_option length (mem w (bytes_at w q))"

definition runtime_ok :: "'a pyrt_scheme \<Rightarrow> bool" where
  "runtime_ok w \<longleftrightarrow> (\<forall>q. 0 < refs w q \<and> bytes_at w q \<noteq> NULL \<longrightarrow> (\<exists>n < 2 ^ 63. storage w q = Some n)) \<and>
     (\<forall>q r. 0 < refs w q \<and> 0 < refs w r \<and> bytes_at w q \<noteq> NULL \<and> bytes_at w q = bytes_at w r \<longrightarrow> q = r)"

end
