(* ===== verification/Thread_AIO.thy ===== *)
theory Thread_AIO
  imports Pool_System Py_Runtime
begin

text \<open>
  The portable backend, \<^verbatim>\<open>caio/thread_aio.c\<close>: an Operation is queued in the thread pool of
  its Context and a worker thread runs the blocking system call.

  Every method is one function on the state. The fields of the C structs are kept at their
  width. \<open>thr_env\<close> collects what lies outside: the answers of pthreads, what other threads
  do while this one waits, the callbacks, the kernel, and the build option
  \<^verbatim>\<open>HAVE_FDATASYNC\<close>.
\<close>

section \<open>Data\<close>

definition CTX_POOL_SIZE_DEFAULT :: u8 where [simp]: "CTX_POOL_SIZE_DEFAULT = 8"
definition CTX_MAX_REQUESTS_DEFAULT_thr :: u16 where [simp]: "CTX_MAX_REQUESTS_DEFAULT_thr = 512"

datatype THAIO_OP_CODE = THAIO_READ | THAIO_WRITE | THAIO_FSYNC | THAIO_FDSYNC | THAIO_NOOP

text \<open>
  \<open>to_pad\<close> and \<open>tc_pad\<close> are the padding bytes of the structs that follow \<^verbatim>\<open>done\<close> and
  \<^verbatim>\<open>pool_size\<close>: two member descriptors read an int over them, and one format code of the
  argument parser writes one of them.
\<close>

record AIOOperation_thr =
  to_py_buffer :: ptr
  to_callback :: ptr
  to_opcode :: THAIO_OP_CODE
  to_fileno :: u32
  to_offset :: u64
  to_result :: u32
  to_error :: u8
  to_in_progress :: u8
  to_done :: u8
  to_pad :: u8
  to_buf_size :: u64
  to_buf :: ptr
  to_ctx :: ptr
  to_weakreflist :: ptr

record AIOContext_thr =
  tc_pool :: "threadpool_t option"
  tc_max_requests :: u16
  tc_pool_size :: u8
  tc_pad :: u8
  tc_weakreflist :: ptr

record thr_world = pyrt +
  thr_ops :: "ptr \<Rightarrow> AIOOperation_thr option"
  thr_ctxs :: "ptr \<Rightarrow> AIOContext_thr option"

text \<open>System calls of the worker and their answers.\<close>

datatype thr_syscall = Sys_pread u32 ptr u64 u64 | Sys_pwrite u32 ptr u64 u64
  | Sys_fsync u32 | Sys_fdatasync u32

record sys_answer =
  sa_ret :: u64
  sa_errno :: int
  sa_data :: "u8 list"

record thr_env =
  te_destroy :: pthread_env
  te_joins :: "nat \<Rightarrow> int"
  te_pool_meanwhile :: "threadpool_t \<Rightarrow> threadpool_t"
  te_others :: "thr_world \<Rightarrow> thr_world"
  te_call :: "ptr \<Rightarrow> pyval \<Rightarrow> thr_world \<Rightarrow> bool \<times> thr_world"
  te_kernel :: "thr_syscall \<Rightarrow> sys_answer"
  te_have_fdatasync :: bool

definition upd_op_thr :: "ptr \<Rightarrow> (AIOOperation_thr \<Rightarrow> AIOOperation_thr) \<Rightarrow> thr_world \<Rightarrow> thr_world" where
  "upd_op_thr p f w = w\<lparr>thr_ops := (thr_ops w)(p := map_option f (thr_ops w p))\<rparr>"

definition upd_ctx_thr :: "ptr \<Rightarrow> (AIOContext_thr \<Rightarrow> AIOContext_thr) \<Rightarrow> thr_world \<Rightarrow> thr_world" where
  "upd_ctx_thr p f w = w\<lparr>thr_ctxs := (thr_ctxs w)(p := map_option f (thr_ctxs w p))\<rparr>"

definition op_thr :: "thr_world \<Rightarrow> ptr \<Rightarrow> AIOOperation_thr" where
  "op_thr w p = the (thr_ops w p)"

section \<open>Deallocation\<close>

definition AIOContext_close_pool :: "thr_env \<Rightarrow> ptr \<Rightarrow> thr_world \<Rightarrow> thr_world" where
  "AIOContext_close_pool env self w =
     (case thr_ctxs w self of None \<Rightarrow> w
      | Some c \<Rightarrow>
          let w = upd_ctx_thr self (\<lambda>c. c\<lparr>tc_pool := None\<rparr>) w in
          (case tc_pool c of None \<Rightarrow> w
           | Some pool \<Rightarrow>
               let (err, _, _) = threadpool_destroy (te_destroy env) (te_joins env)
                     (te_pool_meanwhile env) (Some pool) True
               in emit (Ev_PoolDestroy err) (te_others env w)))"

definition AIOContext_dealloc_thr :: "thr_env \<Rightarrow> ptr \<Rightarrow> thr_world \<Rightarrow> thr_world" where
  "AIOContext_dealloc_thr env self w =
     (let w = (case thr_ctxs w self of None \<Rightarrow> w
               | Some c \<Rightarrow> if tc_weakreflist c \<noteq> NULL then emit (Ev_ClearWeakRefs self) w else w);
          w = AIOContext_close_pool env self w
      in emit (Ev_Dealloc self) (w\<lparr>thr_ctxs := (thr_ctxs w)(self := None)\<rparr>))"

definition decref_ctx_thr :: "thr_env \<Rightarrow> ptr \<Rightarrow> thr_world \<Rightarrow> thr_world" where
  "decref_ctx_thr env = decref_with (AIOContext_dealloc_thr env)"

text \<open>\<^verbatim>\<open>Py_CLEAR\<close> of a field: the field is null before the reference is dropped.\<close>

definition AIOOperation_clear_thr :: "thr_env \<Rightarrow> ptr \<Rightarrow> thr_world \<Rightarrow> thr_world" where
  "AIOOperation_clear_thr env self w =
     (let cb = to_callback (op_thr w self);
          w = Py_XDECREF cb (upd_op_thr self (\<lambda>x. x\<lparr>to_callback := NULL\<rparr>) w);
          w = (if to_opcode (op_thr w self) = THAIO_READ \<and> to_buf (op_thr w self) \<noteq> NULL
               then upd_op_thr self (\<lambda>x. x\<lparr>to_buf := NULL\<rparr>) (PyMem_Free (to_buf (op_thr w self)) w)
               else w);
          pb = to_py_buffer (op_thr w self);
          w = Py_XDECREF pb (upd_op_thr self (\<lambda>x. x\<lparr>to_py_buffer := NULL\<rparr>) w);
          cx = to_ctx (op_thr w self);
          w = upd_op_thr self (\<lambda>x. x\<lparr>to_ctx := NULL\<rparr>) w
      in if cx = NULL then w else decref_ctx_thr env cx w)"

definition AIOOperation_dealloc_thr :: "thr_env \<Rightarrow> ptr \<Rightarrow> thr_world \<Rightarrow> thr_world" where
  "AIOOperation_dealloc_thr env self w =
     (let w = (if to_weakreflist (op_thr w self) \<noteq> NULL then emit (Ev_ClearWeakRefs self) w else w);
          w = AIOOperation_clear_thr env self w
      in emit (Ev_Dealloc self) (w\<lparr>thr_ops := (thr_ops w)(self := None)\<rparr>))"

definition decref_op_thr :: "thr_env \<Rightarrow> ptr \<Rightarrow> thr_world \<Rightarrow> thr_world" where
  "decref_op_thr env = decref_with (AIOOperation_dealloc_thr env)"

section \<open>Context: creation, closing\<close>

text \<open>\<^verbatim>\<open>tp_alloc\<close> gives a zeroed object with one reference.\<close>

definition zero_ctx_thr :: AIOContext_thr where
  "zero_ctx_thr = \<lparr>tc_pool = None, tc_max_requests = 0, tc_pool_size = 0, tc_pad = 0, tc_weakreflist = NULL\<rparr>"

definition AIOContext_new_thr :: "ptr \<Rightarrow> thr_world \<Rightarrow> thr_world" where
  "AIOContext_new_thr self w =
     (if self = NULL then w
      else w\<lparr>thr_ctxs := (thr_ctxs w)(self := Some zero_ctx_thr), refs := (refs w)(self := 1)\<rparr>)"

text \<open>
  \<^verbatim>\<open>AIOContext_init\<close>. \<open>parsed\<close> is what the parser made of the two optional arguments
  (\<open>None\<close>: it failed). Its format \<^verbatim>\<open>"|HH"\<close> stores two bytes for each: the second store
  begins at the one-byte field \<^verbatim>\<open>pool_size\<close> and its high byte falls into the padding. (A parse
  that fails is taken to have stored nothing; in C it may have stored the first argument
  already.)
\<close>

definition parse_HH :: "u16 option \<times> u16 option \<Rightarrow> AIOContext_thr \<Rightarrow> AIOContext_thr" where
  "parse_HH args c =
     (let c = (case fst args of None \<Rightarrow> c | Some m \<Rightarrow> c\<lparr>tc_max_requests := m\<rparr>)
      in case snd args of None \<Rightarrow> c
         | Some n \<Rightarrow> c\<lparr>tc_pool_size := ucast n, tc_pad := ucast (drop_bit 8 n)\<rparr>)"

definition AIOContext_init_thr ::
  "create_env \<Rightarrow> thr_env \<Rightarrow> (u16 option \<times> u16 option) option \<Rightarrow> AIOContext_thr
   \<Rightarrow> unit outcome \<times> AIOContext_thr" where
  "AIOContext_init_thr ce env parsed c =
     (let c = c\<lparr>tc_pool := None, tc_max_requests := 0\<rparr> in
      case parsed of None \<Rightarrow> (Raise PyErr_Pending, c)
      | Some args \<Rightarrow>
          let c = parse_HH args c;
              c = (if tc_max_requests c = 0 then c\<lparr>tc_max_requests := CTX_MAX_REQUESTS_DEFAULT_thr\<rparr> else c);
              c = (if tc_pool_size c = 0 then c\<lparr>tc_pool_size := CTX_POOL_SIZE_DEFAULT\<rparr> else c) in
          if uint (tc_pool_size c) > MAX_THREADS then
            (Raise (PyErr_Format PyExc_ValueError ''pool_size too large. Allowed lower then %d'' [MAX_THREADS]), c)
          else if uint (tc_max_requests c) \<ge> MAX_QUEUE - 1 then
            (Raise (PyErr_Format PyExc_ValueError ''max_requests too large. Allowed lower then %d'' [MAX_QUEUE - 1]), c)
          else
            let (pool, _) = threadpool_create ce (te_destroy env) (te_joins env) (te_pool_meanwhile env)
                  (uint (tc_pool_size c)) (uint (tc_max_requests c));
                c = c\<lparr>tc_pool := pool\<rparr> in
            if pool = None then
              (Raise (PyErr_Format PyExc_RuntimeError ''Pool initialization failed size=%d max_requests=%d''
                  [uint (tc_pool_size c), uint (tc_max_requests c)]), c)
            else (Ret (), c))"

definition AIOContext_close :: "thr_env \<Rightarrow> ptr \<Rightarrow> thr_world \<Rightarrow> pyval outcome \<times> thr_world" where
  "AIOContext_close env self w = (Ret PyNone, AIOContext_close_pool env self w)"

definition AIOContext_cancel_thr :: "ptr list \<Rightarrow> thr_world \<Rightarrow> pyval outcome \<times> thr_world" where
  "AIOContext_cancel_thr args w = (Ret (PyLong 0), w)"

text \<open>The attribute \<^verbatim>\<open>pool_size\<close>: a \<^verbatim>\<open>T_INT\<close> member at the offset of the one-byte field.\<close>

definition AIOContext_members_pool_size :: "AIOContext_thr \<Rightarrow> int" where
  "AIOContext_members_pool_size c = uint (tc_pool_size c) + 256 * uint (tc_pad c)"

section \<open>Submitting\<close>

definition process_pool_error :: "int \<Rightarrow> pyexc option \<times> int" where
  "process_pool_error code =
     (if code = threadpool_invalid then
        (Some (PyErr_SetString PyExc_RuntimeError ''Thread pool pointer is invalid''), code)
      else if code = threadpool_lock_failure then
        (Some (PyErr_SetString PyExc_RuntimeError ''Failed to lock thread pool''), code)
      else if code = threadpool_queue_full then
        (Some (PyErr_SetString PyExc_RuntimeError ''Thread pool queue full''), code)
      else if code = threadpool_shutdown then
        (Some (PyErr_SetString PyExc_RuntimeError ''Thread pool is shutdown''), code)
      else if code = threadpool_thread_failure then
        (Some (PyErr_SetString PyExc_RuntimeError ''Thread failure''), code)
      else if code < 0 then (Some (PyErr_SetString PyExc_RuntimeError ''Unknown error''), code)
      else (None, code))"

text \<open>The address of \<^verbatim>\<open>worker\<close>, the function every queued task calls.\<close>

definition worker_fn :: ptr where "worker_fn = 1"

text \<open>
  The dispatch loop. \<open>pe\<close> gives the answers of pthreads to the successive calls of
  \<^verbatim>\<open>threadpool_add\<close>, \<open>j\<close> counts the operations queued so far. The pool is the one the
  Context holds (the critical section keeps it there).
\<close>

fun submit_loop_thr ::
  "(nat \<Rightarrow> pthread_env) \<Rightarrow> thr_env \<Rightarrow> ptr \<Rightarrow> ptr list \<Rightarrow> threadpool_t \<Rightarrow> nat \<Rightarrow> thr_world
   \<Rightarrow> pyexc option \<times> nat \<times> threadpool_t \<times> thr_world" where
  "submit_loop_thr pe env self [] pool j w = (None, j, pool, w)"
| "submit_loop_thr pe env self (p # ps) pool j w =
     (let claimed = to_in_progress (op_thr w p);
          w = upd_op_thr p (\<lambda>x. x\<lparr>to_in_progress := 1\<rparr>) w in
      if claimed \<noteq> 0 then submit_loop_thr pe env self ps pool j w
      else
        let w = upd_op_thr p (\<lambda>x. x\<lparr>to_ctx := self\<rparr>) w;
            w = Py_INCREF self (Py_INCREF p w);
            (result, pool') = threadpool_add (pe j) (Some pool) worker_fn p;
            (exc, code) = process_pool_error result in
        if code < 0 then
          (exc, j, the pool', decref_ctx_thr env self (decref_op_thr env p
             (upd_op_thr p (\<lambda>x. x\<lparr>to_in_progress := 0, to_ctx := NULL\<rparr>) w)))
        else submit_loop_thr pe env self ps (the pool') (Suc j) w)"

definition AIOContext_submit_thr ::
  "(nat \<Rightarrow> pthread_env) \<Rightarrow> thr_env \<Rightarrow> bool \<Rightarrow> ptr \<Rightarrow> ptr list option \<Rightarrow> thr_world
   \<Rightarrow> pyval outcome \<times> thr_world" where
  "AIOContext_submit_thr pe env memory self args w =
     (if self = NULL then (Raise (PyErr_SetString PyExc_RuntimeError ''self is NULL''), w)
      else
        (case args of None \<Rightarrow> (Raise (PyErr_SetNone PyExc_ValueError), w)
         | Some ps \<Rightarrow>
             if ps \<noteq> [] \<and> \<not> memory then (Raise PyErr_NoMemory, w)
             else
               (case wrong_type (thr_ops w) 0 ps of
                  Some i \<Rightarrow> (Raise (PyErr_Format PyExc_TypeError ''Wrong type for argument %zd'' [int i]), w)
                | None \<Rightarrow>
                    (case tc_pool (the (thr_ctxs w self)) of
                       None \<Rightarrow> (Raise (PyErr_SetString PyExc_RuntimeError ''self->pool is NULL''), w)
                     | Some pool \<Rightarrow>
                         let (exc, j, pool, w) = submit_loop_thr pe env self ps pool 0 w;
                             w = upd_ctx_thr self (\<lambda>c. c\<lparr>tc_pool := Some pool\<rparr>) w
                         in (case exc of None \<Rightarrow> (Ret (PyLong (int j)), w)
                             | Some e \<Rightarrow> (Raise e, w))))))"

section \<open>The worker\<close>

text \<open>
  \<^verbatim>\<open>worker\<close> in its three stretches: what it does before the system call (without the GIL),
  the system call with the store of its results (without the GIL), and the completion
  (with the GIL).
\<close>

definition worker_begin :: "ptr \<Rightarrow> thr_world \<Rightarrow> ptr \<times> thr_world" where
  "worker_begin arg w = (to_ctx (op_thr w arg), upd_op_thr arg (\<lambda>x. x\<lparr>to_ctx := NULL, to_error := 0\<rparr>) w)"

text \<open>
  The size goes through the local \<^verbatim>\<open>int buf_size\<close>: cut to 32 bits there, sign-extended when
  it is passed on as a \<^verbatim>\<open>size_t\<close>.
\<close>

definition worker_count :: "AIOOperation_thr \<Rightarrow> u64" where
  "worker_count x = scast (ucast (to_buf_size x) :: u32)"

definition worker_call :: "thr_env \<Rightarrow> AIOOperation_thr \<Rightarrow> thr_syscall" where
  "worker_call env x =
     (case to_opcode x of
        THAIO_WRITE \<Rightarrow> Sys_pwrite (to_fileno x) (to_buf x) (worker_count x) (to_offset x)
      | THAIO_FSYNC \<Rightarrow> Sys_fsync (to_fileno x)
      | THAIO_FDSYNC \<Rightarrow> if te_have_fdatasync env then Sys_fdatasync (to_fileno x) else Sys_fsync (to_fileno x)
      | _ \<Rightarrow> Sys_pread (to_fileno x) (to_buf x) (worker_count x) (to_offset x))"

definition worker_syscall :: "thr_env \<Rightarrow> ptr \<Rightarrow> thr_world \<Rightarrow> u32 \<times> thr_world" where
  "worker_syscall env arg w =
     (let x = op_thr w arg;
          ans = te_kernel env (worker_call env x);
          w = (if to_opcode x = THAIO_READ then store_bytes (to_buf x) (sa_data ans) w else w);
          result = (ucast (sa_ret ans) :: u32);
          w = upd_op_thr arg (\<lambda>x. x\<lparr>to_ctx := NULL, to_result := result\<rparr>) w;
          w = (if sint result < 0 then upd_op_thr arg (\<lambda>x. x\<lparr>to_error := word_of_int (sa_errno ans)\<rparr>) w else w);
          w = (if to_opcode x = THAIO_READ then upd_op_thr arg (\<lambda>x. x\<lparr>to_buf_size := scast result\<rparr>) w else w)
      in (result, w))"

definition worker_finish :: "thr_env \<Rightarrow> ptr \<Rightarrow> ptr \<Rightarrow> u32 \<Rightarrow> thr_world \<Rightarrow> thr_world" where
  "worker_finish env arg ctx result w =
     (let w = (if to_opcode (op_thr w arg) = THAIO_WRITE
               then Py_XDECREF (to_py_buffer (op_thr w arg)) (upd_op_thr arg (\<lambda>x. x\<lparr>to_py_buffer := NULL\<rparr>) w)
               else w);
          w = upd_op_thr arg (\<lambda>x. x\<lparr>to_done := 1\<rparr>) w;
          cb = to_callback (op_thr w arg);
          w = Py_XINCREF cb w;
          w = (if cb = NULL then w
               else
                 let (ok, w) = te_call env cb (PyLong (sint result)) (emit (Ev_Callback cb (PyLong (sint result))) w);
                     w = (if ok then w else emit (Ev_Unraisable cb) w)
                 in Py_DECREF cb w)
      in decref_op_thr env arg (decref_ctx_thr env ctx w))"

definition worker :: "thr_env \<Rightarrow> ptr \<Rightarrow> thr_world \<Rightarrow> thr_world" where
  "worker env arg w =
     (let (ctx, w) = worker_begin arg w in
      if to_opcode (op_thr w arg) = THAIO_NOOP then
        decref_op_thr env arg (decref_ctx_thr env ctx (upd_op_thr arg (\<lambda>x. x\<lparr>to_ctx := NULL\<rparr>) w))
      else
        let (result, w) = worker_syscall env arg w in worker_finish env arg ctx result w)"

section \<open>Operations: creation\<close>

text \<open>\<^verbatim>\<open>tp_alloc\<close> gives a zeroed object; zero is the opcode \<open>THAIO_READ\<close>.\<close>

definition zero_op_thr :: AIOOperation_thr where
  "zero_op_thr = \<lparr>to_py_buffer = NULL, to_callback = NULL, to_opcode = THAIO_READ, to_fileno = 0,
     to_offset = 0, to_result = 0, to_error = 0, to_in_progress = 0, to_done = 0, to_pad = 0,
     to_buf_size = 0, to_buf = NULL, to_ctx = NULL, to_weakreflist = NULL\<rparr>"

definition alloc_op_thr :: "ptr \<Rightarrow> thr_world \<Rightarrow> thr_world" where
  "alloc_op_thr self w = w\<lparr>thr_ops := (thr_ops w)(self := Some zero_op_thr), refs := (refs w)(self := 1)\<rparr>"

definition no_memory_thr :: pyexc where
  "no_memory_thr = PyErr_SetString PyExc_MemoryError ''can not allocate memory''"

text \<open>
  \<^verbatim>\<open>self\<close> is the answer of \<^verbatim>\<open>tp_alloc\<close> (null on failure), \<open>parsed\<close> that of the argument
  parser (the offset is optional), \<open>block\<close> that of \<^verbatim>\<open>PyMem_Calloc\<close> and \<open>view\<close> that of
  \<^verbatim>\<open>PyMemoryView_FromMemory\<close>.
\<close>

definition AIOOperation_read_thr ::
  "thr_env \<Rightarrow> ptr \<Rightarrow> (u64 \<times> u32 \<times> u64 option) option \<Rightarrow> ptr \<Rightarrow> ptr \<Rightarrow> thr_world
   \<Rightarrow> pyval outcome \<times> thr_world" where
  "AIOOperation_read_thr env self parsed block view w =
     (if self = NULL then (Raise no_memory_thr, w)
      else
        let w = alloc_op_thr self w in
        case parsed of None \<Rightarrow> (Raise PyErr_Pending, decref_op_thr env self w)
        | Some (nbytes, fileno, offset) \<Rightarrow>
            let w = upd_op_thr self (\<lambda>x. x\<lparr>to_fileno := fileno,
                  to_offset := (case offset of None \<Rightarrow> to_offset x | Some off \<Rightarrow> off)\<rparr>) w;
                w = upd_op_thr self (\<lambda>x. x\<lparr>to_buf := block\<rparr>)
                  (if block = NULL then w else w\<lparr>mem := (mem w)(block \<mapsto> replicate (unat nbytes) 0)\<rparr>) in
            if block = NULL \<and> nbytes > 0 then (Raise PyErr_NoMemory, decref_op_thr env self w)
            else
              let w = upd_op_thr self (\<lambda>x. x\<lparr>to_buf_size := nbytes, to_py_buffer := view\<rparr>) w in
              if view = NULL then (Raise PyErr_Pending, decref_op_thr env self w)
              else
                (Ret (PyObj self),
                 upd_op_thr self (\<lambda>x. x\<lparr>to_opcode := THAIO_READ\<rparr>) (w\<lparr>refs := (refs w)(view := 1)\<rparr>)))"

text \<open>\<open>as_string\<close>: whether \<^verbatim>\<open>PyBytes_AsStringAndSize\<close> succeeds.\<close>

definition AIOOperation_write_thr ::
  "thr_env \<Rightarrow> ptr \<Rightarrow> (ptr \<times> u32 \<times> u64 option) option \<Rightarrow> bool \<Rightarrow> thr_world \<Rightarrow> pyval outcome \<times> thr_world" where
  "AIOOperation_write_thr env self parsed as_string w =
     (if self = NULL then (Raise no_memory_thr, w)
      else
        let w = alloc_op_thr self w in
        case parsed of None \<Rightarrow> (Raise PyErr_Pending, decref_op_thr env self w)
        | Some (payload, fileno, offset) \<Rightarrow>
            let w = upd_op_thr self (\<lambda>x. x\<lparr>to_fileno := fileno,
                  to_offset := (case offset of None \<Rightarrow> to_offset x | Some off \<Rightarrow> off)\<rparr>) w in
            if bytes_at w payload = NULL then
              (Raise (PyErr_SetString PyExc_ValueError ''payload_bytes argument must be bytes''),
               decref_op_thr env self w)
            else
              let w = upd_op_thr self (\<lambda>x. x\<lparr>to_opcode := THAIO_WRITE\<rparr>) w in
              if \<not> as_string then
                (Raise (PyErr_SetString PyExc_RuntimeError ''Can not convert bytes to c string''),
                 decref_op_thr env self w)
              else
                let b = bytes_at w payload;
                    w = upd_op_thr self (\<lambda>x. x\<lparr>to_buf := b,
                      to_buf_size := of_nat (length (the (mem w b))), to_py_buffer := payload\<rparr>) w
                in (Ret (PyObj self), Py_INCREF payload w))"

text \<open>\<^verbatim>\<open>fsync\<close> and \<^verbatim>\<open>fdsync\<close> differ in the opcode they set.\<close>

definition AIOOperation_sync_thr ::
  "THAIO_OP_CODE \<Rightarrow> thr_env \<Rightarrow> ptr \<Rightarrow> u32 option \<Rightarrow> thr_world \<Rightarrow> pyval outcome \<times> thr_world" where
  "AIOOperation_sync_thr code env self parsed w =
     (if self = NULL then (Raise no_memory_thr, w)
      else
        let w = alloc_op_thr self w in
        case parsed of None \<Rightarrow> (Raise PyErr_Pending, decref_op_thr env self w)
        | Some fileno \<Rightarrow>
            (Ret (PyObj self), upd_op_thr self (\<lambda>x. x\<lparr>to_fileno := fileno, to_opcode := code\<rparr>) w))"

definition AIOOperation_fsync_thr :: "thr_env \<Rightarrow> ptr \<Rightarrow> u32 option \<Rightarrow> thr_world \<Rightarrow> pyval outcome \<times> thr_world" where
  "AIOOperation_fsync_thr = AIOOperation_sync_thr THAIO_FSYNC"

definition AIOOperation_fdsync_thr :: "thr_env \<Rightarrow> ptr \<Rightarrow> u32 option \<Rightarrow> thr_world \<Rightarrow> pyval outcome \<times> thr_world" where
  "AIOOperation_fdsync_thr = AIOOperation_sync_thr THAIO_FDSYNC"

section \<open>Operations: results\<close>

definition AIOOperation_get_value_thr :: "ptr \<Rightarrow> thr_world \<Rightarrow> pyval outcome" where
  "AIOOperation_get_value_thr self w =
     (let x = op_thr w self in
      if to_in_progress x \<noteq> 0 \<and> to_done x = 0 then
        Raise (PyErr_SetString PyExc_RuntimeError ''get_value() is not available while the operation is in flight'')
      else if to_error x \<noteq> 0 then Raise (PyErr_Format PyExc_SystemError ''strerror'' [uint (to_error x)])
      else
        (case to_opcode x of
           THAIO_READ \<Rightarrow>
             if to_buf x = NULL then Ret PyNone
             else PyBytes_FromStringAndSize (to_buf x) (to_buf_size x) w
         | THAIO_WRITE \<Rightarrow> Ret (PyLong (sint (to_result x)))
         | _ \<Rightarrow> Ret PyNone))"

definition AIOOperation_payload_getter_thr :: "ptr \<Rightarrow> thr_world \<Rightarrow> pyval outcome \<times> thr_world" where
  "AIOOperation_payload_getter_thr self w =
     (let x = op_thr w self in
      if to_in_progress x \<noteq> 0 \<and> to_done x = 0 then
        (Raise (PyErr_SetString PyExc_RuntimeError ''payload is not available while the operation is in flight''), w)
      else if to_py_buffer x = NULL then (Ret PyNone, w)
      else (Ret (PyObj (to_py_buffer x)), Py_INCREF (to_py_buffer x) w))"

definition AIOOperation_set_callback_thr :: "ptr \<Rightarrow> ptr option \<Rightarrow> bool \<Rightarrow> thr_world \<Rightarrow> pyval outcome \<times> thr_world" where
  "AIOOperation_set_callback_thr self parsed callable w =
     (case parsed of None \<Rightarrow> (Raise PyErr_Pending, w)
      | Some callback \<Rightarrow>
          if \<not> callable then (Raise (PyErr_Format PyExc_ValueError ''object %r is not callable'' [uint callback]), w)
          else
            let w = Py_INCREF callback w;
                old = to_callback (op_thr w self);
                w = upd_op_thr self (\<lambda>x. x\<lparr>to_callback := callback\<rparr>) w
            in (Ret PyTrue, Py_XDECREF old w))"

text \<open>
  The attributes: \<^verbatim>\<open>nbytes\<close> reads the size as unsigned; \<^verbatim>\<open>error\<close> is a \<^verbatim>\<open>T_INT\<close> member at
  the offset of a one-byte field and reads the three bytes that follow it as well.
\<close>

definition AIOOperation_members_error :: "AIOOperation_thr \<Rightarrow> int" where
  "AIOOperation_members_error x =
     uint (to_error x) + 2 ^ 8 * uint (to_in_progress x) + 2 ^ 16 * uint (to_done x) + 2 ^ 24 * sint (to_pad x)"

definition AIOOperation_members_nbytes :: "AIOOperation_thr \<Rightarrow> int" where
  "AIOOperation_members_nbytes x = uint (to_buf_size x)"

end
