(* ===== verification/Thread_Properties.thy ===== *)
theory Thread_Properties
  imports Thread_AIO "HOL-Library.Sublist"
begin

text \<open>
  Properties of the thread backend: what \<^verbatim>\<open>Context.submit\<close> dispatches and how it rolls
  back, what the worker stores, when results can be read, the balance of the reference
  counts, and the life of the buffers.
\<close>

section \<open>The state operations field by field\<close>

lemma upd_op_thr_frame [simp]:
  "thr_ops (upd_op_thr p f w) = (thr_ops w)(p := map_option f (thr_ops w p))"
  "thr_ctxs (upd_op_thr p f w) = thr_ctxs w" "refs (upd_op_thr p f w) = refs w"
  "mem (upd_op_thr p f w) = mem w" "bytes_at (upd_op_thr p f w) = bytes_at w"
  "trace (upd_op_thr p f w) = trace w"
  by (simp_all add: upd_op_thr_def)

lemma upd_ctx_thr_frame [simp]:
  "thr_ctxs (upd_ctx_thr p g w) = (thr_ctxs w)(p := map_option g (thr_ctxs w p))"
  "thr_ops (upd_ctx_thr p g w) = thr_ops w" "refs (upd_ctx_thr p g w) = refs w"
  "mem (upd_ctx_thr p g w) = mem w" "bytes_at (upd_ctx_thr p g w) = bytes_at w"
  "trace (upd_ctx_thr p g w) = trace w"
  by (simp_all add: upd_ctx_thr_def)

lemma thr_rt_frame [simp]:
  "thr_ops (Py_INCREF p w) = thr_ops w" "thr_ctxs (Py_INCREF p w) = thr_ctxs w"
  "thr_ops (Py_DECREF p w) = thr_ops w" "thr_ctxs (Py_DECREF p w) = thr_ctxs w"
  "thr_ops (emit e w) = thr_ops w" "thr_ctxs (emit e w) = thr_ctxs w"
  "thr_ops (store_bytes p data w) = thr_ops w" "thr_ctxs (store_bytes p data w) = thr_ctxs w"
  by (simp_all add: Py_INCREF_def Py_DECREF_def decref_with_def py_dealloc_def emit_def
      store_bytes_def Let_def)

section \<open>Dispatch\<close>

text \<open>
  What holds of every Operation between two calls: it is free, and then it holds no
  Context, or it has been claimed for good.
\<close>

definition ops_ok_thr :: "thr_world \<Rightarrow> bool" where
  "ops_ok_thr w \<longleftrightarrow> (\<forall>p x. thr_ops w p = Some x \<longrightarrow>
     to_in_progress x = 0 \<and> to_ctx x = NULL \<or> to_in_progress x = 1)"

abbreviation task_of :: "ptr \<Rightarrow> threadpool_task_t" where
  "task_of p \<equiv> \<lparr>func = worker_fn, argument = p\<rparr>"

text \<open>The state after the operations \<open>cs\<close> have been claimed for the Context \<open>self\<close>.\<close>

definition claimed_thr :: "ptr list \<Rightarrow> ptr \<Rightarrow> thr_world \<Rightarrow> thr_world" where
  "claimed_thr cs self w =
     w\<lparr>refs := (\<lambda>q. refs w q + (if q \<in> set cs then 1 else 0) + (if q = self then int (length cs) else 0)),
       thr_ops := (\<lambda>q. if q \<in> set cs
          then map_option (\<lambda>x. x\<lparr>to_in_progress := 1, to_ctx := self\<rparr>) (thr_ops w q) else thr_ops w q)\<rparr>"

lemma claimed_Nil [simp]: "claimed_thr [] self w = w"
proof -
  have "(\<lambda>q. refs w q + (if q = self then int (length ([] :: ptr list)) else 0)) = refs w"
    by (simp add: fun_eq_iff)
  then show ?thesis by (simp add: claimed_thr_def)
qed

lemma claim_step:
  assumes "thr_ops w self = None" "thr_ops w p = Some x"
  shows "Py_INCREF self (Py_INCREF p (upd_op_thr p (\<lambda>x. x\<lparr>to_ctx := self\<rparr>)
           (upd_op_thr p (\<lambda>x. x\<lparr>to_in_progress := 1\<rparr>) w))) = claimed_thr [p] self w"
  using assms by (auto simp: claimed_thr_def upd_op_thr_def Py_INCREF_def fun_eq_iff)

lemma claimed_Cons:
  assumes "thr_ops w self = None" "p \<notin> set cs"
  shows "claimed_thr cs self (claimed_thr [p] self w) = claimed_thr (p # cs) self w"
  using assms by (auto simp: claimed_thr_def fun_eq_iff)

text \<open>An Operation that is already claimed is skipped: the atomic exchange changes nothing.\<close>

lemma skip_step:
  "thr_ops w p = Some x \<Longrightarrow> to_in_progress x = 1 \<Longrightarrow> upd_op_thr p (\<lambda>x. x\<lparr>to_in_progress := 1\<rparr>) w = w"
proof -
  assume op: "thr_ops w p = Some x" and "to_in_progress x = 1"
  then have "x\<lparr>to_in_progress := 1\<rparr> = x" by (cases x) simp
  with op have "(thr_ops w)(p := map_option (\<lambda>x. x\<lparr>to_in_progress := 1\<rparr>) (thr_ops w p)) = thr_ops w"
    by (simp add: fun_upd_idem)
  then show ?thesis by (simp add: upd_op_thr_def)
qed

text \<open>Rolling a claim back restores the state from before the claim.\<close>

lemma rollback_step:
  assumes "thr_ops w self = None" "thr_ops w p = Some x" "to_in_progress x = 0" "to_ctx x = NULL"
    and "0 < refs w p" "0 < refs w self"
  shows "decref_ctx_thr env self (decref_op_thr env p
           (upd_op_thr p (\<lambda>x. x\<lparr>to_in_progress := 0, to_ctx := NULL\<rparr>) (claimed_thr [p] self w))) = w"
proof -
  have ne: "p \<noteq> self" using assms by auto
  let ?w1 = "upd_op_thr p (\<lambda>x. x\<lparr>to_in_progress := 0, to_ctx := NULL\<rparr>) (claimed_thr [p] self w)"
  have "x\<lparr>to_in_progress := 0, to_ctx := NULL\<rparr> = x" using assms(3,4) by (cases x) simp
  then have ops: "thr_ops ?w1 = thr_ops w"
    using assms(2) by (auto simp: claimed_thr_def fun_eq_iff)
  have refs: "refs (claimed_thr [p] self w) = (refs w)(p := refs w p + 1, self := refs w self + 1)"
    using ne by (auto simp: claimed_thr_def fun_eq_iff)
  have "decref_ctx_thr env self (decref_op_thr env p ?w1) =
      ?w1\<lparr>refs := (refs (claimed_thr [p] self w))(p := refs w p, self := refs w self)\<rparr>"
    using assms(5,6) ne by (simp add: decref_op_thr_def decref_ctx_thr_def decref_alive refs)
  also have "\<dots> = ?w1\<lparr>refs := refs w\<rparr>" by (simp add: refs fun_upd_idem)
  also have "\<dots> = w"
    using ops by (simp add: claimed_thr_def upd_op_thr_def)
  finally show ?thesis .
qed

text \<open>
  The whole loop, with working pthreads: some operations \<open>cs\<close>, in the order of the
  arguments, are claimed and queued; the state is otherwise unchanged, also when the loop
  ends in an error.
\<close>

abbreviation free_thr :: "thr_world \<Rightarrow> ptr \<Rightarrow> bool" where
  "free_thr w p \<equiv> to_in_progress (op_thr w p) = 0"

text \<open>
  The free ones among some arguments, in their order; an argument given twice counts where
  it stands first.
\<close>

fun claims_of :: "(ptr \<Rightarrow> bool) \<Rightarrow> ptr list \<Rightarrow> ptr list" where
  "claims_of free [] = []"
| "claims_of free (p # ps) = (if free p then p # claims_of (free(p := False)) ps else claims_of free ps)"

lemma claims_of_set: "set (claims_of free ps) = {p \<in> set ps. free p}"
  by (induction ps arbitrary: free) (auto split: if_splits)

lemma claims_of_distinct: "distinct (claims_of free ps)"
  by (induction ps arbitrary: free) (simp_all add: claims_of_set)

lemma claims_of_subseq: "subseq (claims_of free ps) ps"
  by (induction ps arbitrary: free) auto

text \<open>
  The arguments up to where the loop stopped: all of them on success, otherwise those before
  the one that was refused.
\<close>

definition claimed_prefix :: "thr_world \<Rightarrow> ptr list \<Rightarrow> pyexc option \<Rightarrow> ptr list \<Rightarrow> thr_world \<Rightarrow> bool" where
  "claimed_prefix w ps exc cs w' \<longleftrightarrow> (\<exists>pre rest. ps = pre @ rest \<and> cs = claims_of (free_thr w) pre \<and>
     (if exc = None then rest = [] else \<exists>q qs. rest = q # qs \<and> free_thr w' q))"

definition dispatched :: "ptr \<Rightarrow> ptr list \<Rightarrow> threadpool_t \<Rightarrow> thr_world \<Rightarrow> pyexc option \<Rightarrow> ptr list
    \<Rightarrow> threadpool_t \<Rightarrow> thr_world \<Rightarrow> bool" where
  "dispatched self ps pool w exc cs pool' w' \<longleftrightarrow>
     w' = claimed_thr cs self w \<and> claimed_prefix w ps exc cs w' \<and> distinct cs \<and> set cs \<subseteq> set ps \<and>
     (\<forall>p\<in>set cs. to_in_progress (op_thr w p) = 0) \<and>
     pool_wf pool' \<and> tp_list pool' = tp_list pool @ map task_of cs \<and>
     (exc = None \<longrightarrow> (\<forall>p\<in>set ps. to_in_progress (op_thr w' p) = 1)) \<and>
     (exc \<noteq> None \<longrightarrow>
        exc = fst (process_pool_error threadpool_queue_full) \<and> tp_count pool' = tp_queue_size pool' \<or>
        exc = fst (process_pool_error threadpool_shutdown) \<and> tp_shutdown pool' \<noteq> None)"

lemma claimed_ops_ok: "ops_ok_thr w \<Longrightarrow> ops_ok_thr (claimed_thr cs self w)"
  by (auto simp: ops_ok_thr_def claimed_thr_def split: if_splits)

lemma claimed_thr_None: "thr_ops (claimed_thr cs self w) q = None \<longleftrightarrow> thr_ops w q = None"
  by (simp add: claimed_thr_def)

lemma claimed_stays:
  "thr_ops w p \<noteq> None \<Longrightarrow> to_in_progress (op_thr w p) = 1 \<Longrightarrow>
     to_in_progress (op_thr (claimed_thr cs self w) p) = 1"
  by (auto simp: claimed_thr_def op_thr_def)

lemma claimed_prefix_Cons:
  assumes "claimed_prefix (claimed_thr [p] self w) ps exc cs w'"
    and "thr_ops w p = Some x" "to_in_progress x = 0"
  shows "claimed_prefix w (p # ps) exc (p # cs) w'"
proof -
  from assms(1) obtain pre rest where pre: "ps = pre @ rest" "cs = claims_of (free_thr (claimed_thr [p] self w)) pre"
    and stop: "if exc = None then rest = [] else \<exists>q qs. rest = q # qs \<and> free_thr w' q"
    by (auto simp: claimed_prefix_def)
  have "free_thr (claimed_thr [p] self w) = (free_thr w)(p := False)"
    using assms(2,3) by (auto simp: fun_eq_iff op_thr_def claimed_thr_def)
  then have "p # cs = claims_of (free_thr w) (p # pre)" using assms(2,3) pre(2) by (simp add: op_thr_def)
  then show ?thesis unfolding claimed_prefix_def using pre(1) stop
    by (intro exI [of _ "p # pre"] exI [of _ rest]) simp
qed

lemma claimed_prefix_skip:
  assumes "claimed_prefix w ps exc cs w'" and "\<not> free_thr w p"
  shows "claimed_prefix w (p # ps) exc cs w'"
proof -
  from assms(1) obtain pre rest where "ps = pre @ rest" "cs = claims_of (free_thr w) pre"
    and "if exc = None then rest = [] else \<exists>q qs. rest = q # qs \<and> free_thr w' q"
    by (auto simp: claimed_prefix_def)
  then show ?thesis unfolding claimed_prefix_def using assms(2)
    by (intro exI [of _ "p # pre"] exI [of _ rest]) simp
qed

lemma dispatched_Cons:
  assumes disp: "dispatched self ps pool1 (claimed_thr [p] self w) exc cs pool' w'"
    and op: "thr_ops w p = Some x" "to_in_progress x = 0" and self: "thr_ops w self = None"
    and pool1: "tp_list pool1 = tp_list pool @ [task_of p]"
  shows "dispatched self (p # ps) pool w exc (p # cs) pool' w'"
proof -
  note d = disp [unfolded dispatched_def]
  have "to_in_progress (op_thr (claimed_thr [p] self w) p) = 1"
    using op by (simp add: op_thr_def claimed_thr_def)
  then have notin: "p \<notin> set cs" and "to_in_progress (op_thr w' p) = 1"
    using d claimed_stays [of "claimed_thr [p] self w" p cs self] op by (auto simp: claimed_thr_None)
  moreover have "to_in_progress (op_thr w q) = 0" if "q \<in> set cs" for q
  proof -
    have "q \<noteq> p" using that notin by blast
    then have "op_thr (claimed_thr [p] self w) q = op_thr w q" by (simp add: op_thr_def claimed_thr_def)
    with d that show ?thesis by metis
  qed
  moreover have "claimed_prefix w (p # ps) exc (p # cs) w'"
    using d by (intro claimed_prefix_Cons [OF _ op]) blast
  ultimately show ?thesis
    using d pool1 op claimed_Cons [OF self notin] by (auto simp: dispatched_def op_thr_def)
qed

lemma submit_loop_dispatches:
  assumes "\<forall>i. \<exists>k. pe i = pthread_ok k" and "pool_wf pool" and "ops_ok_thr w"
    and "thr_ops w self = None" and "0 < refs w self"
    and "\<forall>p\<in>set ps. thr_ops w p \<noteq> None \<and> 0 < refs w p"
    and "submit_loop_thr pe env self ps pool j w = (exc, j', pool', w')"
  shows "\<exists>cs. j' = j + length cs \<and> dispatched self ps pool w exc cs pool' w'"
  using assms(2-)
proof (induction ps arbitrary: pool j w)
  case Nil
  then show ?case by (intro exI [of _ "[]"]) (auto simp: dispatched_def claimed_prefix_def)
next
  case (Cons p ps)
  from Cons.prems obtain x where x: "thr_ops w p = Some x" and xref: "0 < refs w p" by auto
  have "to_in_progress x = 0 \<and> to_ctx x = NULL \<or> to_in_progress x = 1"
    using Cons.prems(2) x by (auto simp: ops_ok_thr_def)
  then show ?case
  proof
    assume claimed: "to_in_progress x = 1"
    then have "submit_loop_thr pe env self ps pool j w = (exc, j', pool', w')"
      using Cons.prems(6) x by (simp add: op_thr_def skip_step)
    from Cons.IH [OF Cons.prems(1-4) _ this] Cons.prems(5)
    obtain cs where "j' = j + length cs" and d: "dispatched self ps pool w exc cs pool' w'" by auto
    moreover have "to_in_progress (op_thr w' p) = 1"
      using d x claimed claimed_stays [of w p cs self] by (simp add: dispatched_def op_thr_def)
    moreover have "claimed_prefix w (p # ps) exc cs w'"
      by (rule claimed_prefix_skip) (use d x claimed in \<open>auto simp: dispatched_def op_thr_def\<close>)
    ultimately show ?thesis by (intro exI [of _ cs]) (auto simp: dispatched_def)
  next
    assume free: "to_in_progress x = 0 \<and> to_ctx x = NULL"
    let ?w1 = "claimed_thr [p] self w"
    obtain k where k: "pe j = pthread_ok k" using assms(1) by blast
    obtain res pool1 where add: "threadpool_add (pe j) (Some pool) worker_fn p = (res, Some pool1)"
      by (simp add: threadpool_add_def worker_fn_def k case_prod_beta)
    note r = threadpool_add_ok [OF Cons.prems(1) _ add [unfolded k]]
    have fn: "worker_fn \<noteq> NULL" by (simp add: worker_fn_def)
    note step = claim_step [OF Cons.prems(3) x]
    show ?thesis
    proof (cases "res = 0")
      case True
      then have "submit_loop_thr pe env self ps pool1 (Suc j) ?w1 = (exc, j', pool', w')"
        using Cons.prems(6) x free add by (simp add: op_thr_def step process_pool_error_def)
      moreover have "ops_ok_thr ?w1" by (rule claimed_ops_ok) (rule Cons.prems)
      moreover have "0 < refs ?w1 self" "\<forall>q\<in>set ps. thr_ops ?w1 q \<noteq> None \<and> 0 < refs ?w1 q"
        using Cons.prems by (auto simp: claimed_thr_None) (auto simp: claimed_thr_def)
      ultimately obtain cs where "j' = Suc j + length cs" and "dispatched self ps pool1 ?w1 exc cs pool' w'"
        using Cons.IH [of pool1 ?w1 "Suc j"] r(1) [OF fn] Cons.prems(3) by (auto simp: claimed_thr_None)
      moreover have "tp_list pool1 = tp_list pool @ [task_of p]"
        using r(4) [OF fn] True by simp
      ultimately show ?thesis
        using dispatched_Cons x free Cons.prems(3) by (intro exI [of _ "p # cs"]) auto
    next
      case False
      have res: "res = threadpool_queue_full \<or> res = threadpool_shutdown"
        using r(3) [OF fn] False by (auto split: if_splits)
      then have "exc = fst (process_pool_error res)" "j' = j" "pool' = pool1" "w' = w"
        using Cons.prems x free add rollback_step [OF Cons.prems(3) x _ _ xref Cons.prems(4)]
        by (auto simp: op_thr_def step process_pool_error_def)
      moreover from this have "claimed_prefix w (p # ps) exc [] w'"
        using res x free unfolding claimed_prefix_def
        by (intro exI [of _ "[]"] exI [of _ "p # ps"]) (auto simp: process_pool_error_def op_thr_def)
      ultimately show ?thesis
        using res r(1,3,4,6,8,10) [OF fn] False
        by (intro exI [of _ "[]"]) (auto simp: dispatched_def process_pool_error_def split: if_splits)
    qed
  qed
qed

section \<open>The worker in closed form\<close>

text \<open>What a worker leaves in an Operation whose system call answered \<open>ans\<close>.\<close>

definition completed_op_thr :: "sys_answer \<Rightarrow> AIOOperation_thr \<Rightarrow> AIOOperation_thr" where
  "completed_op_thr ans x =
     (let result = (ucast (sa_ret ans) :: u32) in
      x\<lparr>to_ctx := NULL, to_result := result,
        to_error := (if sint result < 0 then word_of_int (sa_errno ans) else 0),
        to_buf_size := (if to_opcode x = THAIO_READ then scast result else to_buf_size x),
        to_py_buffer := (if to_opcode x = THAIO_WRITE then NULL else to_py_buffer x),
        to_done := 1\<rparr>)"

lemma completed_op_fields [simp]:
  "to_done (completed_op_thr ans x) = 1" "to_in_progress (completed_op_thr ans x) = to_in_progress x"
  "to_opcode (completed_op_thr ans x) = to_opcode x" "to_buf (completed_op_thr ans x) = to_buf x"
  "to_ctx (completed_op_thr ans x) = NULL" "to_callback (completed_op_thr ans x) = to_callback x"
  "to_result (completed_op_thr ans x) = ucast (sa_ret ans)" "to_pad (completed_op_thr ans x) = to_pad x"
  "to_error (completed_op_thr ans x) = (if sint (ucast (sa_ret ans) :: u32) < 0 then word_of_int (sa_errno ans) else 0)"
  "to_buf_size (completed_op_thr ans x) =
     (if to_opcode x = THAIO_READ then scast (ucast (sa_ret ans) :: u32) else to_buf_size x)"
  "to_py_buffer (completed_op_thr ans x) = (if to_opcode x = THAIO_WRITE then NULL else to_py_buffer x)"
  by (simp_all add: completed_op_thr_def Let_def)

definition worker_mem :: "sys_answer \<Rightarrow> AIOOperation_thr \<Rightarrow> (ptr \<Rightarrow> u8 list option) \<Rightarrow> ptr \<Rightarrow> u8 list option" where
  "worker_mem ans x m =
     (if to_opcode x = THAIO_READ
      then m(to_buf x := map_option (\<lambda>old. sa_data ans @ drop (length (sa_data ans)) old) (m (to_buf x)))
      else m)"

lemma op_thr_upd:
  "thr_ops w p = Some x \<Longrightarrow> op_thr (upd_op_thr p f w) p = f x"
  by (simp add: op_thr_def)

lemma worker_syscall_closed:
  assumes "thr_ops w p = Some x"
  shows "worker_syscall env p w =
    (let ans = te_kernel env (worker_call env x); result = ucast (sa_ret ans) in
     (result, w\<lparr>mem := worker_mem ans x (mem w),
       thr_ops := (thr_ops w)(p := Some (x\<lparr>to_ctx := NULL, to_result := result,
         to_error := (if sint result < 0 then word_of_int (sa_errno ans) else to_error x),
         to_buf_size := (if to_opcode x = THAIO_READ then scast result else to_buf_size x)\<rparr>))\<rparr>))"
  using assms
  by (simp add: worker_syscall_def op_thr_def upd_op_thr_def store_bytes_def worker_mem_def Let_def)

text \<open>A write gives its payload up before it is published; the object may die there.\<close>

definition drop_payload :: "AIOOperation_thr \<Rightarrow> thr_world \<Rightarrow> thr_world" where
  "drop_payload x w = (if to_opcode x = THAIO_WRITE then Py_XDECREF (to_py_buffer x) w else w)"

lemma drop_payload_frame [simp]:
  "thr_ops (drop_payload x w) = thr_ops w" "thr_ctxs (drop_payload x w) = thr_ctxs w"
  "refs (drop_payload x w) = (\<lambda>q. refs w q -
     (if to_opcode x = THAIO_WRITE \<and> q = to_py_buffer x \<and> q \<noteq> NULL then 1 else 0))"
  by (auto simp: drop_payload_def Py_XDECREF_def rt_simps fun_eq_iff)

lemma drop_payload_other [simp]: "to_opcode x \<noteq> THAIO_WRITE \<Longrightarrow> drop_payload x w = w"
  by (simp add: drop_payload_def)

lemma xdecref_ops:
  "Py_XDECREF q (w\<lparr>thr_ops := f\<rparr>) = (Py_XDECREF q w)\<lparr>thr_ops := f\<rparr>"
  "thr_ops (Py_XDECREF q w) = thr_ops w"
  by (simp_all add: Py_XDECREF_def Py_DECREF_def decref_with_def py_dealloc_def emit_def Let_def)

lemma drop_payload_ops: "drop_payload x (w\<lparr>thr_ops := f\<rparr>) = (drop_payload x w)\<lparr>thr_ops := f\<rparr>"
  by (simp add: drop_payload_def xdecref_ops)

text \<open>
  The callback of an operation at \<open>p\<close> that only looks: it sees the operation's record and the
  result and returns or raises.
\<close>

abbreviation looks_at :: "ptr \<Rightarrow> (AIOOperation_thr \<Rightarrow> pyval \<Rightarrow> bool) \<Rightarrow> thr_env \<Rightarrow> bool" where
  "looks_at p verdict env \<equiv> te_call env = (\<lambda>cb v w. (verdict (op_thr w p) v, w))"

lemma worker_call_closed:
  assumes "looks_at p verdict env" and "thr_ops w p = Some z" and "cb \<noteq> NULL \<Longrightarrow> 0 < refs w cb"
  shows "(if cb = NULL then Py_XINCREF cb w
     else let (ok, w) = te_call env cb v (emit (Ev_Callback cb v) (Py_XINCREF cb w));
              w = (if ok then w else emit (Ev_Unraisable cb) w)
          in Py_DECREF cb w) = w\<lparr>trace := trace w @ callback_events (\<lambda>_. verdict z) cb v\<rparr>"
proof (cases "cb = NULL")
  case True
  then show ?thesis by (simp add: Py_XINCREF_def callback_events_def)
next
  case False
  moreover from this have "0 < refs w cb" by (rule assms)
  ultimately show ?thesis
    using assms(1,2) by (simp add: Py_XINCREF_def callback_events_def emit_def Py_INCREF_def Py_DECREF_def
        op_thr_def decref_alive)
qed

lemma worker_finish_closed:
  assumes op: "thr_ops w p = Some y" and look: "looks_at p verdict env"
    and cb: "to_callback y \<noteq> NULL \<Longrightarrow> 0 < refs w (to_callback y) \<and>
       (to_opcode y = THAIO_WRITE \<longrightarrow> to_callback y \<noteq> to_py_buffer y)"
    and refs: "1 < refs w p" "1 < refs w c" and ne: "p \<noteq> c"
    and pb: "to_opcode y = THAIO_WRITE \<Longrightarrow> to_py_buffer y \<noteq> p \<and> to_py_buffer y \<noteq> c"
  defines "v \<equiv> drop_payload y w"
    and "z \<equiv> y\<lparr>to_py_buffer := (if to_opcode y = THAIO_WRITE then NULL else to_py_buffer y), to_done := 1\<rparr>"
  shows "worker_finish env p c r w =
    v\<lparr>thr_ops := (thr_ops w)(p := Some z),
      trace := trace v @ callback_events (\<lambda>_. verdict z) (to_callback y) (PyLong (sint r)),
      refs := (\<lambda>q. refs v q - (if q = p \<or> q = c then 1 else 0))\<rparr>"
proof -
  let ?v = "v\<lparr>thr_ops := (thr_ops w)(p := Some z)\<rparr>" and ?cb = "to_callback y"
  let ?t = "trace v @ callback_events (\<lambda>_. verdict z) ?cb (PyLong (sint r))"
  have "y\<lparr>to_py_buffer := to_py_buffer y, to_done := 1\<rparr> = y\<lparr>to_done := 1\<rparr>" by (cases y) simp
  then have published: "upd_op_thr p (\<lambda>x. x\<lparr>to_done := 1\<rparr>)
      (if to_opcode (op_thr w p) = THAIO_WRITE
       then Py_XDECREF (to_py_buffer (op_thr w p)) (upd_op_thr p (\<lambda>x. x\<lparr>to_py_buffer := NULL\<rparr>) w)
       else w) = ?v"
    using op by (cases "to_opcode y = THAIO_WRITE")
      (simp_all add: op_thr_def v_def z_def upd_op_thr_def xdecref_ops drop_payload_def)
  have z: "thr_ops ?v p = Some z" and cbp: "to_callback (op_thr ?v p) = ?cb"
    by (simp_all add: z_def op_thr_def)
  have alive: "?cb \<noteq> NULL \<Longrightarrow> 0 < refs ?v ?cb" using cb by (auto simp: v_def)
  have rv: "1 < refs v p" "1 < refs v c" using refs pb by (auto simp: v_def)
  have "worker_finish env p c r w = decref_op_thr env p (decref_ctx_thr env c (?v\<lparr>trace := ?t\<rparr>))"
    using worker_call_closed [OF look z alive, of "PyLong (sint r)"]
    unfolding worker_finish_def published Let_def cbp by simp
  also have "\<dots> = ?v\<lparr>trace := ?t, refs := (refs v)(c := refs v c - 1, p := refs v p - 1)\<rparr>"
    using rv ne by (simp add: decref_op_thr_def decref_ctx_thr_def decref_alive)
  also have "(refs v)(c := refs v c - 1, p := refs v p - 1) = (\<lambda>q. refs v q - (if q = p \<or> q = c then 1 else 0))"
    using ne by (auto simp: fun_eq_iff)
  finally show ?thesis by (simp add: fun_upd_def)
qed

text \<open>
  The whole worker on an Operation whose references are not the last, with or without a
  callback, of every opcode: the fields above, the memory, the callback's events, and the
  references it held on the Operation, the Context and a written payload given back.
\<close>

lemma worker_closed:
  fixes env :: thr_env
  assumes op: "thr_ops w p = Some x" and code: "to_opcode x \<noteq> THAIO_NOOP" and look: "looks_at p verdict env"
    and cb: "to_callback x \<noteq> NULL \<Longrightarrow> 0 < refs w (to_callback x) \<and>
       (to_opcode x = THAIO_WRITE \<longrightarrow> to_callback x \<noteq> to_py_buffer x)"
    and refs: "1 < refs w p" "1 < refs w (to_ctx x)" and ne: "p \<noteq> to_ctx x"
    and pb: "to_opcode x = THAIO_WRITE \<Longrightarrow> to_py_buffer x \<noteq> p \<and> to_py_buffer x \<noteq> to_ctx x"
  defines "ans \<equiv> te_kernel env (worker_call env (x\<lparr>to_ctx := NULL, to_error := 0\<rparr>))"
    and "v \<equiv> drop_payload x w"
  shows "worker env p w =
    v\<lparr>mem := worker_mem ans x (mem v), thr_ops := (thr_ops w)(p := Some (completed_op_thr ans x)),
      trace := trace v @ callback_events (\<lambda>_. verdict (completed_op_thr ans x)) (to_callback x)
        (PyLong (sint (ucast (sa_ret ans) :: u32))),
      refs := (\<lambda>q. refs v q - (if q = p \<or> q = to_ctx x then 1 else 0))\<rparr>"
proof -
  let ?x = "x\<lparr>to_ctx := NULL, to_error := 0\<rparr>"
  let ?w1 = "upd_op_thr p (\<lambda>x. x\<lparr>to_ctx := NULL, to_error := 0\<rparr>) w"
  have start: "worker_begin p w = (to_ctx x, ?w1)"
    using op by (simp add: worker_begin_def op_thr_def)
  have op1: "thr_ops ?w1 p = Some ?x" and code1: "to_opcode (op_thr ?w1 p) \<noteq> THAIO_NOOP"
    using op code by (simp_all add: op_thr_def)
  let ?r = "ucast (sa_ret ans) :: u32" and ?z = "completed_op_thr ans x"
  define y where "y = x\<lparr>to_ctx := NULL, to_result := ?r,
      to_error := (if sint ?r < 0 then word_of_int (sa_errno ans) else 0),
      to_buf_size := (if to_opcode x = THAIO_READ then scast ?r else to_buf_size x)\<rparr>"
  have y: "to_callback y = to_callback x" "to_py_buffer y = to_py_buffer x" "to_opcode y = to_opcode x"
    and z: "y\<lparr>to_py_buffer := (if to_opcode y = THAIO_WRITE then NULL else to_py_buffer y), to_done := 1\<rparr> = ?z"
    by (simp_all add: y_def completed_op_thr_def Let_def)
  let ?w2 = "w\<lparr>mem := worker_mem ans x (mem w), thr_ops := (thr_ops w)(p := Some y)\<rparr>"
  have mem_eq: "worker_mem ans ?x = worker_mem ans x"
    by (simp add: worker_mem_def fun_eq_iff)
  have "worker_syscall env p ?w1 = (?r, ?w2)"
    unfolding worker_syscall_closed [OF op1] Let_def ans_def [symmetric]
    using op by (simp add: mem_eq y_def)
  then have "worker env p w = worker_finish env p (to_ctx x) ?r ?w2"
    using code1 by (simp add: worker_def start)
  also have "\<dots> = (drop_payload y ?w2)\<lparr>thr_ops := (thr_ops w)(p := Some ?z),
      trace := trace (drop_payload y ?w2) @ callback_events (\<lambda>_. verdict ?z) (to_callback x) (PyLong (sint ?r)),
      refs := (\<lambda>q. refs (drop_payload y ?w2) q - (if q = p \<or> q = to_ctx x then 1 else 0))\<rparr>"
    by (subst worker_finish_closed [where y = y, OF _ look, unfolded z, unfolded y]) (use refs ne cb pb in simp_all)
  also have "drop_payload y ?w2 =
      v\<lparr>mem := worker_mem ans x (mem v), thr_ops := (thr_ops w)(p := Some y)\<rparr>"
    unfolding drop_payload_ops
    by (cases "to_opcode x = THAIO_WRITE") (simp_all add: drop_payload_def worker_mem_def v_def y)
  finally show ?thesis by (simp add: fun_upd_def)
qed

end
