(* ===== verification/Thread_Claims.thy ===== *)
theory Thread_Claims
  imports Thread_Properties
begin

text \<open>
  The properties of the thread backend that a caller of the module relies on, and the
  deviations that modelling it showed.
\<close>

section \<open>A small world for the examples\<close>

text \<open>
  One Context at address 1 with an empty pool of four slots, one Operation at address 2, a
  block of three bytes at address 3 and a bytes object or memoryview at address 4.
\<close>

definition ex_ctx :: AIOContext_thr where
  "ex_ctx = zero_ctx_thr\<lparr>tc_pool := Some (empty_pool 4)\<rparr>"

definition ex_op :: "THAIO_OP_CODE \<Rightarrow> AIOOperation_thr" where
  "ex_op code = zero_op_thr\<lparr>to_opcode := code, to_py_buffer := 4, to_buf := 3, to_buf_size := 3\<rparr>"

definition ex_world :: "AIOOperation_thr \<Rightarrow> thr_world" where
  "ex_world x = \<lparr>refs = (\<lambda>_. 0)(1 := 1, 2 := 1, 4 := 2), mem = [3 \<mapsto> [0, 0, 0]], bytes_at = (\<lambda>_. NULL),
     trace = [], thr_ops = [2 \<mapsto> x], thr_ctxs = [1 \<mapsto> ex_ctx]\<rparr>"

definition ex_env :: "sys_answer \<Rightarrow> thr_env" where
  "ex_env ans = \<lparr>te_destroy = pthread_ok {}, te_joins = (\<lambda>_. 0), te_pool_meanwhile = id,
     te_others = id, te_call = (\<lambda>_ _ w. (True, w)), te_kernel = (\<lambda>_. ans), te_have_fdatasync = True\<rparr>"

definition ex_read_ok :: sys_answer where
  "ex_read_ok = \<lparr>sa_ret = 2, sa_errno = 0, sa_data = [7, 8]\<rparr>"

lemmas ex_defs = ex_world_def ex_op_def ex_ctx_def ex_env_def ex_read_ok_def zero_op_thr_def zero_ctx_thr_def

lemma ex_pool: "pool_wf (empty_pool 4)" "tp_list (empty_pool 4) = []"
  by (rule empty_pool_wf) (simp_all add: empty_pool_def tp_list_def)

lemma ex_free [simp]: "to_in_progress (ex_op code) = 0" "to_ctx (ex_op code) = NULL"
  by (simp_all add: ex_op_def zero_op_thr_def)

lemma ex_ops_ok: "to_in_progress x = 0 \<Longrightarrow> to_ctx x = NULL \<Longrightarrow> ops_ok_thr (ex_world x)"
  by (simp add: ops_ok_thr_def ex_world_def)

section \<open>Submitting\<close>

lemma submit_unfold:
  assumes "thr_ctxs w self = Some c" "tc_pool c = Some pool" "self \<noteq> NULL"
    and "\<forall>p\<in>set ps. thr_ops w p \<noteq> None"
    and "submit_loop_thr pe env self ps pool 0 w = (exc, j, pool', w')"
  shows "AIOContext_submit_thr pe env True self (Some ps) w =
    ((case exc of None \<Rightarrow> Ret (PyLong (int j)) | Some e \<Rightarrow> Raise e),
     upd_ctx_thr self (\<lambda>c. c\<lparr>tc_pool := Some pool'\<rparr>) w')"
  using assms wrong_type_None [of "thr_ops w" 0 ps]
  by (auto simp: AIOContext_submit_thr_def split: option.splits)

lemma pool_error_exc:
  "fst (process_pool_error threadpool_queue_full) =
     Some (PyErr_SetString PyExc_RuntimeError ''Thread pool queue full'')"
  "fst (process_pool_error threadpool_shutdown) =
     Some (PyErr_SetString PyExc_RuntimeError ''Thread pool is shutdown'')"
  by (simp_all add: process_pool_error_def)

lemma submit_dispatches:
  assumes "\<forall>i. \<exists>k. pe i = pthread_ok k"
    and "thr_ctxs w self = Some c" and "tc_pool c = Some pool" and "pool_wf pool"
    and "ops_ok_thr w" and "thr_ops w self = None" and "self \<noteq> NULL" and "0 < refs w self"
    and "\<forall>p\<in>set ps. thr_ops w p \<noteq> None \<and> 0 < refs w p"
    and "AIOContext_submit_thr pe env True self (Some ps) w = (res, w')"
  obtains exc cs pool' v where "dispatched self ps pool w exc cs pool' v"
    and "res = (case exc of None \<Rightarrow> Ret (PyLong (int (length cs))) | Some e \<Rightarrow> Raise e)"
    and "w' = upd_ctx_thr self (\<lambda>c. c\<lparr>tc_pool := Some pool'\<rparr>) v"
proof -
  obtain exc j pool' v where loop: "submit_loop_thr pe env self ps pool 0 w = (exc, j, pool', v)"
    by (metis prod_cases4)
  from submit_loop_dispatches [OF assms(1,4-6,8,9) this]
  obtain cs where "j = length cs" and "dispatched self ps pool w exc cs pool' v" by auto
  with submit_unfold [OF assms(2,3,7) _ loop] assms(9,10) show thesis by (intro that) auto
qed

text \<open>
  C9. \<^verbatim>\<open>Context.submit\<close> with working pthreads. The arguments up to some point, \<open>pre\<close>, were
  gone through in order. The claimed operations \<open>cs\<close> are exactly the free ones of \<open>pre\<close>, in
  the order in which they stand there first, none twice, and exactly their tasks are
  appended to the pool's queue in that order; apart from the claims (flag, Context, one
  reference on the operation and one on the Context each) the state is unchanged. On success
  \<open>pre\<close> is all the arguments and the number returned counts \<open>cs\<close>; an exception means that the
  queue is full or the pool is shutting down, and then the argument right after \<open>pre\<close> was
  refused, and it is free and as it was.
\<close>

theorem thr_submit_spec:
  assumes "\<forall>i. \<exists>k. pe i = pthread_ok k"
    and "thr_ctxs w self = Some c" and "tc_pool c = Some pool" and "pool_wf pool"
    and "ops_ok_thr w" and "thr_ops w self = None" and "self \<noteq> NULL" and "0 < refs w self"
    and "\<forall>p\<in>set ps. thr_ops w p \<noteq> None \<and> 0 < refs w p"
    and "AIOContext_submit_thr pe env True self (Some ps) w = (res, w')"
  shows "\<exists>pre rest cs pool'. ps = pre @ rest \<and> cs = claims_of (\<lambda>p. to_in_progress (op_thr w p) = 0) pre \<and>
     subseq cs pre \<and> distinct cs \<and> set cs = {p \<in> set pre. to_in_progress (op_thr w p) = 0} \<and>
     w' = upd_ctx_thr self (\<lambda>c. c\<lparr>tc_pool := Some pool'\<rparr>) (claimed_thr cs self w) \<and>
     pool_wf pool' \<and> tp_list pool' = tp_list pool @ map task_of cs \<and>
     (res = Ret (PyLong (int (length cs))) \<and> rest = [] \<or>
      (\<exists>q qs. rest = q # qs \<and> thr_ops w' q = thr_ops w q \<and> to_in_progress (op_thr w q) = 0) \<and>
      (res = Raise (PyErr_SetString PyExc_RuntimeError ''Thread pool queue full'') \<and>
         length (tp_list pool') = nat (tp_queue_size pool') \<or>
       res = Raise (PyErr_SetString PyExc_RuntimeError ''Thread pool is shutdown'') \<and>
         tp_shutdown pool' \<noteq> None))"
proof -
  obtain exc cs pool' v where d: "dispatched self ps pool w exc cs pool' v"
    and res: "res = (case exc of None \<Rightarrow> Ret (PyLong (int (length cs))) | Some e \<Rightarrow> Raise e)"
    and w': "w' = upd_ctx_thr self (\<lambda>c. c\<lparr>tc_pool := Some pool'\<rparr>) v"
    by (rule submit_dispatches [OF assms])
  note d = d [unfolded dispatched_def]
  have v: "v = claimed_thr cs self w" using d by blast
  obtain pre rest where pre: "ps = pre @ rest" "cs = claims_of (free_thr w) pre"
    and stop: "if exc = None then rest = [] else \<exists>q qs. rest = q # qs \<and> free_thr v q"
    using d by (auto simp: claimed_prefix_def)
  have left: "thr_ops w' q = thr_ops w q \<and> free_thr w q" if "q \<in> set rest" "free_thr v q" for q
  proof -
    have "thr_ops w q \<noteq> None" using that(1) assms(9) pre(1) by auto
    then have "q \<notin> set cs" using that(2) by (auto simp: v claimed_thr_def op_thr_def)
    then have "thr_ops v q = thr_ops w q" by (simp add: v claimed_thr_def)
    with that(2) show ?thesis by (simp add: op_thr_def w')
  qed
  have dv: "v = claimed_thr cs self w" "pool_wf pool'" "tp_list pool' = tp_list pool @ map task_of cs"
    using d by blast+
  note full = pool_wf_room(1) [OF dv(2)]
  have sub: "ps = pre @ rest" "cs = claims_of (free_thr w) pre" "subseq cs pre" "distinct cs"
     "set cs = {p \<in> set pre. free_thr w p}"
     "w' = upd_ctx_thr self (\<lambda>c. c\<lparr>tc_pool := Some pool'\<rparr>) (claimed_thr cs self w)"
     "pool_wf pool'" "tp_list pool' = tp_list pool @ map task_of cs"
    using w' dv pre claims_of_set claims_of_distinct claims_of_subseq by simp_all
  show ?thesis
  proof (cases exc)
    case None
    then have "res = Ret (PyLong (int (length cs))) \<and> rest = []" using stop res by simp
    then show ?thesis
      by (intro exI [of _ pre] exI [of _ rest] exI [of _ cs] exI [of _ pool'] conjI sub) (rule disjI1)
  next
    case (Some e)
    then have why: "Some e = fst (process_pool_error threadpool_queue_full) \<and> tp_count pool' = tp_queue_size pool' \<or>
        Some e = fst (process_pool_error threadpool_shutdown) \<and> tp_shutdown pool' \<noteq> None"
      using d by simp
    obtain q qs where q: "rest = q # qs" "free_thr v q" using stop Some by auto
    then have "thr_ops w' q = thr_ops w q \<and> free_thr w q" by (intro left) simp_all
    with q have rest: "\<exists>q qs. rest = q # qs \<and> thr_ops w' q = thr_ops w q \<and> free_thr w q" by blast
    have "res = Raise (PyErr_SetString PyExc_RuntimeError ''Thread pool queue full'') \<and>
         length (tp_list pool') = nat (tp_queue_size pool') \<or>
       res = Raise (PyErr_SetString PyExc_RuntimeError ''Thread pool is shutdown'') \<and> tp_shutdown pool' \<noteq> None"
      using why unfolding pool_error_exc res Some option.inject option.case full by (elim disjE) simp_all
    then show ?thesis
      by (intro exI [of _ pre] exI [of _ rest] exI [of _ cs] exI [of _ pool'] conjI sub)
        (rule disjI2, rule conjI [OF rest])
  qed
qed

theorem thr_submit_spec_witness:
  "\<exists>cs pool'. distinct cs \<and> subseq cs [2, 2] \<and> set cs \<subseteq> {2} \<and> tp_list pool' = map task_of cs \<and>
     snd (AIOContext_submit_thr (\<lambda>_. pthread_ok {}) (ex_env ex_read_ok) True 1 (Some [2, 2]) (ex_world (ex_op THAIO_READ))) =
     upd_ctx_thr 1 (\<lambda>c. c\<lparr>tc_pool := Some pool'\<rparr>) (claimed_thr cs 1 (ex_world (ex_op THAIO_READ)))"
proof -
  let ?w = "ex_world (ex_op THAIO_READ)"
  obtain res w' where r: "AIOContext_submit_thr (\<lambda>_. pthread_ok {}) (ex_env ex_read_ok) True 1 (Some [2, 2]) ?w = (res, w')"
    by (metis surj_pair)
  have ok: "ops_ok_thr ?w" by (rule ex_ops_ok) simp_all
  have pe: "\<forall>i :: nat. \<exists>k. pthread_ok {} = pthread_ok k" and ne: "(1 :: ptr) \<noteq> NULL" by auto
  have c: "thr_ctxs ?w 1 = Some ex_ctx" "tc_pool ex_ctx = Some (empty_pool 4)"
    and o: "thr_ops ?w 1 = None" "0 < refs ?w 1" "\<forall>p\<in>set [2, 2]. thr_ops ?w p \<noteq> None \<and> 0 < refs ?w p"
    by (simp_all add: ex_world_def ex_ctx_def)
  from thr_submit_spec [OF pe c ex_pool(1) ok o(1) ne o(2,3) r]
  obtain pre rest cs pool' where "[2, 2] = pre @ rest" "subseq cs pre" "distinct cs"
    and "set cs = {p \<in> set pre. to_in_progress (op_thr ?w p) = 0}"
    and "w' = upd_ctx_thr 1 (\<lambda>c. c\<lparr>tc_pool := Some pool'\<rparr>) (claimed_thr cs 1 ?w)"
    and "tp_list pool' = tp_list (empty_pool 4) @ map task_of cs"
    by (elim exE conjE)
  moreover from this(1) have "set pre \<subseteq> {2}" by (metis Un_upper1 set_append list.set empty_set insert_absorb2)
  moreover have "subseq cs [2, 2]" using \<open>[2, 2] = pre @ rest\<close> \<open>subseq cs pre\<close> by (metis subseq_rev_drop_many)
  ultimately show ?thesis using r ex_pool(2) by (intro exI [of _ cs] exI [of _ pool']) auto
qed

text \<open>An argument that was claimed before is passed over.\<close>

lemma submit_loop_claimed:
  "\<forall>p\<in>set ps. \<exists>x. thr_ops w p = Some x \<and> to_in_progress x = 1 \<Longrightarrow>
     submit_loop_thr pe env self ps pool j w = (None, j, pool, w)"
proof (induction ps)
  case (Cons p ps)
  then obtain x where "thr_ops w p = Some x" "to_in_progress x = 1" by auto
  then show ?case using Cons by (simp add: op_thr_def skip_step)
qed simp

lemma upd_ctx_same:
  assumes "thr_ctxs w self = Some c" "tc_pool c = Some pool"
  shows "upd_ctx_thr self (\<lambda>c. c\<lparr>tc_pool := Some pool\<rparr>) w = w"
proof -
  have "c\<lparr>tc_pool := Some pool\<rparr> = c" using assms(2) by (cases c) simp
  then show ?thesis using assms(1) by (simp add: upd_ctx_thr_def fun_upd_idem)
qed

text \<open>
  C10. An Operation is dispatched at most once. After a \<^verbatim>\<open>submit\<close> that returned, submitting
  any of its arguments again, to the same or to another Context, in any number, returns 0
  and changes nothing.
\<close>

theorem thr_submit_once:
  assumes "\<forall>i. \<exists>k. pe i = pthread_ok k"
    and "thr_ctxs w self = Some c" and "tc_pool c = Some pool" and "pool_wf pool"
    and "ops_ok_thr w" and "thr_ops w self = None" and "self \<noteq> NULL" and "0 < refs w self"
    and "\<forall>p\<in>set ps. thr_ops w p \<noteq> None \<and> 0 < refs w p"
    and "AIOContext_submit_thr pe env True self (Some ps) w = (Ret v, w')"
    and "thr_ctxs w' self2 = Some c2" and "tc_pool c2 = Some pool2" and "self2 \<noteq> NULL"
    and "set qs \<subseteq> set ps"
  shows "AIOContext_submit_thr pe2 env2 True self2 (Some qs) w' = (Ret (PyLong 0), w')"
proof -
  obtain exc cs pool' v' where d: "dispatched self ps pool w exc cs pool' v'"
    and w': "w' = upd_ctx_thr self (\<lambda>c. c\<lparr>tc_pool := Some pool'\<rparr>) v'" and "exc = None"
    by (rule submit_dispatches [OF assms(1-10)]) (auto split: option.splits)
  moreover have v': "v' = claimed_thr cs self w" using d by (simp add: dispatched_def)
  ultimately have "\<forall>p\<in>set ps. to_in_progress (op_thr w' p) = 1"
    and "w' = upd_ctx_thr self (\<lambda>c. c\<lparr>tc_pool := Some pool'\<rparr>) (claimed_thr cs self w)"
    using d by (simp_all add: dispatched_def op_thr_def)
  moreover from this(2) have "\<forall>p\<in>set ps. thr_ops w' p \<noteq> None"
    using assms(9) by (simp add: claimed_thr_None)
  ultimately have claimed: "\<forall>p\<in>set qs. \<exists>x. thr_ops w' p = Some x \<and> to_in_progress x = 1"
    using assms(14) by (force simp: op_thr_def)
  then show ?thesis
    using submit_unfold [OF assms(11-13) _ submit_loop_claimed [OF claimed]] upd_ctx_same [OF assms(11,12)]
    by fastforce
qed

text \<open>The first submission of the example, computed.\<close>

definition ex_submitted :: "THAIO_OP_CODE \<Rightarrow> thr_world" where
  "ex_submitted code = upd_ctx_thr 1 (\<lambda>c. c\<lparr>tc_pool := Some
       ((queue_store 0 (task_of 2) (empty_pool 4))\<lparr>tp_tail := 1, tp_count := 1\<rparr>)\<rparr>)
     (claimed_thr [2] 1 (ex_world (ex_op code)))"

lemma ex_submit:
  "AIOContext_submit_thr (\<lambda>_. pthread_ok {}) env True 1 (Some [2]) (ex_world (ex_op code)) =
     (Ret (PyLong 1), ex_submitted code)"
proof -
  have op: "thr_ops (ex_world (ex_op code)) 2 = Some (ex_op code)"
    and self: "thr_ops (ex_world (ex_op code)) 1 = None" by (simp_all add: ex_world_def)
  have "threadpool_add (pthread_ok {}) (Some (empty_pool 4)) worker_fn 2 =
      (0, Some ((queue_store 0 (task_of 2) (empty_pool 4))\<lparr>tp_tail := 1, tp_count := 1\<rparr>))"
    by (simp add: threadpool_add_def threadpool_add_locked_def queue_store_def empty_pool_def worker_fn_def)
  then have loop: "submit_loop_thr (\<lambda>_. pthread_ok {}) env 1 [2] (empty_pool 4) 0 (ex_world (ex_op code)) =
      (None, 1, (queue_store 0 (task_of 2) (empty_pool 4))\<lparr>tp_tail := 1, tp_count := 1\<rparr>,
       claimed_thr [2] 1 (ex_world (ex_op code)))"
    using claim_step [OF self op] op ex_free [of code]
    by (simp add: process_pool_error_def op_thr_def Let_def)
  show ?thesis
    by (subst submit_unfold [OF _ _ _ _ loop, of ex_ctx])
      (simp_all add: ex_submitted_def, simp_all add: ex_world_def ex_ctx_def)
qed

theorem thr_submit_once_witness:
  "AIOContext_submit_thr (\<lambda>_. pthread_ok {}) (ex_env ex_read_ok) True 1 (Some [2, 2]) (ex_submitted THAIO_READ) =
     (Ret (PyLong 0), ex_submitted THAIO_READ)"
proof -
  have ok: "ops_ok_thr (ex_world (ex_op THAIO_READ))" by (rule ex_ops_ok) simp_all
  show ?thesis
    by (rule thr_submit_once [OF _ _ _ ex_pool(1) ok _ _ _ _ ex_submit])
      (auto simp: ex_submitted_def ex_world_def ex_ctx_def claimed_thr_def)
qed

section \<open>Results\<close>

lemma get_value_done:
  assumes "thr_ops w p = Some x" and "to_done x \<noteq> 0"
  shows "AIOOperation_get_value_thr p w =
    (if to_error x \<noteq> 0 then Raise (PyErr_Format PyExc_SystemError ''strerror'' [uint (to_error x)])
     else case to_opcode x of
        THAIO_READ \<Rightarrow> if to_buf x = NULL then Ret PyNone else PyBytes_FromStringAndSize (to_buf x) (to_buf_size x) w
      | THAIO_WRITE \<Rightarrow> Ret (PyLong (sint (to_result x)))
      | _ \<Rightarrow> Ret PyNone)"
  using assms by (simp add: AIOOperation_get_value_thr_def op_thr_def)

lemma nat_result:
  assumes "n < 2 ^ 31"
  shows "sint (ucast (of_nat n :: u64) :: u32) = int n" "scast (ucast (of_nat n :: u64) :: u32) = (of_nat n :: u64)"
proof -
  have "(ucast (of_nat n :: u64) :: u32) = of_nat n"
    using assms by (simp add: unsigned_of_nat take_bit_nat_eq_self)
  then show "sint (ucast (of_nat n :: u64) :: u32) = int n" "scast (ucast (of_nat n :: u64) :: u32) = (of_nat n :: u64)"
    using assms by (simp_all add: signed_of_nat signed_take_bit_int_eq_self)
qed

text \<open>The answer to a read: \<open>n\<close> bytes delivered.\<close>

abbreviation delivers :: "sys_answer \<Rightarrow> u8 list \<Rightarrow> bool" where
  "delivers ans data \<equiv> sa_ret ans = of_nat (length data) \<and> sa_data ans = data \<and> length data < 2 ^ 31"

lemma completed_read:
  assumes "delivers ans data" "to_opcode x = THAIO_READ"
  shows "completed_op_thr ans x = x\<lparr>to_ctx := NULL, to_result := ucast (sa_ret ans), to_error := 0,
     to_buf_size := of_nat (length data), to_done := 1\<rparr>"
  using assms nat_result [of "length data"] by (cases x) (simp add: completed_op_thr_def)

text \<open>
  C11. A read delivers what the kernel read. When the worker has run a read for which
  \<^verbatim>\<open>pread\<close> stored \<open>data\<close> in the buffer, \<^verbatim>\<open>get_value\<close> returns exactly \<open>data\<close>, also when fewer
  bytes came than were asked for; when \<^verbatim>\<open>pread\<close> failed it raises the error of the call
  (the low byte of \<^verbatim>\<open>errno\<close>). The read may have a callback, of which is asked that it only
  looks, whether it returns or raises; the operation is held by its owner beside the worker
  (it has more than one reference), and so is the Context.
\<close>

theorem thr_read_result:
  assumes "thr_ops w p = Some x" and "to_opcode x = THAIO_READ" and "looks_at p verdict env"
    and "to_callback x \<noteq> NULL \<longrightarrow> 0 < refs w (to_callback x)"
    and "1 < refs w p" and "1 < refs w (to_ctx x)" and "p \<noteq> to_ctx x"
    and "to_buf x \<noteq> NULL" and "mem w (to_buf x) = Some block"
    and "te_kernel env (Sys_pread (to_fileno x) (to_buf x) (worker_count x) (to_offset x)) = ans"
  shows "(\<forall>data. delivers ans data \<and> length data \<le> length block \<longrightarrow>
       AIOOperation_get_value_thr p (worker env p w) = Ret (PyBytes data)) \<and>
     (sint (ucast (sa_ret ans) :: u32) < 0 \<and> (word_of_int (sa_errno ans) :: u8) \<noteq> 0 \<longrightarrow>
       AIOOperation_get_value_thr p (worker env p w) =
         Raise (PyErr_Format PyExc_SystemError ''strerror'' [sa_errno ans mod 256]))"
proof -
  let ?w = "worker env p w"
  have "worker_call env (x\<lparr>to_ctx := NULL, to_error := 0\<rparr>) =
      Sys_pread (to_fileno x) (to_buf x) (worker_count x) (to_offset x)"
    using assms(2) by (simp add: worker_call_def worker_count_def)
  then have w': "thr_ops ?w p = Some (completed_op_thr ans x)" "mem ?w = worker_mem ans x (mem w)"
    using worker_closed [OF assms(1) _ assms(3) _ assms(5-7)] assms(2,4,10) by simp_all
  have "AIOOperation_get_value_thr p ?w = Ret (PyBytes data)"
    if d: "delivers ans data" "length data \<le> length block" for data
  proof -
    have "unat (of_nat (length data) :: u64) = length data"
      using d by (simp add: unsigned_of_nat take_bit_nat_eq_self)
    moreover have "\<not> sint (of_nat (length data) :: u64) < 0"
      using d nat_result [of "length data"] by (metis of_nat_0_le_iff linorder_not_less sint_scast_32_64)
    ultimately show ?thesis
      using get_value_done [OF w'(1) [unfolded completed_read [OF d(1) assms(2)]]] d assms(2,8,9)
      by (simp add: PyBytes_FromStringAndSize_def w'(2) worker_mem_def)
  qed
  moreover have "AIOOperation_get_value_thr p ?w =
      Raise (PyErr_Format PyExc_SystemError ''strerror'' [sa_errno ans mod 256])"
    if "sint (ucast (sa_ret ans) :: u32) < 0" "(word_of_int (sa_errno ans) :: u8) \<noteq> 0"
    using get_value_done [OF w'(1)] that
    by (simp add: uint_word_of_int)
  ultimately show ?thesis by blast
qed

text \<open>The submitted read of the example, as its worker finds it.\<close>

lemma ex_submitted_op:
  "thr_ops (ex_submitted code) 2 = Some ((ex_op code)\<lparr>to_in_progress := 1, to_ctx := 1\<rparr>)"
  "refs (ex_submitted code) = (\<lambda>_. 0)(1 := 2, 2 := 2, 4 := 2)"
  "mem (ex_submitted code) = [3 \<mapsto> [0, 0, 0]]" "trace (ex_submitted code) = []"
  by (auto simp: ex_submitted_def ex_world_def claimed_thr_def fun_eq_iff)

text \<open>The same read with a callback at address 5 that checks that it sees the result.\<close>

definition ex_callback_env :: thr_env where
  "ex_callback_env = (ex_env ex_read_ok)\<lparr>te_call :=
     (\<lambda>cb v w. (to_done (op_thr w 2) = 1 \<and> to_result (op_thr w 2) = 2 \<and> v = PyLong 2, w))\<rparr>"

lemma ex_callback_kernel: "te_kernel ex_callback_env s = ex_read_ok"
  by (simp add: ex_callback_env_def ex_env_def)

lemma ex_callback_looks:
  "looks_at 2 (\<lambda>x v. to_done x = 1 \<and> to_result x = 2 \<and> v = PyLong 2) ex_callback_env"
  by (simp add: ex_callback_env_def)

definition ex_running :: "THAIO_OP_CODE \<Rightarrow> thr_world" where
  "ex_running code = (ex_world ((ex_op code)
     \<lparr>to_callback := 5, to_in_progress := 1, to_ctx := 1\<rparr>))\<lparr>refs := (\<lambda>_. 2)\<rparr>"

lemma ex_running_op:
  "thr_ops (ex_running code) 2 = Some ((ex_op code)\<lparr>to_callback := 5, to_in_progress := 1, to_ctx := 1\<rparr>)"
  "refs (ex_running code) = (\<lambda>_. 2)" "mem (ex_running code) = [3 \<mapsto> [0, 0, 0]]" "trace (ex_running code) = []"
  by (simp_all add: ex_running_def ex_world_def)

theorem thr_read_result_witness:
  "AIOOperation_get_value_thr 2 (worker ex_callback_env 2 (ex_running THAIO_READ)) = Ret (PyBytes [7, 8])"
  using thr_read_result [OF ex_running_op(1) [of THAIO_READ] _ ex_callback_looks, of "[0, 0, 0]" ex_read_ok]
  by (simp add: ex_running_op ex_callback_kernel) (simp add: ex_defs)

text \<open>
  C12. References balance. A \<^verbatim>\<open>submit\<close> that accepted one operation takes a reference on it
  and one on the Context; the worker gives both back, and the reference on the callback that
  it takes for the call, so that afterwards every count is what it was before the
  \<^verbatim>\<open>submit\<close>, except that a write has dropped its payload (which may have been the last
  reference on it). The Context is no longer held by the operation. The operation is a read,
  a write or a sync, with a callback that only looks, returns or raises, or without one; the
  payload of a write is neither of these objects nor the callback.
\<close>

theorem thr_refs_balanced:
  fixes env2 :: thr_env
  assumes "\<forall>i. \<exists>k. pe i = pthread_ok k"
    and "thr_ctxs w self = Some c" and "tc_pool c = Some pool" and "pool_wf pool"
    and "ops_ok_thr w" and "thr_ops w self = None" and "self \<noteq> NULL" and "0 < refs w self"
    and "thr_ops w p = Some x" and "0 < refs w p" and "to_opcode x \<noteq> THAIO_NOOP" and "looks_at p verdict env2"
    and "to_callback x \<noteq> NULL \<Longrightarrow> 0 < refs w (to_callback x) \<and>
       (to_opcode x = THAIO_WRITE \<longrightarrow> to_callback x \<noteq> to_py_buffer x)"
    and "to_opcode x = THAIO_WRITE \<Longrightarrow> to_py_buffer x \<noteq> NULL \<and> to_py_buffer x \<noteq> p \<and> to_py_buffer x \<noteq> self"
    and "AIOContext_submit_thr pe env True self (Some [p]) w = (Ret (PyLong 1), w1)"
  shows "refs (worker env2 p w1) = (\<lambda>q. refs w q - (if to_opcode x = THAIO_WRITE \<and> q = to_py_buffer x then 1 else 0)) \<and>
     to_ctx (op_thr (worker env2 p w1) p) = NULL \<and> to_done (op_thr (worker env2 p w1) p) = 1"
proof -
  have "\<forall>q\<in>set [p]. thr_ops w q \<noteq> None \<and> 0 < refs w q" using assms(9,10) by simp
  then obtain exc cs pool' v where d: "dispatched self [p] pool w exc cs pool' v" and "length cs = 1"
    and w1: "w1 = upd_ctx_thr self (\<lambda>c. c\<lparr>tc_pool := Some pool'\<rparr>) v"
    by (rule submit_dispatches [OF assms(1-8) _ assms(15)]) (auto split: option.splits)
  then have cs: "cs = [p]" by (cases cs) (auto simp: dispatched_def)
  have ne: "p \<noteq> self" using assms(6,9) by auto
  have op: "thr_ops w1 p = Some (x\<lparr>to_in_progress := 1, to_ctx := self\<rparr>)"
    and refs: "refs w1 = (\<lambda>q. refs w q + (if q = p then 1 else 0) + (if q = self then 1 else 0))"
    using d w1 assms(9) by (auto simp: dispatched_def cs claimed_thr_def)
  have alive: "1 < refs w1 p" "1 < refs w1 self" using assms(8,10) by (simp_all add: refs)
  have cb: "to_callback x \<noteq> NULL \<Longrightarrow> 0 < refs w1 (to_callback x) \<and>
      (to_opcode x = THAIO_WRITE \<longrightarrow> to_callback x \<noteq> to_py_buffer x)"
    using assms(13) by (fastforce simp: refs)
  note closed = worker_closed [OF op, where env = env2 and verdict = verdict, simplified, OF assms(11,12) cb alive ne]
  have "refs (worker env2 p w1) = (\<lambda>q. refs w q - (if to_opcode x = THAIO_WRITE \<and> q = to_py_buffer x then 1 else 0))"
    using assms(14) ne by (subst closed) (auto simp: refs fun_eq_iff)
  moreover have "\<exists>ans. thr_ops (worker env2 p w1) p =
       Some (completed_op_thr ans (x\<lparr>to_in_progress := 1, to_ctx := self\<rparr>))"
    using assms(14) by (subst closed) auto
  ultimately show ?thesis by (auto simp: op_thr_def)
qed

lemma ex_looks: "looks_at p (\<lambda>_ _. True) (ex_env ans)"
  by (simp add: ex_env_def)

theorem thr_refs_balanced_witness:
  "refs (worker (ex_env ex_read_ok) 2 (ex_submitted THAIO_WRITE)) = (\<lambda>q. (refs (ex_world (ex_op THAIO_WRITE)) q) - (if q = 4 then 1 else 0))"
proof -
  have ok: "ops_ok_thr (ex_world (ex_op THAIO_WRITE))" by (rule ex_ops_ok) simp_all
  have op: "thr_ops (ex_world (ex_op THAIO_WRITE)) 2 = Some (ex_op THAIO_WRITE)" by (simp add: ex_world_def)
  show ?thesis
    using thr_refs_balanced [OF _ _ _ ex_pool(1) ok _ _ _ op _ _ ex_looks _ _ ex_submit, of ex_ctx]
    by (simp add: ex_world_def ex_ctx_def) (simp add: ex_op_def zero_op_thr_def)
qed

text \<open>
  C13. Nothing is visible early. From the claim by \<^verbatim>\<open>submit\<close> until the worker publishes
  \<^verbatim>\<open>done\<close>, at each point where another thread can look (after the claim, after the worker's
  first stores, after the system call has filled the result fields), \<^verbatim>\<open>get_value\<close> and
  \<^verbatim>\<open>payload\<close> raise instead of returning a partial result.
\<close>

theorem thr_results_gated:
  assumes "thr_ops w p = Some x" and "to_in_progress x \<noteq> 0" and "to_done x = 0"
    and "v \<in> {w, snd (worker_begin p w), snd (worker_syscall env p (snd (worker_begin p w)))}"
  shows "AIOOperation_get_value_thr p v = Raise (PyErr_SetString PyExc_RuntimeError
       ''get_value() is not available while the operation is in flight'') \<and>
     AIOOperation_payload_getter_thr p v = (Raise (PyErr_SetString PyExc_RuntimeError
       ''payload is not available while the operation is in flight''), v)"
proof -
  let ?x = "x\<lparr>to_ctx := NULL, to_error := 0\<rparr>"
  have op1: "thr_ops (snd (worker_begin p w)) p = Some ?x"
    using assms(1) by (simp add: worker_begin_def)
  have "\<exists>y. thr_ops v p = Some y \<and> to_in_progress y \<noteq> 0 \<and> to_done y = 0"
    using assms op1 worker_syscall_closed [OF op1, of env] by (auto simp: Let_def)
  then show ?thesis
    by (auto simp: AIOOperation_get_value_thr_def AIOOperation_payload_getter_thr_def op_thr_def)
qed

theorem thr_results_gated_witness:
  "AIOOperation_get_value_thr 2 (snd (worker_syscall (ex_env ex_read_ok) 2
       (snd (worker_begin 2 (ex_submitted THAIO_READ))))) = Raise (PyErr_SetString PyExc_RuntimeError
       ''get_value() is not available while the operation is in flight'')"
  by (rule thr_results_gated [OF ex_submitted_op(1) [of THAIO_READ], of _ "ex_env ex_read_ok", THEN conjunct1])
    (simp_all add: ex_op_def zero_op_thr_def)

text \<open>
  C14. The callback. The worker of a read, a write or a sync that has a callback calls it
  exactly once, with the result of the system call, in a state where \<^verbatim>\<open>done\<close>, the result,
  the error and the size are set and a write has dropped its payload: \<open>verdict\<close>, which says
  whether the callback returns, is given the operation as the callback finds it. An
  exception of the callback is reported and changes nothing else; the worker gives back its
  references and its reference on the callback. The callback only looks, and it is not the
  payload; the payload may die when the write drops it. The Operation and the Context are
  held by someone beside the worker.
\<close>

theorem thr_callback_once:
  fixes env :: thr_env and x :: AIOOperation_thr
  assumes "thr_ops w p = Some x" and "to_opcode x \<noteq> THAIO_NOOP"
    and "to_opcode x = THAIO_WRITE \<Longrightarrow> to_py_buffer x \<noteq> p \<and> to_py_buffer x \<noteq> to_ctx x"
    and "to_callback x \<noteq> NULL" and "0 < refs w (to_callback x)"
    and "to_opcode x = THAIO_WRITE \<Longrightarrow> to_callback x \<noteq> to_py_buffer x"
    and "1 < refs w p" and "1 < refs w (to_ctx x)" and "p \<noteq> to_ctx x"
    and "te_kernel env (worker_call env (x\<lparr>to_ctx := NULL, to_error := 0\<rparr>)) = ans"
    and "te_call env = (\<lambda>cb v w1. (verdict (op_thr w1 p) v, w1))"
    and "(if to_opcode x = THAIO_WRITE then Py_XDECREF (to_py_buffer x) w else w) = v"
  shows "worker env p w = v\<lparr>mem := worker_mem ans x (mem v),
     thr_ops := (thr_ops w)(p := Some (completed_op_thr ans x)),
     trace := trace v @ Ev_Callback (to_callback x) (PyLong (sint (ucast (sa_ret ans) :: u32))) #
       (if verdict (completed_op_thr ans x) (PyLong (sint (ucast (sa_ret ans) :: u32))) then []
        else [Ev_Unraisable (to_callback x)]),
     refs := (\<lambda>q. refs v q - (if q = p \<or> q = to_ctx x then 1 else 0))\<rparr>"
proof -
  have v: "drop_payload x w = v" using assms(12) by (simp add: drop_payload_def)
  have cb: "to_callback x \<noteq> NULL \<Longrightarrow> 0 < refs w (to_callback x) \<and>
      (to_opcode x = THAIO_WRITE \<longrightarrow> to_callback x \<noteq> to_py_buffer x)"
    using assms(5,6) by simp
  show ?thesis
    using worker_closed [OF assms(1,2,11) cb assms(7-9) assms(3)] assms(4)
    unfolding assms(10) v by (simp add: callback_events_def)
qed

text \<open>A write whose payload at address 4 dies with the reference the operation held.\<close>

theorem thr_callback_once_witness:
  "trace (worker ex_callback_env 2 ((ex_running THAIO_WRITE)\<lparr>refs := (\<lambda>_. 2)(4 := 1)\<rparr>)) =
     [Ev_Dealloc 4, Ev_Callback 5 (PyLong 2)]"
  (is "trace (worker _ 2 ?w) = _")
proof -
  have op: "thr_ops ?w 2 = Some ((ex_op THAIO_WRITE)\<lparr>to_callback := 5, to_in_progress := 1, to_ctx := 1\<rparr>)"
    by (simp add: ex_running_op)
  show ?thesis
    using thr_callback_once [OF op _ _ _ _ _ _ _ _ ex_callback_kernel ex_callback_looks refl]
    by (simp add: ex_op_def zero_op_thr_def ex_read_ok_def ex_running_def ex_world_def Py_XDECREF_def
        Py_DECREF_def decref_with_def py_dealloc_def emit_def)
qed

text \<open>
  The size handed to the kernel. The worker passes the size through an \<^verbatim>\<open>int\<close>: it is the
  size of the buffer exactly when that fits into 31 bits and a sign. A write or read of
  4 GiB is issued as one of zero bytes.
\<close>

theorem thr_count_truncated:
  "(worker_count x = to_buf_size x \<longleftrightarrow> - (2 ^ 31) \<le> sint (to_buf_size x) \<and> sint (to_buf_size x) < 2 ^ 31) \<and>
   worker_call env (x\<lparr>to_opcode := THAIO_WRITE, to_buf_size := 0x100000000\<rparr>) =
     Sys_pwrite (to_fileno x) (to_buf x) 0 (to_offset x)"
proof -
  have "sint (ucast (to_buf_size x) :: u32) = signed_take_bit 31 (sint (to_buf_size x))"
    by (rule bit_eqI) (simp add: bit_simps min_def)
  then have s: "sint (worker_count x) = signed_take_bit 31 (sint (to_buf_size x))"
    by (simp add: worker_count_def)
  have "worker_count x = to_buf_size x \<longleftrightarrow> sint (worker_count x) = sint (to_buf_size x)"
    by (metis signed_word_eqI)
  also have "\<dots> \<longleftrightarrow> - (2 ^ 31) \<le> sint (to_buf_size x) \<and> sint (to_buf_size x) < 2 ^ 31"
    unfolding s by (rule signed_take_bit_int_eq_self_iff)
  finally show ?thesis by (simp add: worker_call_def worker_count_def)
qed

section \<open>Attributes\<close>

text \<open>
  Two attributes that do not say what they are named after. The \<^verbatim>\<open>error\<close> attribute equals
  the stored error only while the operation was never claimed: an operation completed
  without error shows 65792. After a failed read \<^verbatim>\<open>nbytes\<close> shows \<open>2 ^ 64 - 1\<close>.
\<close>

theorem thr_attributes_of_neighbours:
  "(AIOOperation_members_error x = uint (to_error x) \<longleftrightarrow>
      to_in_progress x = 0 \<and> to_done x = 0 \<and> to_pad x = 0) \<and>
   AIOOperation_members_error (completed_op_thr ex_read_ok (x\<lparr>to_in_progress := 1, to_pad := 0\<rparr>)) = 65792 \<and>
   AIOOperation_members_nbytes (completed_op_thr \<lparr>sa_ret = - 1, sa_errno = e, sa_data = []\<rparr>
     (x\<lparr>to_opcode := THAIO_READ\<rparr>)) = 2 ^ 64 - 1"
proof -
  have range: "0 \<le> uint a \<and> uint a < 256" for a :: u8
    using unsigned_greater_eq [of a] unsigned_less [of a] by simp
  have "uint a * 256 + uint b * 65536 + sint c * 16777216 = 0 \<longleftrightarrow> uint a = 0 \<and> uint b = 0 \<and> sint c = 0"
    for a b c :: u8
  proof
    assume sum: "uint a * 256 + uint b * 65536 + sint c * 16777216 = 0"
    then have "sint c \<le> 0" and "- 1 < sint c" using range [of a] range [of b] by linarith+
    then have "sint c = 0" by linarith
    then show "uint a = 0 \<and> uint b = 0 \<and> sint c = 0" using sum range [of a] range [of b] by linarith
  qed simp
  then have "AIOOperation_members_error x = uint (to_error x) \<longleftrightarrow>
      uint (to_in_progress x) = 0 \<and> uint (to_done x) = 0 \<and> sint (to_pad x) = 0"
    by (simp add: AIOOperation_members_error_def algebra_simps)
  moreover have "sint (to_pad x) = 0 \<longleftrightarrow> to_pad x = 0"
    by (metis signed_0 signed_word_eqI)
  moreover have "scast (ucast (- 1 :: u64) :: u32) = (- 1 :: u64)"
    by (rule bit_word_eqI) (simp add: bit_simps min_def)
  ultimately show ?thesis
    by (simp add: unsigned_eq_0_iff) (simp add: unsigned_minus_1_eq_mask mask_eq_exp_minus_1 AIOOperation_members_error_def ex_read_ok_def AIOOperation_members_nbytes_def)
qed

section \<open>Creating and closing a Context\<close>

lemma create_loop_succeeds: "\<forall>i. thread_create_rc ce i = 0 \<Longrightarrow> fst (create_loop ce n i p)"
  by (induction n arbitrary: i p) simp_all

lemma create_succeeds:
  assumes "0 < k" "k \<le> MAX_THREADS" "0 < q" "q \<le> MAX_QUEUE" and "malloc_pool ce" "malloc_threads ce" "malloc_queue ce"
    and "mutex_init_rc ce = 0" "cond_init_rc ce = 0" "\<forall>i. thread_create_rc ce i = 0"
  obtains p where "threadpool_create ce de joins m k q = (Some p, [])" "tp_thread_count p = k" "tp_queue_size p = q"
proof -
  obtain p where "create_loop ce (nat k) 0 (pool_allocated ce q) = (True, p)"
    using create_loop_succeeds [OF assms(10), of "nat k" 0 "pool_allocated ce q"]
    by (metis eq_fst_iff)
  then have "threadpool_create ce de joins m k q = (Some p, [])"
    using assms by (simp add: threadpool_create_def pool_allocated_def Let_def)
  with create_success [OF this] that show thesis by blast
qed

lemma init_unfold:
  fixes m n :: u16 and c :: AIOContext_thr
  defines "sz \<equiv> (if (ucast n :: u8) = 0 then 8 else ucast n :: u8)"
    and "requests \<equiv> (if m = 0 then 512 else m)"
  defines "d \<equiv> c\<lparr>tc_pool := None, tc_max_requests := requests, tc_pool_size := sz, tc_pad := ucast (drop_bit 8 n)\<rparr>"
  shows "AIOContext_init_thr ce env (Some (Some m, Some n)) c =
    (if uint sz > 128 then
       (Raise (PyErr_Format PyExc_ValueError ''pool_size too large. Allowed lower then %d'' [MAX_THREADS]), d)
     else if uint requests \<ge> 65535 then
       (Raise (PyErr_Format PyExc_ValueError ''max_requests too large. Allowed lower then %d'' [MAX_QUEUE - 1]), d)
     else case fst (threadpool_create ce (te_destroy env) (te_joins env) (te_pool_meanwhile env) (uint sz) (uint requests)) of
        None \<Rightarrow> (Raise (PyErr_Format PyExc_RuntimeError ''Pool initialization failed size=%d max_requests=%d''
            [uint sz, uint requests]), d)
      | Some p \<Rightarrow> (Ret (), d\<lparr>tc_pool := Some p\<rparr>))"
  unfolding sz_def requests_def d_def
  by (cases c; cases "m = 0"; cases "(ucast n :: u8) = 0")
    (simp_all add: AIOContext_init_thr_def parse_HH_def Let_def case_prod_beta split: option.split)

text \<open>
  C15. What \<^verbatim>\<open>Context(max_requests, pool_size)\<close> makes of its arguments when nothing fails. The
  number of threads is the low byte of \<^verbatim>\<open>pool_size\<close>, or 8 if that is zero, so the limit of
  128 is applied to the low byte only: 257 is accepted and gives one thread. The
  attribute \<^verbatim>\<open>pool_size\<close> then shows the argument (plus 8 if its low byte was zero), not
  the number of threads.
\<close>

theorem thr_init_pool_size:
  fixes m n :: u16
  defines "k \<equiv> (if uint n mod 256 = 0 then 8 else uint n mod 256)"
    and "q \<equiv> (if m = 0 then 512 else uint m)"
  assumes "malloc_pool ce" "malloc_threads ce" "malloc_queue ce"
    and "mutex_init_rc ce = 0" "cond_init_rc ce = 0" "\<forall>i. thread_create_rc ce i = 0"
    and "AIOContext_init_thr ce env (Some (Some m, Some n)) c = (res, c')"
  shows "(res = Ret () \<longleftrightarrow> k \<le> 128 \<and> q < 65535) \<and>
     (res = Ret () \<longrightarrow> (\<exists>pool. tc_pool c' = Some pool \<and> tp_thread_count pool = k \<and> tp_queue_size pool = q) \<and>
        AIOContext_members_pool_size c' = (if uint n mod 256 = 0 then uint n + 8 else uint n)) \<and>
     (res \<noteq> Ret () \<longrightarrow> tc_pool c' = None)"
proof -
  let ?size = "if (ucast n :: u8) = 0 then 8 else ucast n :: u8" and ?max = "if m = 0 then 512 else m"
  have low: "uint (ucast n :: u8) = uint n mod 256"
    by (simp add: unsigned_ucast_eq take_bit_eq_mod)
  then have zero: "(ucast n :: u8) = 0 \<longleftrightarrow> uint n mod 256 = 0"
    by (metis uint_0_iff)
  have k: "uint ?size = k" and q: "uint ?max = q" and pos: "0 < k" "0 < q"
    using low zero unsigned_greater_eq [of m, where ?'a = int] uint_0_iff [of m]
    by (simp_all add: k_def q_def order_less_le)
  have "uint n < 65536" using unsigned_less [of n, where ?'a = int] by simp
  then have "uint n div 256 mod 256 = uint n div 256"
    by (intro mod_pos_pos_trivial) (simp_all add: pos_imp_zdiv_nonneg_iff)
  then have high: "uint (ucast (drop_bit 8 n) :: u8) = uint n div 256"
    by (simp add: unsigned_ucast_eq unsigned_drop_bit_eq drop_bit_eq_div take_bit_eq_mod uint_div_distrib)
  let ?c = "c\<lparr>tc_pool := None, tc_max_requests := ?max, tc_pool_size := ?size, tc_pad := ucast (drop_bit 8 n)\<rparr>"
  show ?thesis
  proof (cases "k \<le> 128 \<and> q < 65535")
    case True
    then have "k \<le> MAX_THREADS" "q \<le> MAX_QUEUE" by simp_all
    then obtain p where "threadpool_create ce (te_destroy env) (te_joins env) (te_pool_meanwhile env) k q = (Some p, [])"
      and p: "tp_thread_count p = k" "tp_queue_size p = q"
      using create_succeeds [OF pos(1) _ pos(2) _ assms(3-8)] by blast
    then have "res = Ret ()" "c' = ?c\<lparr>tc_pool := Some p\<rparr>"
      using assms(9) [unfolded init_unfold k q] True by simp_all
    moreover have "uint ?size + 256 * (uint n div 256) = (if uint n mod 256 = 0 then uint n + 8 else uint n)"
      unfolding k k_def using mult_div_mod_eq [of 256 "uint n"]
      by (cases "uint n mod 256 = 0"; simp only: if_True if_False simp_thms; linarith)
    ultimately show ?thesis using True p high by (simp add: AIOContext_members_pool_size_def)
  next
    case False
    then have "res \<noteq> Ret ()" "tc_pool c' = None"
      using assms(9) [unfolded init_unfold k q] by (auto split: if_split_asm)
    with False show ?thesis by simp
  qed
qed

theorem thr_init_pool_size_witness:
  "\<exists>c' pool. AIOContext_init_thr ce_ok (ex_env ex_read_ok) (Some (Some 16, Some 257)) zero_ctx_thr = (Ret (), c') \<and>
     tc_pool c' = Some pool \<and> tp_thread_count pool = 1 \<and> AIOContext_members_pool_size c' = 257"
proof -
  obtain res c' where r: "AIOContext_init_thr ce_ok (ex_env ex_read_ok) (Some (Some 16, Some 257)) zero_ctx_thr = (res, c')"
    by (metis surj_pair)
  show ?thesis
    using thr_init_pool_size [OF _ _ _ _ _ _ r] r by (auto simp: ce_ok_def)
qed

text \<open>
  \<^verbatim>\<open>close\<close> is idempotent and final. A second \<^verbatim>\<open>close\<close> changes nothing, the pool is
  destroyed once, and every \<^verbatim>\<open>submit\<close> after it raises and changes nothing, as long as the
  other threads do not initialise the Context again while \<^verbatim>\<open>close\<close> waits for the workers.
\<close>

theorem thr_close_final:
  assumes "thr_ctxs w self = Some c" and "self \<noteq> NULL"
    and "\<And>v. thr_ctxs (te_others env v) = thr_ctxs v" and "\<And>v. trace (te_others env v) = trace v"
    and "AIOContext_close env self w = (res, w1)" and "\<forall>p\<in>set ps. thr_ops w1 p \<noteq> None"
  shows "res = Ret PyNone \<and>
     trace w1 = trace w @ (case tc_pool c of None \<Rightarrow> []
       | Some pool \<Rightarrow> [Ev_PoolDestroy (fst (threadpool_destroy (te_destroy env) (te_joins env)
           (te_pool_meanwhile env) (Some pool) True))]) \<and>
     AIOContext_close env2 self w1 = (Ret PyNone, w1) \<and>
     AIOContext_submit_thr pe env2 True self (Some ps) w1 =
       (Raise (PyErr_SetString PyExc_RuntimeError ''self->pool is NULL''), w1)"
proof -
  have res: "res = Ret PyNone" and w1: "w1 = AIOContext_close_pool env self w"
    using assms(5) by (simp_all add: AIOContext_close_def)
  have c1: "thr_ctxs w1 self = Some (c\<lparr>tc_pool := None\<rparr>)" and
    tr: "trace w1 = trace w @ (case tc_pool c of None \<Rightarrow> []
       | Some pool \<Rightarrow> [Ev_PoolDestroy (fst (threadpool_destroy (te_destroy env) (te_joins env)
           (te_pool_meanwhile env) (Some pool) True))])"
    using assms(1,3,4)
    by (cases "tc_pool c"; simp add: w1 AIOContext_close_pool_def rt_simps case_prod_beta Let_def)+
  have "(thr_ctxs w1)(self := map_option (\<lambda>c. c\<lparr>tc_pool := None\<rparr>) (thr_ctxs w1 self)) = thr_ctxs w1"
    using c1 by (simp add: fun_upd_idem)
  then have "AIOContext_close_pool env2 self w1 = w1"
    using c1 by (simp add: AIOContext_close_pool_def upd_ctx_thr_def)
  moreover have "AIOContext_submit_thr pe env2 True self (Some ps) w1 =
       (Raise (PyErr_SetString PyExc_RuntimeError ''self->pool is NULL''), w1)"
    using c1 assms(2,6) wrong_type_None [of "thr_ops w1" 0 ps] by (auto simp: AIOContext_submit_thr_def)
  ultimately show ?thesis using res tr by (simp add: AIOContext_close_def)
qed

theorem thr_close_final_witness:
  "AIOContext_close (ex_env ex_read_ok) 1 (snd (AIOContext_close (ex_env ex_read_ok) 1 (ex_submitted THAIO_READ))) =
     (Ret PyNone, snd (AIOContext_close (ex_env ex_read_ok) 1 (ex_submitted THAIO_READ)))"
proof -
  obtain res w1 where r: "AIOContext_close (ex_env ex_read_ok) 1 (ex_submitted THAIO_READ) = (res, w1)"
    by (metis surj_pair)
  obtain c where c: "thr_ctxs (ex_submitted THAIO_READ) 1 = Some c"
    by (simp add: ex_submitted_def ex_world_def claimed_thr_def)
  show ?thesis
    using thr_close_final [OF c _ _ _ r, of "[]"] r by (simp add: ex_env_def)
qed

section \<open>Buffers\<close>

text \<open>Dropping the last reference on an operation that holds at most a read buffer.\<close>

lemma dealloc_read_op:
  assumes "refs w p = 1" and "thr_ops w p = Some x" and "to_callback x = NULL"
    and "to_ctx x = NULL" and "to_weakreflist x = NULL" and "to_opcode x = THAIO_READ"
    and "to_py_buffer x \<noteq> NULL \<Longrightarrow> to_py_buffer x \<noteq> p \<and> 1 < refs w (to_py_buffer x)"
    and "to_buf x \<noteq> NULL \<Longrightarrow> mem w (to_buf x) \<noteq> None"
  shows "decref_op_thr env p w = w\<lparr>
     refs := (if to_py_buffer x = NULL then (refs w)(p := 0)
              else (refs w)(p := 0, to_py_buffer x := refs w (to_py_buffer x) - 1)),
     thr_ops := (thr_ops w)(p := None),
     mem := (if to_buf x = NULL then mem w else (mem w)(to_buf x := None)), trace := trace w @ [Ev_Dealloc p]\<rparr>"
proof -
  have *: "decref_op_thr env p w = AIOOperation_dealloc_thr env p (w\<lparr>refs := (refs w)(p := 0)\<rparr>)"
    using assms(1) by (simp add: decref_op_thr_def decref_last)
  let ?w0 = "w\<lparr>refs := (refs w)(p := 0)\<rparr>"
  let ?x1 = "x\<lparr>to_callback := NULL\<rparr>"
  let ?m = "if to_buf x = NULL then mem w else (mem w)(to_buf x := None)"
  let ?x2 = "?x1\<lparr>to_buf := NULL\<rparr>"
  let ?w2 = "?w0\<lparr>mem := ?m, thr_ops := (thr_ops w)(p \<mapsto> ?x2)\<rparr>"
  have buf: "(if to_opcode (op_thr v p) = THAIO_READ \<and> to_buf (op_thr v p) \<noteq> NULL
       then upd_op_thr p (\<lambda>x. x\<lparr>to_buf := NULL\<rparr>) (PyMem_Free (to_buf (op_thr v p)) v) else v) = ?w2"
    if v: "v = upd_op_thr p (\<lambda>x. x\<lparr>to_callback := NULL\<rparr>) ?w0" for v
  proof (cases "to_buf x = NULL")
    case True
    then show ?thesis using assms(2,6) by (cases x) (simp add: v op_thr_def upd_op_thr_def)
  next
    case False
    with assms(8) obtain bs where "mem w (to_buf x) = Some bs" by blast
    then show ?thesis
      using assms(2,6) False
      by (intro thr_world.equality) (simp_all add: v op_thr_def upd_op_thr_def PyMem_Free_def)
  qed
  have clear: "AIOOperation_clear_thr env p ?w0 =
      upd_op_thr p (\<lambda>x. x\<lparr>to_ctx := NULL\<rparr>)
        (Py_XDECREF (to_py_buffer x) (upd_op_thr p (\<lambda>x. x\<lparr>to_py_buffer := NULL\<rparr>) ?w2))"
  proof -
    have cb: "Py_XDECREF (to_callback (op_thr ?w0 p)) v = v" for v
      using assms(2,3) by (simp add: op_thr_def Py_XDECREF_def)
    have pb: "to_py_buffer (op_thr ?w2 p) = to_py_buffer x"
      using assms(2) by (simp add: op_thr_def)
    have "to_ctx (op_thr (Py_XDECREF (to_py_buffer x) (upd_op_thr p (\<lambda>x. x\<lparr>to_py_buffer := NULL\<rparr>) ?w2)) p) = NULL"
      using assms(2,4) by (simp add: op_thr_def Py_XDECREF_def)
    then show ?thesis
      by (simp only: AIOOperation_clear_thr_def Let_def cb buf [OF refl] pb if_True simp_thms)
  qed
  show ?thesis
  proof (cases "to_py_buffer x = NULL")
    case True
    then show ?thesis
      unfolding * AIOOperation_dealloc_thr_def Let_def using assms(2,5) clear
      by (intro thr_world.equality) (simp_all add: op_thr_def Py_XDECREF_def emit_def)
  next
    case False
    then show ?thesis
      unfolding * AIOOperation_dealloc_thr_def Let_def using assms(2,5) clear assms(7) [OF False]
      by (intro thr_world.equality) (simp_all add: op_thr_def Py_XDECREF_def Py_DECREF_def decref_alive emit_def)
  qed
qed

text \<open>
  \<^verbatim>\<open>Operation.read\<close> cleans up. On each of its error paths (arguments, memory, memoryview)
  the new operation and its buffer are gone, the buffer was freed once and nothing else
  changed; on success the operation owns a zeroed buffer of the size asked for and has one
  reference.
\<close>

theorem thr_read_create:
  assumes "self \<noteq> NULL" and "thr_ops w self = None" and "refs w self = 0"
    and "mem w block = None" and "view \<noteq> self"
    and "AIOOperation_read_thr env self parsed block view w = (res, w')"
  shows "(\<exists>e. res = Raise e \<and> thr_ops w' = thr_ops w \<and> mem w' = mem w \<and> refs w' = refs w \<and>
        trace w' = trace w @ [Ev_Dealloc self]) \<or>
     (\<exists>nbytes fd off x. parsed = Some (nbytes, fd, off) \<and> res = Ret (PyObj self) \<and>
        thr_ops w' = (thr_ops w)(self \<mapsto> x) \<and> refs w' self = 1 \<and> trace w' = trace w \<and>
        to_opcode x = THAIO_READ \<and> to_buf x = block \<and> to_buf_size x = nbytes \<and> to_fileno x = fd \<and>
        to_py_buffer x = view \<and> to_in_progress x = 0 \<and> to_done x = 0 \<and>
        (block \<noteq> NULL \<longrightarrow> mem w' block = Some (replicate (unat nbytes) 0)))"
proof (cases parsed)
  case None
  have "thr_ops (alloc_op_thr self w) self = Some zero_op_thr" "refs (alloc_op_thr self w) self = 1"
    by (simp_all add: alloc_op_thr_def)
  note gone = dealloc_read_op [OF this(2,1), of env]
  have "(refs w)(self := 0) = refs w" "(thr_ops w)(self := None) = thr_ops w"
    using assms(2,3) by (simp_all add: fun_upd_idem)
  then show ?thesis
    using assms(1,6) None gone
    by (auto simp: AIOOperation_read_thr_def zero_op_thr_def) (simp_all add: alloc_op_thr_def)
next
  case (Some a)
  obtain nbytes fd off where a: "a = (nbytes, fd, off)" by (metis prod_cases3)
  let ?off = "case off of None \<Rightarrow> 0 | Some v \<Rightarrow> v"
  let ?x = "zero_op_thr\<lparr>to_fileno := fd, to_offset := ?off, to_buf := block\<rparr>"
  let ?m = "if block = NULL then mem w else (mem w)(block \<mapsto> replicate (unat nbytes) 0)"
  let ?w = "w\<lparr>refs := (refs w)(self := 1), mem := ?m, thr_ops := (thr_ops w)(self \<mapsto> ?x)\<rparr>"
  have run: "AIOOperation_read_thr env self parsed block view w =
     (if block = NULL \<and> nbytes > 0 then (Raise PyErr_NoMemory, decref_op_thr env self ?w)
      else if view = NULL then (Raise PyErr_Pending, decref_op_thr env self
          (?w\<lparr>thr_ops := (thr_ops w)(self \<mapsto> ?x\<lparr>to_buf_size := nbytes\<rparr>)\<rparr>))
      else (Ret (PyObj self), w\<lparr>refs := (refs w)(self := 1, view := 1), mem := ?m,
          thr_ops := (thr_ops w)(self \<mapsto> ?x\<lparr>to_buf_size := nbytes, to_py_buffer := view\<rparr>)\<rparr>))"
    using assms(1) Some a
    by (cases w) (auto simp: AIOOperation_read_thr_def alloc_op_thr_def upd_op_thr_def zero_op_thr_def Let_def
        split: option.splits)
  have bk: "(refs w)(self := 0) = refs w" "(thr_ops w)(self := None) = thr_ops w"
    "(if block = NULL then ?m else ?m(block := None)) = mem w"
    using assms(2-4) by (auto simp: fun_eq_iff)
  have "decref_op_thr env self (?w\<lparr>thr_ops := (thr_ops w)(self \<mapsto> ?x\<lparr>to_buf_size := n\<rparr>)\<rparr>) =
      w\<lparr>refs := refs w, mem := mem w, thr_ops := thr_ops w, trace := trace w @ [Ev_Dealloc self]\<rparr>" for n
    by (subst dealloc_read_op) (use bk in \<open>auto simp: zero_op_thr_def\<close>)
  from this [of nbytes] this [of 0] have gone:
    "decref_op_thr env self (?w\<lparr>thr_ops := (thr_ops w)(self \<mapsto> ?x\<lparr>to_buf_size := nbytes\<rparr>)\<rparr>) = w\<lparr>trace := trace w @ [Ev_Dealloc self]\<rparr>"
    "decref_op_thr env self ?w = w\<lparr>trace := trace w @ [Ev_Dealloc self]\<rparr>"
    by (simp_all add: zero_op_thr_def)
  show ?thesis
  proof (cases "block = NULL \<and> nbytes > 0 \<or> view = NULL")
    case True
    then show ?thesis using assms(6) unfolding run gone by (auto split: if_split_asm)
  next
    case False
    then have "res = Ret (PyObj self)" "w' = w\<lparr>refs := (refs w)(self := 1, view := 1), mem := ?m,
        thr_ops := (thr_ops w)(self \<mapsto> ?x\<lparr>to_buf_size := nbytes, to_py_buffer := view\<rparr>)\<rparr>"
      using assms(6) unfolding run by auto
    then show ?thesis
      using assms(5) Some a
      by (intro disjI2 exI [of _ nbytes] exI [of _ fd] exI [of _ off]
          exI [of _ "?x\<lparr>to_buf_size := nbytes, to_py_buffer := view\<rparr>"])
        (simp add: zero_op_thr_def)
  qed
qed

theorem thr_read_create_witness:
  "\<exists>e w'. AIOOperation_read_thr (ex_env ex_read_ok) 6 (Some (3, 0, None)) 7 NULL (ex_world (ex_op THAIO_READ)) = (Raise e, w') \<and>
     mem w' = [3 \<mapsto> [0, 0, 0]] \<and> refs w' 6 = 0 \<and> trace w' = [Ev_Dealloc 6]"
proof -
  let ?w = "ex_world (ex_op THAIO_READ)"
  obtain res w' where r: "AIOOperation_read_thr (ex_env ex_read_ok) 6 (Some (3, 0, None)) 7 NULL ?w = (res, w')"
    by (metis surj_pair)
  have "res \<noteq> Ret (PyObj 6)" using r by (auto simp: AIOOperation_read_thr_def Let_def)
  then show ?thesis
    using thr_read_create [OF _ _ _ _ _ r] r by (auto simp: ex_world_def)
qed

text \<open>
  A payload can outlive its memory. The memoryview that \<^verbatim>\<open>payload\<close> returns for a finished
  read does not own the buffer it shows: when the operation is dropped while the caller
  still holds the view, the buffer is freed and the view, still alive, refers to memory
  that is gone.
\<close>

theorem thr_payload_dangles:
  assumes "thr_ops w p = Some x" and "to_opcode x = THAIO_READ" and "to_done x \<noteq> 0"
    and "to_callback x = NULL" and "to_ctx x = NULL" and "to_weakreflist x = NULL"
    and "to_buf x \<noteq> NULL" and "mem w (to_buf x) \<noteq> None"
    and "to_py_buffer x \<noteq> NULL" and "to_py_buffer x \<noteq> p" and "0 < refs w (to_py_buffer x)" and "refs w p = 1"
    and "AIOOperation_payload_getter_thr p w = (res, w1)"
  shows "res = Ret (PyObj (to_py_buffer x)) \<and>
     0 < refs (decref_op_thr env p w1) (to_py_buffer x) \<and>
     thr_ops (decref_op_thr env p w1) p = None \<and> mem (decref_op_thr env p w1) (to_buf x) = None"
proof -
  have r: "res = Ret (PyObj (to_py_buffer x))" and w1: "w1 = Py_INCREF (to_py_buffer x) w"
    using assms(1,3,9,13) by (simp_all add: AIOOperation_payload_getter_thr_def op_thr_def)
  have "decref_op_thr env p w1 = w1\<lparr>refs := (refs w1)(p := 0, to_py_buffer x := refs w1 (to_py_buffer x) - 1),
      thr_ops := (thr_ops w)(p := None), mem := (mem w)(to_buf x := None), trace := trace w @ [Ev_Dealloc p]\<rparr>"
    using assms(1-12) by (subst dealloc_read_op [where x = x]) (simp_all add: w1 rt_simps)
  with r assms(10,11) show ?thesis by (simp add: w1 rt_simps)
qed

theorem thr_payload_dangles_witness:
  "mem (decref_op_thr (ex_env ex_read_ok) 2 (snd (AIOOperation_payload_getter_thr 2
      (ex_world ((ex_op THAIO_READ)\<lparr>to_in_progress := 1, to_done := 1\<rparr>))))) 3 = None"
proof -
  let ?w = "ex_world ((ex_op THAIO_READ)\<lparr>to_in_progress := 1, to_done := 1\<rparr>)"
  obtain res w1 where r: "AIOOperation_payload_getter_thr 2 ?w = (res, w1)" by (metis surj_pair)
  have op: "thr_ops ?w 2 = Some ((ex_op THAIO_READ)\<lparr>to_in_progress := 1, to_done := 1\<rparr>)"
    by (simp add: ex_world_def)
  show ?thesis
    using thr_payload_dangles [OF op _ _ _ _ _ _ _ _ _ _ _ r, of "ex_env ex_read_ok"] r
    by (simp add: ex_op_def zero_op_thr_def ex_world_def)
qed

text \<open>
  A failed signal queues an operation that looks free. When \<^verbatim>\<open>threadpool_add\<close> reports a
  failure after it stored the task, \<^verbatim>\<open>submit\<close> raises and rolls the operation back to its
  state before the call, references included, while its task stays in the queue: the
  worker will run on an operation that holds no Context and no reference.
\<close>

theorem thr_submit_rolls_back_queued:
  assumes "thr_ctxs w self = Some c" and "tc_pool c = Some pool" and "pool_wf pool"
    and "tp_count pool < tp_queue_size pool" and "tp_shutdown pool = None"
    and "mutex_lock_rc (pe 0) = 0" and "cond_rc (pe 0) \<noteq> 0 \<or> mutex_unlock_rc (pe 0) \<noteq> 0"
    and "thr_ops w self = None" and "self \<noteq> NULL" and "0 < refs w self"
    and "thr_ops w p = Some x" and "to_in_progress x = 0" and "to_ctx x = NULL" and "0 < refs w p"
  shows "\<exists>pool'. AIOContext_submit_thr pe env True self (Some [p]) w =
       (Raise (PyErr_SetString PyExc_RuntimeError ''Failed to lock thread pool''),
        upd_ctx_thr self (\<lambda>c. c\<lparr>tc_pool := Some pool'\<rparr>) w) \<and>
     tp_list pool' = tp_list pool @ [task_of p]"
proof -
  let ?r = "threadpool_add_locked (pe 0) (pool\<lparr>tp_lock := True\<rparr>) worker_fn p"
  have "tp_list (snd ?r) = tp_list pool @ [task_of p]"
    using add_locked_list [of "pool\<lparr>tp_lock := True\<rparr>" "pe 0" worker_fn p] assms(3-5) by simp
  moreover have "fst ?r = (if cond_rc (pe 0) \<noteq> 0 then threadpool_lock_failure else 0)"
    using assms(4,5) by (simp add: add_locked_err)
  ultimately obtain pool' where add: "threadpool_add (pe 0) (Some pool) worker_fn p = (threadpool_lock_failure, Some pool')"
    and q: "tp_list pool' = tp_list pool @ [task_of p]"
  proof (cases "mutex_unlock_rc (pe 0) = 0")
    case True
    with \<open>fst ?r = _\<close> \<open>tp_list (snd ?r) = _\<close> that [of "snd ?r\<lparr>tp_lock := False\<rparr>"] assms(6,7) show thesis
      by (simp add: threadpool_add_def case_prod_beta worker_fn_def)
  next
    case False
    with \<open>tp_list (snd ?r) = _\<close> that [of "snd ?r"] assms(6) show thesis
      by (simp add: threadpool_add_def case_prod_beta worker_fn_def)
  qed
  have "submit_loop_thr pe env self [p] pool 0 w =
      (Some (PyErr_SetString PyExc_RuntimeError ''Failed to lock thread pool''), 0, pool', w)"
    using add assms(11,12) claim_step [OF assms(8,11)] rollback_step [OF assms(8,11-14,10)]
    by (simp add: op_thr_def process_pool_error_def Let_def)
  from submit_unfold [OF assms(1,2,9) _ this] q assms(11) show ?thesis by auto
qed

theorem thr_submit_rolls_back_queued_witness:
  "\<exists>pool'. snd (AIOContext_submit_thr (\<lambda>_. (pthread_ok {})\<lparr>cond_rc := 22\<rparr>) (ex_env ex_read_ok) True 1 (Some [2])
      (ex_world (ex_op THAIO_READ))) = upd_ctx_thr 1 (\<lambda>c. c\<lparr>tc_pool := Some pool'\<rparr>) (ex_world (ex_op THAIO_READ)) \<and>
     tp_list pool' = [task_of 2]"
proof -
  let ?w = "ex_world (ex_op THAIO_READ)"
  have "thr_ctxs ?w 1 = Some ex_ctx" and op: "thr_ops ?w 2 = Some (ex_op THAIO_READ)" by (simp_all add: ex_world_def)
  from thr_submit_rolls_back_queued [OF this(1) _ ex_pool(1) _ _ _ _ _ _ _ op,
      of "\<lambda>_. (pthread_ok {})\<lparr>cond_rc := 22\<rparr>" "ex_env ex_read_ok"]
  obtain pool' where "AIOContext_submit_thr (\<lambda>_. (pthread_ok {})\<lparr>cond_rc := 22\<rparr>) (ex_env ex_read_ok) True 1 (Some [2]) ?w =
       (Raise (PyErr_SetString PyExc_RuntimeError ''Failed to lock thread pool''),
        upd_ctx_thr 1 (\<lambda>c. c\<lparr>tc_pool := Some pool'\<rparr>) ?w)" "tp_list pool' = tp_list (empty_pool 4) @ [task_of 2]"
    by (auto simp: ex_ctx_def ex_world_def empty_pool_def)
  then show ?thesis by (intro exI [of _ pool']) (simp add: ex_pool)
qed

end
