(* ===== verification/Linux_URING.thy ===== *)
theory Linux_URING
  imports Py_Runtime
begin

text \<open>
  The io_uring backend, \<^verbatim>\<open>caio/linux_uring.c\<close>: a Context owns two rings shared with the
  kernel. \<^verbatim>\<open>submit\<close> writes submission entries, \<^verbatim>\<open>flush\<close> hands them to the kernel,
  \<^verbatim>\<open>uring_drain_cq\<close> reads completion entries and calls the callbacks.

  The ring indices are 32-bit counters that wrap; a slot is a counter masked by the ring
  size less one. The rings are optional: their pointers are null until \<^verbatim>\<open>Context.__init__\<close>
  has mapped them, and an access through a null pointer is \<open>Crash\<close>. The kernel is a
  parameter (\<open>ur_env\<close>): it answers the system calls and changes the state during them.
\<close>

section \<open>Data\<close>

definition URING_READ :: u8 where [simp]: "URING_READ = 0"
definition URING_WRITE :: u8 where [simp]: "URING_WRITE = 1"
definition URING_FSYNC :: u8 where [simp]: "URING_FSYNC = 2"
definition URING_FDSYNC :: u8 where [simp]: "URING_FDSYNC = 3"

definition CANCEL_USER_DATA :: u64 where "CANCEL_USER_DATA = - 1"
definition CTX_MAX_REQUESTS_DEFAULT_ur :: u32 where [simp]: "CTX_MAX_REQUESTS_DEFAULT_ur = 32"
definition EV_MAX_REQUESTS_DEFAULT_ur :: u32 where [simp]: "EV_MAX_REQUESTS_DEFAULT_ur = 512"

definition IORING_SETUP_SQPOLL :: u32 where "IORING_SETUP_SQPOLL = 2"
definition IORING_SETUP_NO_SQARRAY :: u32 where "IORING_SETUP_NO_SQARRAY = 0x10000"
definition IORING_SQ_NEED_WAKEUP :: u32 where "IORING_SQ_NEED_WAKEUP = 1"
definition IORING_ENTER_SQ_WAKEUP :: u32 where "IORING_ENTER_SQ_WAKEUP = 2"

text \<open>Constants of the kernel interface.\<close>

definition IORING_ENTER_GETEVENTS :: u32 where "IORING_ENTER_GETEVENTS = 1"
definition IORING_FEAT_SINGLE_MMAP :: u32 where "IORING_FEAT_SINGLE_MMAP = 1"
definition IORING_FSYNC_DATASYNC :: u32 where "IORING_FSYNC_DATASYNC = 1"
definition MAP_FAILED :: ptr where "MAP_FAILED = - 1"

datatype sqe_op = IORING_OP_NOP | IORING_OP_FSYNC | IORING_OP_ASYNC_CANCEL | IORING_OP_READ | IORING_OP_WRITE

record io_uring_sqe =
  sqe_opcode :: sqe_op
  sqe_fd :: u32
  sqe_off :: u64
  sqe_addr :: u64
  sqe_len :: u32
  sqe_fsync_flags :: u32
  sqe_user_data :: u64

record io_uring_cqe =
  cqe_user_data :: u64
  cqe_res :: u32

record AIOOperation_ur =
  uo_py_buffer :: ptr
  uo_callback :: ptr
  uo_context :: ptr
  uo_weakreflist :: ptr
  uo_opcode :: u8
  uo_fileno :: u32
  uo_offset :: u64
  uo_result :: u32
  uo_error :: u32
  uo_buf_size :: u64
  uo_buf :: ptr
  uo_in_progress :: u8
  uo_done :: u8

text \<open>The memory of the two rings, as far as the code reads or writes it.\<close>

record sq_ring =
  sq_head :: u32
  sq_tail :: u32
  sq_ring_mask :: u32
  sq_ring_entries :: u32
  sq_flags :: u32
  sq_array :: "u32 \<Rightarrow> u32"

record cq_ring =
  cq_head :: u32
  cq_tail :: u32
  cq_ring_mask :: u32
  cqes :: "u32 \<Rightarrow> io_uring_cqe"

record AIOContext_ur =
  uc_uring_fd :: int
  uc_eventfd_fd :: int
  uc_max_requests :: u32
  uc_sq_ring_ptr :: ptr
  uc_sq_ring_size :: u64
  uc_sq :: "sq_ring option"
  uc_sqes_ptr :: ptr
  uc_sqes_size :: u64
  uc_sqes :: "(u32 \<Rightarrow> io_uring_sqe) option"
  uc_cq_ring_ptr :: ptr
  uc_cq_ring_size :: u64
  uc_cq :: "cq_ring option"
  uc_no_sqarray :: u8
  uc_sqpoll :: u8
  uc_weakreflist :: ptr

record ur_world = pyrt +
  ur_ops :: "ptr \<Rightarrow> AIOOperation_ur option"
  ur_ctxs :: "ptr \<Rightarrow> AIOContext_ur option"

text \<open>
  \<open>ue_enter n to_submit flags w\<close> is the \<open>n\<close>-th \<^verbatim>\<open>io_uring_enter\<close> of a call: its return value,
  \<^verbatim>\<open>errno\<close>, and the state after it. \<open>ue_poll\<close> is \<^verbatim>\<open>poll\<close> on the eventfd together with the
  read that empties its counter; \<open>ue_now\<close> the monotonic clock in seconds and nanoseconds.
\<close>

record ur_env =
  ue_enter :: "nat \<Rightarrow> u32 \<Rightarrow> u32 \<Rightarrow> ur_world \<Rightarrow> int \<times> int \<times> ur_world"
  ue_poll :: "nat \<Rightarrow> int \<Rightarrow> ur_world \<Rightarrow> int \<times> int \<times> ur_world"
  ue_now :: "nat \<Rightarrow> int \<times> int"
  ue_memory :: bool
  ue_call :: "ptr \<Rightarrow> pyval \<Rightarrow> ur_world \<Rightarrow> bool \<times> ur_world"
  ue_eintr :: int

definition upd_op_ur :: "ptr \<Rightarrow> (AIOOperation_ur \<Rightarrow> AIOOperation_ur) \<Rightarrow> ur_world \<Rightarrow> ur_world" where
  "upd_op_ur p f w = w\<lparr>ur_ops := (ur_ops w)(p := map_option f (ur_ops w p))\<rparr>"

definition upd_ctx_ur :: "ptr \<Rightarrow> (AIOContext_ur \<Rightarrow> AIOContext_ur) \<Rightarrow> ur_world \<Rightarrow> ur_world" where
  "upd_ctx_ur p f w = w\<lparr>ur_ctxs := (ur_ctxs w)(p := map_option f (ur_ctxs w p))\<rparr>"

definition op_ur :: "ur_world \<Rightarrow> ptr \<Rightarrow> AIOOperation_ur" where
  "op_ur w p = the (ur_ops w p)"

definition ctx_ur :: "ur_world \<Rightarrow> ptr \<Rightarrow> AIOContext_ur" where
  "ctx_ur w p = the (ur_ctxs w p)"

section \<open>Deallocation\<close>

definition AIOContext_dealloc_ur :: "ptr \<Rightarrow> ur_world \<Rightarrow> ur_world" where
  "AIOContext_dealloc_ur self w =
     (let c = ctx_ur w self;
          w = (if uc_weakreflist c \<noteq> NULL then emit (Ev_ClearWeakRefs self) w else w);
          w = (if uc_sq_ring_ptr c \<noteq> MAP_FAILED \<and> uc_sq_ring_ptr c \<noteq> NULL
               then emit (Ev_Munmap (uc_sq_ring_ptr c) (uc_sq_ring_size c)) w else w);
          w = (if uc_sqes_ptr c \<noteq> MAP_FAILED \<and> uc_sqes_ptr c \<noteq> NULL
               then emit (Ev_Munmap (uc_sqes_ptr c) (uc_sqes_size c)) w else w);
          w = (if uc_cq_ring_ptr c \<noteq> MAP_FAILED \<and> uc_cq_ring_ptr c \<noteq> NULL \<and> uc_cq_ring_ptr c \<noteq> uc_sq_ring_ptr c
               then emit (Ev_Munmap (uc_cq_ring_ptr c) (uc_cq_ring_size c)) w else w);
          w = (if uc_uring_fd c \<ge> 0 then emit (Ev_Close (uc_uring_fd c)) w else w);
          w = (if uc_eventfd_fd c \<ge> 0 then emit (Ev_Close (uc_eventfd_fd c)) w else w)
      in emit (Ev_Dealloc self) (w\<lparr>ur_ctxs := (ur_ctxs w)(self := None)\<rparr>))"

definition decref_ctx_ur :: "ptr \<Rightarrow> ur_world \<Rightarrow> ur_world" where
  "decref_ctx_ur = decref_with AIOContext_dealloc_ur"

text \<open>\<^verbatim>\<open>Py_CLEAR(op->context)\<close>\<close>

definition clear_context_ur :: "ptr \<Rightarrow> ur_world \<Rightarrow> ur_world" where
  "clear_context_ur self w =
     (let cx = uo_context (op_ur w self);
          w = upd_op_ur self (\<lambda>x. x\<lparr>uo_context := NULL\<rparr>) w
      in if cx = NULL then w else decref_ctx_ur cx w)"

definition AIOOperation_clear_ur :: "ptr \<Rightarrow> ur_world \<Rightarrow> ur_world" where
  "AIOOperation_clear_ur self w =
     (let cb = uo_callback (op_ur w self);
          w = Py_XDECREF cb (upd_op_ur self (\<lambda>x. x\<lparr>uo_callback := NULL\<rparr>) w);
          w = clear_context_ur self w;
          pb = uo_py_buffer (op_ur w self)
      in Py_XDECREF pb (upd_op_ur self (\<lambda>x. x\<lparr>uo_py_buffer := NULL\<rparr>) w))"

definition AIOOperation_dealloc_ur :: "ptr \<Rightarrow> ur_world \<Rightarrow> ur_world" where
  "AIOOperation_dealloc_ur self w =
     (let w = (if uo_weakreflist (op_ur w self) \<noteq> NULL then emit (Ev_ClearWeakRefs self) w else w);
          w = AIOOperation_clear_ur self w
      in emit (Ev_Dealloc self) (w\<lparr>ur_ops := (ur_ops w)(self := None)\<rparr>))"

definition decref_op_ur :: "ptr \<Rightarrow> ur_world \<Rightarrow> ur_world" where
  "decref_op_ur = decref_with AIOOperation_dealloc_ur"

section \<open>Draining completions\<close>

text \<open>What the scan stores into one operation.\<close>

definition complete_cqe :: "ptr \<Rightarrow> u32 \<Rightarrow> ur_world \<Rightarrow> ur_world" where
  "complete_cqe op res w =
     (let w = upd_op_ur op (\<lambda>x. x\<lparr>uo_result := res\<rparr>) w;
          w = (if sint res < 0 then upd_op_ur op (\<lambda>x. x\<lparr>uo_error := - res\<rparr>) w
               else if uo_opcode (op_ur w op) = URING_READ
               then upd_op_ur op (\<lambda>x. x\<lparr>uo_buf_size := scast res\<rparr>) w else w);
          w = clear_context_ur op w
      in upd_op_ur op (\<lambda>x. x\<lparr>uo_done := 1\<rparr>) w)"

text \<open>
  The scan: from \<open>head\<close> to \<open>tail\<close>, at most \<open>limit\<close> real completions, cancellation entries
  skipped. \<open>batch\<close> collects the operations and their results. An entry whose user data is
  no live operation is an invalid access (\<open>None\<close>).
\<close>

function scan_cq ::
  "cq_ring \<Rightarrow> u32 \<Rightarrow> u32 \<Rightarrow> u32 \<Rightarrow> u32 \<Rightarrow> (ptr \<times> u32) list \<Rightarrow> ur_world
   \<Rightarrow> (u32 \<times> (ptr \<times> u32) list \<times> ur_world) option" where
  "scan_cq cq head tail limit n batch w =
     (if head \<noteq> tail \<and> n < limit then
        let cqe = cqes cq (head AND cq_ring_mask cq); head = head + 1 in
        if cqe_user_data cqe = CANCEL_USER_DATA then scan_cq cq head tail limit n batch w
        else if ur_ops w (cqe_user_data cqe) = None then None
        else scan_cq cq head tail limit (n + 1) (batch @ [(cqe_user_data cqe, cqe_res cqe)])
               (complete_cqe (cqe_user_data cqe) (cqe_res cqe) w)
      else Some (head, batch, w))"
  by pat_completeness auto

termination
  by (relation "measure (\<lambda>(cq, head, tail, _). unat (tail - head))")
    (auto dest: unat_diff_Suc)

declare scan_cq.simps [simp del]

text \<open>
  The second phase: the callbacks, each followed by the release of its operation. (The number
  for the callback is taken to be allocated: if \<^verbatim>\<open>PyLong_FromLong\<close> fails the code reports that
  as unraisable and does not call.)
\<close>

definition finish_op_ur :: "ur_env \<Rightarrow> ptr \<times> u32 \<Rightarrow> ur_world \<Rightarrow> ur_world" where
  "finish_op_ur env e w =
     decref_op_ur (fst e) (run_callback (ue_call env) (uo_callback (op_ur w (fst e))) (PyLong (sint (snd e))) w)"

fun finish_batch :: "ur_env \<Rightarrow> (ptr \<times> u32) list \<Rightarrow> ur_world \<Rightarrow> ur_world option" where
  "finish_batch env [] w = Some w"
| "finish_batch env (e # es) w =
     (if ur_ops w (fst e) = None then None else finish_batch env es (finish_op_ur env e w))"

definition uring_drain_cq :: "ur_env \<Rightarrow> ptr \<Rightarrow> u32 \<Rightarrow> ur_world \<Rightarrow> int outcome \<times> ur_world" where
  "uring_drain_cq env self limit w =
     (case uc_cq (ctx_ur w self) of None \<Rightarrow> (Crash, w)
      | Some cq \<Rightarrow>
          let avail = cq_tail cq - cq_head cq;
              cap = (if avail < limit then avail else limit) in
          if cap > 0 \<and> \<not> ue_memory env then (Raise PyErr_NoMemory, w)
          else
            (case scan_cq cq (cq_head cq) (cq_tail cq) limit 0 [] w of None \<Rightarrow> (Crash, w)
             | Some (head, batch, w) \<Rightarrow>
                 let w = upd_ctx_ur self (\<lambda>c. c\<lparr>uc_cq := map_option (\<lambda>q. q\<lparr>cq_head := head\<rparr>) (uc_cq c)\<rparr>) w
                 in (case finish_batch env batch w of None \<Rightarrow> (Crash, w)
                     | Some w \<Rightarrow> (Ret (sint (of_nat (length batch) :: u32)), w))))"

text \<open>
  The callers turn a negative count into a null result without setting an exception
  themselves; the interpreter reports that as \<^verbatim>\<open>SystemError\<close>.
\<close>

definition drain_result :: "int outcome \<times> ur_world \<Rightarrow> pyval outcome \<times> ur_world" where
  "drain_result r =
     (case r of (Ret n, w) \<Rightarrow> ((if n < 0 then Raise (PyErr_SetNone PyExc_SystemError) else Ret (PyLong n)), w)
      | (Raise e, w) \<Rightarrow> (Raise e, w)
      | (Crash, w) \<Rightarrow> (Crash, w))"

section \<open>Submitting\<close>

definition zero_sqe :: io_uring_sqe where
  "zero_sqe = \<lparr>sqe_opcode = IORING_OP_NOP, sqe_fd = 0, sqe_off = 0, sqe_addr = 0, sqe_len = 0,
     sqe_fsync_flags = 0, sqe_user_data = 0\<rparr>"

text \<open>The entry of an operation; the second component says whether its opcode is known.\<close>

definition fill_sqe :: "ptr \<Rightarrow> AIOOperation_ur \<Rightarrow> io_uring_sqe \<times> bool" where
  "fill_sqe p x =
     (let sqe = zero_sqe\<lparr>sqe_fd := uo_fileno x, sqe_off := uo_offset x, sqe_user_data := p\<rparr> in
      if uo_opcode x = URING_READ then
        (sqe\<lparr>sqe_opcode := IORING_OP_READ, sqe_addr := uo_buf x, sqe_len := ucast (uo_buf_size x)\<rparr>, True)
      else if uo_opcode x = URING_WRITE then
        (sqe\<lparr>sqe_opcode := IORING_OP_WRITE, sqe_addr := uo_buf x, sqe_len := ucast (uo_buf_size x)\<rparr>, True)
      else if uo_opcode x = URING_FSYNC then (sqe\<lparr>sqe_opcode := IORING_OP_FSYNC\<rparr>, True)
      else if uo_opcode x = URING_FDSYNC then
        (sqe\<lparr>sqe_opcode := IORING_OP_FSYNC, sqe_fsync_flags := IORING_FSYNC_DATASYNC\<rparr>, True)
      else (sqe, False))"

definition store_sqe :: "ptr \<Rightarrow> u32 \<Rightarrow> io_uring_sqe \<Rightarrow> ur_world \<Rightarrow> ur_world" where
  "store_sqe self index sqe = upd_ctx_ur self (\<lambda>c. c\<lparr>uc_sqes := map_option (\<lambda>a. a(index := sqe)) (uc_sqes c)\<rparr>)"

definition store_array :: "ptr \<Rightarrow> u32 \<Rightarrow> ur_world \<Rightarrow> ur_world" where
  "store_array self index = upd_ctx_ur self (\<lambda>c. if uc_no_sqarray c = 0
     then c\<lparr>uc_sq := map_option (\<lambda>q. q\<lparr>sq_array := (sq_array q)(index := index)\<rparr>) (uc_sq c)\<rparr> else c)"

definition store_tail :: "ptr \<Rightarrow> u32 \<Rightarrow> ur_world \<Rightarrow> ur_world" where
  "store_tail self tail = upd_ctx_ur self (\<lambda>c. c\<lparr>uc_sq := map_option (\<lambda>q. q\<lparr>sq_tail := tail\<rparr>) (uc_sq c)\<rparr>)"

text \<open>The references and the Context an accepted operation takes.\<close>

definition hold_op_ur :: "ptr \<Rightarrow> ptr \<Rightarrow> ur_world \<Rightarrow> ur_world" where
  "hold_op_ur self p w =
     (let w = Py_INCREF p w;
          old = uo_context (op_ur w p);
          w = (if old = NULL then w else decref_ctx_ur old w);
          w = upd_op_ur p (\<lambda>x. x\<lparr>uo_context := self\<rparr>) w
      in Py_INCREF self w)"

fun submit_loop_ur ::
  "ptr \<Rightarrow> sq_ring \<Rightarrow> ptr list \<Rightarrow> u32 \<Rightarrow> u32 \<Rightarrow> ur_world \<Rightarrow> unit outcome \<times> u32 \<times> u32 \<times> ur_world" where
  "submit_loop_ur self q [] tail submitted w = (Ret (), tail, submitted, w)"
| "submit_loop_ur self q (p # ps) tail submitted w =
     (let claimed = uo_in_progress (op_ur w p);
          w = upd_op_ur p (\<lambda>x. x\<lparr>uo_in_progress := 1\<rparr>) w in
      if claimed \<noteq> 0 then submit_loop_ur self q ps tail submitted w
      else if tail - sq_head q \<ge> sq_ring_entries q then
        (Raise (PyErr_SetString PyExc_OverflowError ''io_uring SQ ring full''), tail, submitted,
         upd_op_ur p (\<lambda>x. x\<lparr>uo_in_progress := 0\<rparr>) w)
      else if uc_sqes (ctx_ur w self) = None then (Crash, tail, submitted, w)
      else
        let index = tail AND sq_ring_mask q;
            (sqe, known) = fill_sqe p (op_ur w p);
            w = store_sqe self index sqe w in
        if \<not> known then submit_loop_ur self q ps tail submitted (upd_op_ur p (\<lambda>x. x\<lparr>uo_in_progress := 0\<rparr>) w)
        else submit_loop_ur self q ps (tail + 1) (submitted + 1) (hold_op_ur self p (store_array self index w)))"

definition AIOContext_submit_ur :: "ptr \<Rightarrow> ptr list option \<Rightarrow> ur_world \<Rightarrow> pyval outcome \<times> ur_world" where
  "AIOContext_submit_ur self args w =
     (if uc_uring_fd (ctx_ur w self) < 0 then
        (Raise (PyErr_SetString PyExc_RuntimeError ''context not initialized''), w)
      else
        (case args of None \<Rightarrow> (Raise (PyErr_SetNone PyExc_ValueError), w)
         | Some ps \<Rightarrow>
             if ps = [] then (Ret (PyLong 0), w)
             else
               (case wrong_type (ur_ops w) 0 ps of
                  Some i \<Rightarrow> (Raise (PyErr_Format PyExc_TypeError ''argument %zd is not an Operation'' [int i]), w)
                | None \<Rightarrow>
                    (case uc_sq (ctx_ur w self) of None \<Rightarrow> (Crash, w)
                     | Some q \<Rightarrow>
                         let (r, tail, submitted, w) = submit_loop_ur self q ps (sq_tail q) 0 w
                         in (case r of Crash \<Rightarrow> (Crash, w)
                             | Raise e \<Rightarrow> (Raise e, store_tail self tail w)
                             | Ret _ \<Rightarrow> (Ret (PyLong (uint submitted)), store_tail self tail w))))))"

section \<open>Handing entries to the kernel\<close>

text \<open>The loop of \<^verbatim>\<open>flush\<close>; \<open>n\<close> counts the system calls. It need not end: \<open>None\<close>.\<close>

partial_function (option) flush_loop ::
  "ur_env \<Rightarrow> nat \<Rightarrow> u32 \<Rightarrow> ur_world \<Rightarrow> (pyexc option \<times> ur_world) option" where
  "flush_loop env n remaining w =
     (if remaining = 0 then Some (None, w)
      else
        let (ret, errno, w) = ue_enter env n remaining 0 w in
        if ret < 0 then Some (Some (PyErr_SetFromErrno PyExc_SystemError errno), w)
        else flush_loop env (Suc n) (remaining - word_of_int ret) w)"

abbreviation UINT32_MAX :: u32 where "UINT32_MAX \<equiv> 0xFFFFFFFF"

definition AIOContext_flush_ur :: "ur_env \<Rightarrow> ptr \<Rightarrow> ur_world \<Rightarrow> (pyval outcome \<times> ur_world) option" where
  "AIOContext_flush_ur env self w =
     (if uc_uring_fd (ctx_ur w self) < 0 then
        Some (Raise (PyErr_SetString PyExc_RuntimeError ''context not initialized''), w)
      else
        (case uc_sq (ctx_ur w self) of None \<Rightarrow> Some (Crash, w)
         | Some q \<Rightarrow>
             if uc_sqpoll (ctx_ur w self) \<noteq> 0 then
               let (ret, errno, w) = (if sq_flags q AND IORING_SQ_NEED_WAKEUP \<noteq> 0
                     then ue_enter env 0 0 IORING_ENTER_SQ_WAKEUP w else (0, 0, w)) in
               if ret < 0 then Some (Raise (PyErr_SetFromErrno PyExc_SystemError errno), w)
               else Some (drain_result (uring_drain_cq env self UINT32_MAX w))
             else
               let to_submit = sq_tail q - sq_head q in
               if to_submit = 0 then Some (Ret (PyLong 0), w)
               else
                 (case flush_loop env 0 to_submit w of None \<Rightarrow> None
                  | Some (Some e, w) \<Rightarrow> Some (Raise e, w)
                  | Some (None, w) \<Rightarrow> Some (drain_result (uring_drain_cq env self UINT32_MAX w)))))"

definition cancel_sqe :: "ptr \<Rightarrow> io_uring_sqe" where
  "cancel_sqe op = zero_sqe\<lparr>sqe_opcode := IORING_OP_ASYNC_CANCEL, sqe_addr := op, sqe_user_data := CANCEL_USER_DATA\<rparr>"

definition AIOContext_cancel_ur :: "ur_env \<Rightarrow> ptr \<Rightarrow> ptr option \<Rightarrow> ur_world \<Rightarrow> pyval outcome \<times> ur_world" where
  "AIOContext_cancel_ur env self parsed w =
     (case parsed of None \<Rightarrow> (Raise PyErr_Pending, w)
      | Some op \<Rightarrow>
          (case uc_sq (ctx_ur w self) of None \<Rightarrow> (Crash, w)
           | Some q \<Rightarrow>
               if sq_tail q - sq_head q \<ge> sq_ring_entries q then
                 (Raise (PyErr_SetString PyExc_OverflowError ''io_uring SQ ring full''), w)
               else if uc_sqes (ctx_ur w self) = None then (Crash, w)
               else
                 let index = sq_tail q AND sq_ring_mask q;
                     w = store_tail self (sq_tail q + 1) (store_array self index (store_sqe self index (cancel_sqe op) w));
                     (ret, errno, w) = ue_enter env 0 1 0 w
                 in (Ret (PyLong 0), w)))"

section \<open>Waiting for completions\<close>

definition cq_avail :: "ptr \<Rightarrow> ur_world \<Rightarrow> u32 option" where
  "cq_avail self w = map_option (\<lambda>q. cq_tail q - cq_head q) (uc_cq (ctx_ur w self))"

text \<open>The time left in milliseconds, and the timeout for \<^verbatim>\<open>poll\<close>: none left is \<open>None\<close>.\<close>

definition remaining_ms :: "int \<times> int \<Rightarrow> int \<times> int \<Rightarrow> int" where
  "remaining_ms deadline now = (fst deadline - fst now) * 1000 + c_div (snd deadline - snd now) 1000000"

definition poll_timeout_ms :: "(int \<times> int) option \<Rightarrow> int \<times> int \<Rightarrow> int option" where
  "poll_timeout_ms deadline now =
     (case deadline of None \<Rightarrow> Some (- 1)
      | Some d \<Rightarrow>
          let ms = remaining_ms d now in
          if ms \<le> 0 then None else if ms > 2147483647 then Some 2147483647 else Some ms)"

text \<open>
  The waiting loop of \<^verbatim>\<open>process_events\<close>, in its \<open>n\<close>-th iteration. The result is the saved
  \<^verbatim>\<open>errno\<close> (0 if there was no error); \<open>None\<close> if the loop does not end.
\<close>

partial_function (option) wait_loop ::
  "ur_env \<Rightarrow> ptr \<Rightarrow> u32 \<Rightarrow> (int \<times> int) option \<Rightarrow> nat \<Rightarrow> ur_world \<Rightarrow> (int outcome \<times> ur_world) option" where
  "wait_loop env self min_requests deadline n w =
     (case cq_avail self w of None \<Rightarrow> Some (Crash, w)
      | Some a \<Rightarrow>
          if a \<ge> min_requests then Some (Ret 0, w)
          else
            let (ret, errno, w) = ue_enter env n 0 IORING_ENTER_GETEVENTS w in
            if ret < 0 \<and> errno \<noteq> ue_eintr env then Some (Ret errno, w)
            else
              (case cq_avail self w of None \<Rightarrow> Some (Crash, w)
               | Some a \<Rightarrow>
                   if a \<ge> min_requests then Some (Ret 0, w)
                   else
                     (case poll_timeout_ms deadline (ue_now env (Suc n)) of None \<Rightarrow> Some (Ret 0, w)
                      | Some ms \<Rightarrow>
                          let (pret, errno, w) = ue_poll env n ms w in
                          if pret < 0 \<and> errno \<noteq> ue_eintr env then Some (Ret errno, w)
                          else wait_loop env self min_requests deadline (Suc n) w)))"

text \<open>An omitted argument is parsed as 0.\<close>

definition AIOContext_process_events_ur ::
  "ur_env \<Rightarrow> ptr \<Rightarrow> (u32 \<times> u32 \<times> int) option \<Rightarrow> ur_world \<Rightarrow> (pyval outcome \<times> ur_world) option" where
  "AIOContext_process_events_ur env self parsed w =
     (case parsed of None \<Rightarrow> Some (Raise PyErr_Pending, w)
      | Some (max_requests, min_requests, tv_sec) \<Rightarrow>
          let max_requests = (if max_requests = 0 then EV_MAX_REQUESTS_DEFAULT_ur else max_requests) in
          if min_requests > max_requests then
            Some (Raise (PyErr_Format PyExc_ValueError ''min_requests (%u) must be <= max_requests (%u)''
                [uint min_requests, uint max_requests]), w)
          else if min_requests > 0 \<and> tv_sec = 0 then
            let (ret, errno, w) = ue_enter env 0 0 IORING_ENTER_GETEVENTS w in
            if ret < 0 \<and> errno \<noteq> ue_eintr env then Some (Raise (PyErr_SetFromErrno PyExc_SystemError errno), w)
            else Some (drain_result (uring_drain_cq env self max_requests w))
          else if min_requests > 0 then
            let deadline = (if tv_sec > 0 then Some (fst (ue_now env 0) + tv_sec, snd (ue_now env 0)) else None) in
            (case wait_loop env self min_requests deadline 0 w of None \<Rightarrow> None
             | Some (Ret saved_errno, w) \<Rightarrow>
                 if saved_errno \<noteq> 0 then Some (Raise (PyErr_SetFromErrno PyExc_SystemError saved_errno), w)
                 else Some (drain_result (uring_drain_cq env self max_requests w))
             | Some (Raise e, w) \<Rightarrow> Some (Raise e, w)
             | Some (Crash, w) \<Rightarrow> Some (Crash, w))
          else Some (drain_result (uring_drain_cq env self max_requests w)))"

text \<open>\<open>n\<close> is the number of bytes \<^verbatim>\<open>read\<close> delivered, \<open>counter\<close> what they are.\<close>

definition AIOContext_poll_ur :: "int \<Rightarrow> u64 \<Rightarrow> pyval outcome" where
  "AIOContext_poll_ur n counter =
     (if n \<noteq> 8 then Raise (PyErr_SetNone PyExc_BlockingIOError) else Ret (PyLong (uint counter)))"

section \<open>Context: creation\<close>

definition new_ctx_ur :: AIOContext_ur where
  "new_ctx_ur = \<lparr>uc_uring_fd = - 1, uc_eventfd_fd = - 1, uc_max_requests = 0,
     uc_sq_ring_ptr = MAP_FAILED, uc_sq_ring_size = 0, uc_sq = None,
     uc_sqes_ptr = MAP_FAILED, uc_sqes_size = 0, uc_sqes = None,
     uc_cq_ring_ptr = MAP_FAILED, uc_cq_ring_size = 0, uc_cq = None,
     uc_no_sqarray = 0, uc_sqpoll = 0, uc_weakreflist = NULL\<rparr>"

definition AIOContext_new_ur :: "ptr \<Rightarrow> ur_world \<Rightarrow> ur_world" where
  "AIOContext_new_ur self w =
     (if self = NULL then w
      else w\<lparr>ur_ctxs := (ur_ctxs w)(self := Some new_ctx_ur), refs := (refs w)(self := 1)\<rparr>)"

record io_uring_params =
  ip_features :: u32
  ip_sq_entries :: u32
  ip_cq_entries :: u32
  ip_sq_off_flags :: u32
  ip_sq_off_array :: u32
  ip_cq_off_cqes :: u32

text \<open>
  The answers during initialisation: each call gives its result and \<^verbatim>\<open>errno\<close>. \<open>ie_setup\<close> is
  asked with the number of entries and the flags; \<open>ie_mmap\<close> with the size, for the
  submission ring (0), the completion ring (1) and the entries (2). The contents of the
  mappings come from the kernel.
\<close>

record init_env_ur =
  ie_eventfd :: "int \<times> int"
  ie_setup :: "u32 \<Rightarrow> u32 \<Rightarrow> int \<times> int \<times> io_uring_params"
  ie_mmap :: "nat \<Rightarrow> u64 \<Rightarrow> ptr \<times> int"
  ie_sq :: sq_ring
  ie_cq :: cq_ring
  ie_sqes :: "u32 \<Rightarrow> io_uring_sqe"
  ie_register :: "int \<times> int"
  ie_einval :: int
  ie_eperm :: int

definition flag_table :: "bool \<Rightarrow> u32 list" where
  "flag_table want_sqpoll =
     (if want_sqpoll then [IORING_SETUP_SQPOLL OR IORING_SETUP_NO_SQARRAY, IORING_SETUP_SQPOLL, 0]
      else [IORING_SETUP_NO_SQARRAY, 0])"

text \<open>
  The probe loop: the flags and parameters that were accepted, or the error. The last
  failure is what is raised when the table is exhausted.
\<close>

fun setup_loop :: "init_env_ur \<Rightarrow> u32 \<Rightarrow> u32 list \<Rightarrow> int \<times> int \<Rightarrow> (int \<times> u32 \<times> io_uring_params) + (int \<times> int)" where
  "setup_loop ie entries [] failed = Inr failed"
| "setup_loop ie entries (flags # table) failed =
     (let (fd, errno, params) = ie_setup ie entries flags in
      if fd \<ge> 0 then Inl (fd, flags, params)
      else if errno \<noteq> ie_einval ie \<and> errno \<noteq> ie_eperm ie then Inr (fd, errno)
      else setup_loop ie entries table (fd, errno))"

definition sq_size :: "bool \<Rightarrow> io_uring_params \<Rightarrow> u64" where
  "sq_size no_sqarray ps =
     (if no_sqarray then ucast (ip_sq_off_flags ps) + 4
      else ucast (ip_sq_off_array ps) + ucast (ip_sq_entries ps) * 4)"

definition cq_size :: "io_uring_params \<Rightarrow> u64" where
  "cq_size ps = ucast (ip_cq_off_cqes ps) + ucast (ip_cq_entries ps) * 16"

abbreviation errno_error :: "int \<Rightarrow> unit outcome" where
  "errno_error e \<equiv> Raise (PyErr_SetFromErrno PyExc_SystemError e)"

text \<open>The two layouts of the ring mappings.\<close>

definition map_rings :: "init_env_ur \<Rightarrow> io_uring_params \<Rightarrow> AIOContext_ur \<Rightarrow> unit outcome \<times> AIOContext_ur" where
  "map_rings ie ps c =
     (let sq = sq_size (uc_no_sqarray c \<noteq> 0) ps; cq = cq_size ps in
      if ip_features ps AND IORING_FEAT_SINGLE_MMAP \<noteq> 0 then
        let size = (if sq > cq then sq else cq);
            (ptr, errno) = ie_mmap ie 0 size;
            c = c\<lparr>uc_sq_ring_size := size, uc_sq_ring_ptr := ptr\<rparr> in
        if ptr = MAP_FAILED then (errno_error errno, c)
        else (Ret (), c\<lparr>uc_cq_ring_ptr := ptr, uc_cq_ring_size := 0\<rparr>)
      else
        let (ptr, errno) = ie_mmap ie 0 sq;
            c = c\<lparr>uc_sq_ring_size := sq, uc_sq_ring_ptr := ptr\<rparr> in
        if ptr = MAP_FAILED then (errno_error errno, c)
        else
          let (ptr, errno) = ie_mmap ie 1 cq;
              c = c\<lparr>uc_cq_ring_size := cq, uc_cq_ring_ptr := ptr\<rparr> in
          if ptr = MAP_FAILED then (errno_error errno, c) else (Ret (), c))"

text \<open>After the rings: their pointers, the mapping of the entries, the eventfd.\<close>

definition finish_init_ur :: "init_env_ur \<Rightarrow> io_uring_params \<Rightarrow> AIOContext_ur \<Rightarrow> unit outcome \<times> AIOContext_ur" where
  "finish_init_ur ie ps c =
     (let c = c\<lparr>uc_sq := Some (ie_sq ie)\<rparr>;
          size = ucast (ip_sq_entries ps) * 64;
          (ptr, errno) = ie_mmap ie 2 size;
          c = c\<lparr>uc_sqes_size := size, uc_sqes_ptr := ptr\<rparr> in
      if ptr = MAP_FAILED then (errno_error errno, c)
      else
        let c = c\<lparr>uc_sqes := Some (ie_sqes ie), uc_cq := Some (ie_cq ie)\<rparr>;
            (ret, errno) = ie_register ie in
        if ret < 0 then (errno_error errno, c) else (Ret (), c))"

definition AIOContext_init_ur ::
  "init_env_ur \<Rightarrow> (u32 \<times> bool) option \<Rightarrow> AIOContext_ur \<Rightarrow> unit outcome \<times> AIOContext_ur" where
  "AIOContext_init_ur ie parsed c =
     (let c = c\<lparr>uc_max_requests := 0\<rparr> in
      case parsed of None \<Rightarrow> (Raise PyErr_Pending, c)
      | Some (max_requests, want_sqpoll) \<Rightarrow>
          let c = c\<lparr>uc_max_requests := (if max_requests = 0 then CTX_MAX_REQUESTS_DEFAULT_ur else max_requests)\<rparr>;
              (fd, errno) = ie_eventfd ie;
              c = c\<lparr>uc_eventfd_fd := fd\<rparr> in
          if fd < 0 then (errno_error errno, c)
          else
            (case setup_loop ie (uc_max_requests c + 1) (flag_table want_sqpoll) (- 1, 0) of
               Inr (fd, errno) \<Rightarrow> (errno_error errno, c\<lparr>uc_uring_fd := fd\<rparr>)
             | Inl (fd, flags, ps) \<Rightarrow>
                 let c = c\<lparr>uc_uring_fd := fd,
                       uc_no_sqarray := (if flags AND IORING_SETUP_NO_SQARRAY \<noteq> 0 then 1 else 0),
                       uc_sqpoll := (if flags AND IORING_SETUP_SQPOLL \<noteq> 0 then 1 else 0)\<rparr>;
                     (r, c) = map_rings ie ps c in
                 if r \<noteq> Ret () then (r, c) else finish_init_ur ie ps c))"

section \<open>Operations: creation\<close>

definition zero_op_ur :: AIOOperation_ur where
  "zero_op_ur = \<lparr>uo_py_buffer = NULL, uo_callback = NULL, uo_context = NULL, uo_weakreflist = NULL,
     uo_opcode = 0, uo_fileno = 0, uo_offset = 0, uo_result = 0, uo_error = 0, uo_buf_size = 0,
     uo_buf = NULL, uo_in_progress = 0, uo_done = 0\<rparr>"

definition alloc_op_ur :: "ptr \<Rightarrow> ur_world \<Rightarrow> ur_world" where
  "alloc_op_ur self w = w\<lparr>ur_ops := (ur_ops w)(self := Some zero_op_ur), refs := (refs w)(self := 1)\<rparr>"

definition no_memory_ur :: pyexc where
  "no_memory_ur = PyErr_SetString PyExc_MemoryError ''cannot allocate memory''"

text \<open>
  \<open>bytes\<close> is the answer of \<^verbatim>\<open>PyBytes_FromStringAndSize(NULL, nbytes)\<close>: the object (null on
  failure), its storage and what the storage held before.
\<close>

definition AIOOperation_read_ur ::
  "ptr \<Rightarrow> (u64 \<times> u32 \<times> u64 option) option \<Rightarrow> ptr \<times> ptr \<times> u8 list \<Rightarrow> ur_world \<Rightarrow> pyval outcome \<times> ur_world" where
  "AIOOperation_read_ur self parsed bytes w =
     (if self = NULL then (Raise no_memory_ur, w)
      else
        let w = alloc_op_ur self w in
        case parsed of None \<Rightarrow> (Raise PyErr_Pending, decref_op_ur self w)
        | Some (nbytes, fileno, offset) \<Rightarrow>
            let w = upd_op_ur self (\<lambda>x. x\<lparr>uo_fileno := fileno,
                  uo_offset := (case offset of None \<Rightarrow> uo_offset x | Some off \<Rightarrow> off)\<rparr>) w;
                (obj, block, garbage) = bytes;
                w = upd_op_ur self (\<lambda>x. x\<lparr>uo_py_buffer := obj\<rparr>) w in
            if obj = NULL then (Raise PyErr_Pending, decref_op_ur self w)
            else
              let w = w\<lparr>refs := (refs w)(obj := 1), bytes_at := (bytes_at w)(obj := block),
                        mem := (mem w)(block := Some garbage)\<rparr>;
                  w = upd_op_ur self (\<lambda>x. x\<lparr>uo_buf := bytes_at w obj, uo_buf_size := nbytes\<rparr>) w;
                  w = store_bytes (uo_buf (op_ur w self)) (replicate (unat nbytes) 0) w
              in (Ret (PyObj self), upd_op_ur self (\<lambda>x. x\<lparr>uo_opcode := URING_READ\<rparr>) w))"

definition AIOOperation_write_ur ::
  "ptr \<Rightarrow> (ptr \<times> u32 \<times> u64 option) option \<Rightarrow> bool \<Rightarrow> ur_world \<Rightarrow> pyval outcome \<times> ur_world" where
  "AIOOperation_write_ur self parsed as_string w =
     (if self = NULL then (Raise no_memory_ur, w)
      else
        let w = alloc_op_ur self w in
        case parsed of None \<Rightarrow> (Raise PyErr_Pending, decref_op_ur self w)
        | Some (payload, fileno, offset) \<Rightarrow>
            let w = upd_op_ur self (\<lambda>x. x\<lparr>uo_fileno := fileno,
                  uo_offset := (case offset of None \<Rightarrow> uo_offset x | Some off \<Rightarrow> off)\<rparr>) w in
            if bytes_at w payload = NULL then
              (Raise (PyErr_SetString PyExc_ValueError ''payload_bytes must be bytes''), decref_op_ur self w)
            else if \<not> as_string then (Raise PyErr_Pending, decref_op_ur self w)
            else
              let b = bytes_at w payload;
                  w = upd_op_ur self (\<lambda>x. x\<lparr>uo_buf := b, uo_buf_size := of_nat (length (the (mem w b))),
                        uo_py_buffer := payload\<rparr>) w
              in (Ret (PyObj self), upd_op_ur self (\<lambda>x. x\<lparr>uo_opcode := URING_WRITE\<rparr>) (Py_INCREF payload w)))"

definition AIOOperation_sync_ur :: "u8 \<Rightarrow> ptr \<Rightarrow> u32 option \<Rightarrow> ur_world \<Rightarrow> pyval outcome \<times> ur_world" where
  "AIOOperation_sync_ur code self parsed w =
     (if self = NULL then (Raise no_memory_ur, w)
      else
        let w = alloc_op_ur self w in
        case parsed of None \<Rightarrow> (Raise PyErr_Pending, decref_op_ur self w)
        | Some fileno \<Rightarrow> (Ret (PyObj self), upd_op_ur self (\<lambda>x. x\<lparr>uo_fileno := fileno, uo_opcode := code\<rparr>) w))"

definition AIOOperation_fsync_ur :: "ptr \<Rightarrow> u32 option \<Rightarrow> ur_world \<Rightarrow> pyval outcome \<times> ur_world" where
  "AIOOperation_fsync_ur = AIOOperation_sync_ur URING_FSYNC"

definition AIOOperation_fdsync_ur :: "ptr \<Rightarrow> u32 option \<Rightarrow> ur_world \<Rightarrow> pyval outcome \<times> ur_world" where
  "AIOOperation_fdsync_ur = AIOOperation_sync_ur URING_FDSYNC"

section \<open>Operations: results\<close>

text \<open>\<open>stored\<close>: the contents of a bytes object, whose length is its size.\<close>

definition stored :: "ptr \<Rightarrow> 'a pyrt_scheme \<Rightarrow> u8 list" where
  "stored obj w = the (mem w (bytes_at w obj))"

definition AIOOperation_get_value_ur :: "ptr \<Rightarrow> ur_world \<Rightarrow> pyval outcome \<times> ur_world" where
  "AIOOperation_get_value_ur self w =
     (let x = op_ur w self in
      if uo_in_progress x \<noteq> 0 \<and> uo_done x = 0 then
        (Raise (PyErr_SetString PyExc_RuntimeError ''get_value() is not available while the operation is in flight''), w)
      else if uo_error x \<noteq> 0 then (Raise (PyErr_Format PyExc_SystemError ''strerror'' [sint (uo_error x)]), w)
      else if uo_opcode x = URING_READ then
        if uo_py_buffer x = NULL then (Ret PyNone, w)
        else if uo_buf_size x = of_nat (length (stored (uo_py_buffer x) w)) then
          (Ret (PyObj (uo_py_buffer x)), Py_INCREF (uo_py_buffer x) w)
        else (PyBytes_FromStringAndSize (uo_buf x) (uo_buf_size x) w, w)
      else if uo_opcode x = URING_WRITE then (Ret (PyLong (sint (uo_result x))), w)
      else (Ret PyNone, w))"

definition AIOOperation_payload_getter_ur :: "ptr \<Rightarrow> ur_world \<Rightarrow> pyval outcome \<times> ur_world" where
  "AIOOperation_payload_getter_ur self w =
     (let x = op_ur w self in
      if uo_in_progress x \<noteq> 0 \<and> uo_done x = 0 then
        (Raise (PyErr_SetString PyExc_RuntimeError ''payload is not available while the operation is in flight''), w)
      else if uo_py_buffer x = NULL then (Ret PyNone, w)
      else (Ret (PyObj (uo_py_buffer x)), Py_INCREF (uo_py_buffer x) w))"

definition AIOOperation_set_callback_ur :: "ptr \<Rightarrow> ptr \<Rightarrow> bool \<Rightarrow> ur_world \<Rightarrow> pyval outcome \<times> ur_world" where
  "AIOOperation_set_callback_ur self callback callable w =
     (if \<not> callable then (Raise (PyErr_Format PyExc_ValueError ''object %r is not callable'' [uint callback]), w)
      else
        let w = Py_INCREF callback w;
            old = uo_callback (op_ur w self);
            w = upd_op_ur self (\<lambda>x. x\<lparr>uo_callback := callback\<rparr>) w
        in (Ret PyTrue, Py_XDECREF old w))"

end
