(* ===== verification/Uring_Properties.thy ===== *)
theory Uring_Properties
  imports Linux_URING
begin

text \<open>
  Properties of the io_uring backend. First the rings: the completion entries between head
  and tail as a list, and the scan of \<^verbatim>\<open>uring_drain_cq\<close> as a function on that list. Then
  the submission ring as a bounded queue, \<^verbatim>\<open>submit\<close>, \<^verbatim>\<open>cancel\<close> and \<^verbatim>\<open>flush\<close> over it. Then
  waiting, the life of a Context, and results.
\<close>

section \<open>The state operations field by field\<close>

lemma upd_op_ur_frame [simp]:
  "ur_ops (upd_op_ur p f w) = (ur_ops w)(p := map_option f (ur_ops w p))"
  "ur_ctxs (upd_op_ur p f w) = ur_ctxs w" "refs (upd_op_ur p f w) = refs w"
  "mem (upd_op_ur p f w) = mem w" "bytes_at (upd_op_ur p f w) = bytes_at w"
  "trace (upd_op_ur p f w) = trace w"
  by (simp_all add: upd_op_ur_def)

lemma upd_ctx_ur_frame [simp]:
  "ur_ctxs (upd_ctx_ur p g w) = (ur_ctxs w)(p := map_option g (ur_ctxs w p))"
  "ur_ops (upd_ctx_ur p g w) = ur_ops w" "refs (upd_ctx_ur p g w) = refs w"
  "mem (upd_ctx_ur p g w) = mem w" "bytes_at (upd_ctx_ur p g w) = bytes_at w"
  "trace (upd_ctx_ur p g w) = trace w"
  by (simp_all add: upd_ctx_ur_def)

lemma ur_rt_frame [simp]:
  "ur_ops (Py_INCREF p w) = ur_ops w" "ur_ctxs (Py_INCREF p w) = ur_ctxs w"
  "ur_ops (Py_DECREF p w) = ur_ops w" "ur_ctxs (Py_DECREF p w) = ur_ctxs w"
  "ur_ops (emit e w) = ur_ops w" "ur_ctxs (emit e w) = ur_ctxs w"
  "ur_ops (store_bytes p data w) = ur_ops w" "ur_ctxs (store_bytes p data w) = ur_ctxs w"
  by (simp_all add: Py_INCREF_def Py_DECREF_def decref_with_def py_dealloc_def emit_def
      store_bytes_def Let_def)

lemma dealloc_ctx_ops [simp]: "ur_ops (AIOContext_dealloc_ur self w) = ur_ops w"
  by (simp add: AIOContext_dealloc_ur_def Let_def)

lemma decref_ctx_ops [simp]: "ur_ops (decref_ctx_ur cx w) = ur_ops w"
  by (simp add: decref_ctx_ur_def decref_with_def Let_def)

lemma clear_context_ops [simp]:
  "ur_ops (clear_context_ur p w) = (ur_ops w)(p := map_option (\<lambda>x. x\<lparr>uo_context := NULL\<rparr>) (ur_ops w p))"
  by (simp add: clear_context_ur_def Let_def)

section \<open>The completion ring as a list\<close>

definition cq_entries :: "cq_ring \<Rightarrow> u32 \<Rightarrow> u32 \<Rightarrow> io_uring_cqe list" where
  "cq_entries cq head tail =
     ring_list (cqes cq) (\<lambda>i. (head + of_nat i) AND cq_ring_mask cq) (unat (tail - head))"

lemma cq_entries_Nil [simp]: "cq_entries cq head head = []"
  by (simp add: cq_entries_def)

lemma cq_entries_Cons:
  "head \<noteq> tail \<Longrightarrow> cq_entries cq head tail = cqes cq (head AND cq_ring_mask cq) # cq_entries cq (head + 1) tail"
  unfolding cq_entries_def
  by (subst unat_diff_Suc [symmetric]) (auto simp: ring_list_Cons add.assoc intro!: ring_list_cong)

abbreviation is_real :: "io_uring_cqe \<Rightarrow> bool" where
  "is_real e \<equiv> cqe_user_data e \<noteq> CANCEL_USER_DATA"

abbreviation entry_of :: "io_uring_cqe \<Rightarrow> ptr \<times> u32" where
  "entry_of e \<equiv> (cqe_user_data e, cqe_res e)"

text \<open>The entries a scan with room for \<open>k\<close> operations consumes.\<close>

fun consumed :: "nat \<Rightarrow> io_uring_cqe list \<Rightarrow> io_uring_cqe list" where
  "consumed k [] = []"
| "consumed k (e # es) =
     (if k = 0 then [] else e # consumed (if is_real e then k - 1 else k) es)"

lemma consumed_prefix: "consumed k es = take (length (consumed k es)) es"
  by (induction k es rule: consumed.induct) auto

lemma consumed_bound: "length (filter is_real (consumed k es)) \<le> k"
  by (induction k es rule: consumed.induct) auto

lemma consumed_all: "length es \<le> k \<Longrightarrow> consumed k es = es"
  by (induction k es rule: consumed.induct) auto

text \<open>With room left, everything was consumed: nothing available is left behind.\<close>

lemma consumed_room: "length (filter is_real (consumed k es)) < k \<Longrightarrow> consumed k es = es"
  by (induction k es rule: consumed.induct) (auto split: if_splits)

abbreviation complete_all :: "(ptr \<times> u32) list \<Rightarrow> ur_world \<Rightarrow> ur_world" where
  "complete_all es w \<equiv> fold (\<lambda>(p, r). complete_cqe p r) es w"

lemma complete_cqe_dom: "ur_ops (complete_cqe p r w) q = None \<longleftrightarrow> ur_ops w q = None"
  by (simp add: complete_cqe_def Let_def)

lemma complete_all_dom: "ur_ops (complete_all es w) q = None \<longleftrightarrow> ur_ops w q = None"
  by (induction es arbitrary: w) (simp_all add: complete_cqe_dom split_beta)

lemma scan_cq_list:
  assumes "n \<le> limit"
    and "\<forall>e\<in>set (consumed (unat (limit - n)) (cq_entries cq head tail)). is_real e \<longrightarrow> ur_ops w (cqe_user_data e) \<noteq> None"
  shows "scan_cq cq head tail limit n batch w =
    (let es = consumed (unat (limit - n)) (cq_entries cq head tail); real = map entry_of (filter is_real es)
     in Some (head + of_nat (length es), batch @ real, complete_all real w))"
  using assms
proof (induction cq head tail limit n batch w rule: scan_cq.induct)
  case (1 cq head tail limit n batch w)
  show ?case
  proof (cases "head \<noteq> tail \<and> n < limit")
    case False
    then have "head = tail \<or> limit - n = 0" using "1.prems"(1) by (auto simp: not_less)
    then have "consumed (unat (limit - n)) (cq_entries cq head tail) = []"
      by (cases "cq_entries cq head tail") auto
    moreover have "scan_cq cq head tail limit n batch w = Some (head, batch, w)"
      using False by (subst scan_cq.simps) auto
    ultimately show ?thesis by simp
  next
    case True
    let ?e = "cqes cq (head AND cq_ring_mask cq)"
    have es: "cq_entries cq head tail = ?e # cq_entries cq (head + 1) tail"
      using True by (intro cq_entries_Cons) simp
    have k: "unat (limit - n) \<noteq> 0" using True by (auto simp: unat_eq_0)
    have pred: "unat (limit - (n + 1)) = unat (limit - n) - 1"
    proof -
      have "n \<noteq> limit" using True by blast
      from unat_diff_Suc [OF this] show ?thesis by simp
    qed
    show ?thesis
    proof (cases "is_real ?e")
      case False
      then have "scan_cq cq head tail limit n batch w = scan_cq cq (head + 1) tail limit n batch w"
        using True by (subst scan_cq.simps) simp
      moreover have "\<forall>e\<in>set (consumed (unat (limit - n)) (cq_entries cq (head + 1) tail)).
          is_real e \<longrightarrow> ur_ops w (cqe_user_data e) \<noteq> None"
        using "1.prems"(2) False k by (simp add: es)
      ultimately show ?thesis
        using "1.IH"(1) [OF True refl refl _ "1.prems"(1)] False k by (simp add: es Let_def)
    next
      case real: True
      have live: "ur_ops w (cqe_user_data ?e) \<noteq> None"
        using "1.prems"(2) real k by (simp add: es)
      let ?w = "complete_cqe (cqe_user_data ?e) (cqe_res ?e) w"
      have "scan_cq cq head tail limit n batch w =
          scan_cq cq (head + 1) tail limit (n + 1) (batch @ [entry_of ?e]) ?w"
        using True real live by (subst scan_cq.simps) (auto simp: Let_def)
      moreover have "\<forall>e\<in>set (consumed (unat (limit - (n + 1))) (cq_entries cq (head + 1) tail)).
          is_real e \<longrightarrow> ur_ops ?w (cqe_user_data e) \<noteq> None"
        using "1.prems"(2) real k by (simp add: es pred complete_cqe_dom)
      moreover have "n + 1 \<le> limit" using True by (simp add: inc_le)
      ultimately show ?thesis
        using "1.IH"(2) [OF True refl refl _ live] real k by (simp add: es pred Let_def)
    qed
  qed
qed

section \<open>Completing a batch\<close>

definition completed_op_ur :: "u32 \<Rightarrow> AIOOperation_ur \<Rightarrow> AIOOperation_ur" where
  "completed_op_ur res x =
     x\<lparr>uo_result := res, uo_error := (if sint res < 0 then - res else uo_error x),
       uo_buf_size := (if 0 \<le> sint res \<and> uo_opcode x = URING_READ then scast res else uo_buf_size x),
       uo_context := NULL, uo_done := 1\<rparr>"

lemma completed_op_ur_fields [simp]:
  "uo_result (completed_op_ur res x) = res" "uo_context (completed_op_ur res x) = NULL"
  "uo_done (completed_op_ur res x) = 1" "uo_in_progress (completed_op_ur res x) = uo_in_progress x"
  "uo_callback (completed_op_ur res x) = uo_callback x" "uo_opcode (completed_op_ur res x) = uo_opcode x"
  "uo_py_buffer (completed_op_ur res x) = uo_py_buffer x" "uo_buf (completed_op_ur res x) = uo_buf x"
  "uo_error (completed_op_ur res x) = (if sint res < 0 then - res else uo_error x)"
  "uo_buf_size (completed_op_ur res x) =
     (if 0 \<le> sint res \<and> uo_opcode x = URING_READ then scast res else uo_buf_size x)"
  by (simp_all add: completed_op_ur_def)

lemma complete_cqe_closed:
  assumes op: "ur_ops w p = Some x" and ctx: "uo_context x = self" "self \<noteq> NULL" "1 < refs w self"
  shows "complete_cqe p res w = w\<lparr>refs := (refs w)(self := refs w self - 1),
     ur_ops := (ur_ops w)(p := Some (completed_op_ur res x))\<rparr>"
proof -
  have fin: "complete_cqe p res w = upd_op_ur p (\<lambda>x. x\<lparr>uo_done := 1\<rparr>)
      ((upd_op_ur p (\<lambda>x. x\<lparr>uo_context := NULL\<rparr>) v)\<lparr>refs := (refs w)(self := refs w self - 1)\<rparr>)"
    if v: "v = upd_op_ur p (\<lambda>x. x\<lparr>uo_result := res, uo_error := (if sint res < 0 then - res else uo_error x),
       uo_buf_size := (if 0 \<le> sint res \<and> uo_opcode x = URING_READ then scast res else uo_buf_size x)\<rparr>) w" for v
  proof -
    have "uo_opcode (op_ur (upd_op_ur p (\<lambda>x. x\<lparr>uo_result := res\<rparr>) w) p) = uo_opcode x"
      using op by (simp add: op_ur_def)
    then have "(if sint res < 0 then upd_op_ur p (\<lambda>x. x\<lparr>uo_error := - res\<rparr>) (upd_op_ur p (\<lambda>x. x\<lparr>uo_result := res\<rparr>) w)
       else if uo_opcode (op_ur (upd_op_ur p (\<lambda>x. x\<lparr>uo_result := res\<rparr>) w) p) = URING_READ
       then upd_op_ur p (\<lambda>x. x\<lparr>uo_buf_size := scast res\<rparr>) (upd_op_ur p (\<lambda>x. x\<lparr>uo_result := res\<rparr>) w)
       else upd_op_ur p (\<lambda>x. x\<lparr>uo_result := res\<rparr>) w) = v"
      using op by (cases x) (auto simp: v upd_op_ur_def not_less)
    moreover have "clear_context_ur p v = (upd_op_ur p (\<lambda>x. x\<lparr>uo_context := NULL\<rparr>) v)\<lparr>refs := (refs w)(self := refs w self - 1)\<rparr>"
      using op ctx by (simp add: v clear_context_ur_def op_ur_def decref_ctx_ur_def decref_alive Let_def)
    ultimately show ?thesis by (simp only: complete_cqe_def Let_def)
  qed
  show ?thesis
    using op by (subst fin [OF refl], intro ur_world.equality) (simp_all add: completed_op_ur_def)
qed

text \<open>
  What the kernel promises of the entries it has posted: each is a cancellation or belongs
  to an operation in flight on this Context, no operation completes twice, and every
  operation in flight holds its own reference on the Context, apart from the caller's.
\<close>

definition batch_ok :: "ptr \<Rightarrow> ur_world \<Rightarrow> (ptr \<times> u32) list \<Rightarrow> bool" where
  "batch_ok self w es \<longleftrightarrow> self \<noteq> NULL \<and> distinct (map fst es) \<and> int (length es) < refs w self \<and>
     (\<forall>e\<in>set es. \<exists>x. ur_ops w (fst e) = Some x \<and> uo_context x = self)"

definition completed_world :: "ptr \<Rightarrow> (ptr \<times> u32) list \<Rightarrow> ur_world \<Rightarrow> ur_world" where
  "completed_world self es w =
     w\<lparr>refs := (refs w)(self := refs w self - int (length es)),
       ur_ops := (\<lambda>p. case map_of es p of None \<Rightarrow> ur_ops w p
                  | Some res \<Rightarrow> map_option (completed_op_ur res) (ur_ops w p))\<rparr>"

lemma complete_all_closed: "batch_ok self w es \<Longrightarrow> complete_all es w = completed_world self es w"
proof (induction es arbitrary: w)
  case Nil
  then show ?case by (simp add: completed_world_def)
next
  case (Cons e es)
  obtain p res where e: "e = (p, res)" by (cases e)
  from Cons.prems e obtain x where x: "ur_ops w p = Some x" "uo_context x = self" "self \<noteq> NULL"
    and notin: "p \<notin> fst ` set es" and ref: "1 < refs w self"
    by (auto simp: batch_ok_def)
  let ?w = "complete_cqe p res w"
  note closed = complete_cqe_closed [OF x ref, of res]
  have "batch_ok self ?w es"
    using Cons.prems notin by (auto simp: batch_ok_def closed e)
  then have "complete_all (e # es) w = completed_world self es ?w"
    using Cons.IH by (simp add: e)
  also have "\<dots> = completed_world self (e # es) w"
  proof -
    have "map_of es p = None" using notin by (simp add: map_of_eq_None_iff)
    then show ?thesis
      using x(1) by (intro ur_world.equality) (auto simp: completed_world_def closed e fun_eq_iff split: option.split)
  qed
  finally show ?case .
qed

section \<open>Draining\<close>

definition cq_pending :: "ptr \<Rightarrow> ur_world \<Rightarrow> io_uring_cqe list" where
  "cq_pending self w = (case uc_cq (ctx_ur w self) of None \<Rightarrow> []
     | Some q \<Rightarrow> cq_entries q (cq_head q) (cq_tail q))"

text \<open>The entries a drain with this limit consumes, and the operations among them.\<close>

definition drained :: "ptr \<Rightarrow> u32 \<Rightarrow> ur_world \<Rightarrow> io_uring_cqe list" where
  "drained self limit w = consumed (unat limit) (cq_pending self w)"

definition drained_ops :: "ptr \<Rightarrow> u32 \<Rightarrow> ur_world \<Rightarrow> (ptr \<times> u32) list" where
  "drained_ops self limit w = map entry_of (filter is_real (drained self limit w))"

definition commit_head :: "ptr \<Rightarrow> nat \<Rightarrow> ur_world \<Rightarrow> ur_world" where
  "commit_head self n = upd_ctx_ur self (\<lambda>c. c\<lparr>uc_cq := map_option (\<lambda>q. q\<lparr>cq_head := cq_head q + of_nat n\<rparr>) (uc_cq c)\<rparr>)"

text \<open>The state in which the first callback runs.\<close>

definition before_callbacks :: "ptr \<Rightarrow> u32 \<Rightarrow> ur_world \<Rightarrow> ur_world" where
  "before_callbacks self limit w =
     commit_head self (length (drained self limit w)) (completed_world self (drained_ops self limit w) w)"

lemma scan_closed:
  assumes ctx: "ur_ctxs w self = Some c" "uc_cq c = Some cq" and ok: "batch_ok self w (drained_ops self limit w)"
  shows "scan_cq cq (cq_head cq) (cq_tail cq) limit 0 [] w =
      Some (cq_head cq + of_nat (length (drained self limit w)), drained_ops self limit w,
            completed_world self (drained_ops self limit w) w)"
    and "upd_ctx_ur self (\<lambda>c. c\<lparr>uc_cq := map_option (\<lambda>q. q\<lparr>cq_head :=
        cq_head cq + of_nat (length (drained self limit w))\<rparr>) (uc_cq c)\<rparr>)
      (completed_world self (drained_ops self limit w) w) = before_callbacks self limit w"
proof -
  have cq: "uc_cq (ctx_ur w self) = Some cq" using ctx by (simp add: ctx_ur_def)
  then have pend: "cq_pending self w = cq_entries cq (cq_head cq) (cq_tail cq)" by (simp add: cq_pending_def)
  let ?es = "consumed (unat (limit - 0)) (cq_entries cq (cq_head cq) (cq_tail cq))"
  have live: "\<forall>e\<in>set ?es. is_real e \<longrightarrow> ur_ops w (cqe_user_data e) \<noteq> None"
    using ok by (fastforce simp: batch_ok_def drained_ops_def drained_def pend)
  show "scan_cq cq (cq_head cq) (cq_tail cq) limit 0 [] w =
      Some (cq_head cq + of_nat (length (drained self limit w)), drained_ops self limit w,
            completed_world self (drained_ops self limit w) w)"
    using scan_cq_list [of 0 limit cq "cq_head cq" "cq_tail cq" w "[]", OF _ live] complete_all_closed [OF ok]
    by (simp add: drained_ops_def drained_def pend Let_def)
  show "upd_ctx_ur self (\<lambda>c. c\<lparr>uc_cq := map_option (\<lambda>q. q\<lparr>cq_head :=
        cq_head cq + of_nat (length (drained self limit w))\<rparr>) (uc_cq c)\<rparr>)
      (completed_world self (drained_ops self limit w) w) = before_callbacks self limit w"
    using ctx by (simp add: before_callbacks_def commit_head_def completed_world_def upd_ctx_ur_def)
qed

lemma drain_two_phases:
  assumes ctx: "ur_ctxs w self = Some c" "uc_cq c = Some cq" and mem: "ue_memory env"
    and ok: "batch_ok self w (drained_ops self limit w)"
  shows "uring_drain_cq env self limit w =
    (case finish_batch env (drained_ops self limit w) (before_callbacks self limit w) of
       None \<Rightarrow> (Crash, before_callbacks self limit w)
     | Some w2 \<Rightarrow> (Ret (sint (of_nat (length (drained_ops self limit w)) :: u32)), w2))"
  using ctx mem scan_closed [OF ctx ok]
  by (simp add: uring_drain_cq_def ctx_ur_def Let_def split: option.split)

lemma cq_entries_drop:
  assumes "n \<le> unat (tail - head)"
  shows "cq_entries cq (head + of_nat n) tail = drop n (cq_entries cq head tail)"
  using assms
proof (induction n arbitrary: head)
  case (Suc n)
  then have ne: "head \<noteq> tail" by auto
  then have "n \<le> unat (tail - (head + 1))" using Suc.prems unat_diff_Suc [of head tail] by simp
  from Suc.IH [OF this] show ?case by (simp add: cq_entries_Cons [OF ne] add.assoc)
qed simp

lemma pending_before_callbacks:
  assumes ctx: "ur_ctxs w self = Some c" "uc_cq c = Some cq"
  shows "cq_pending self w = drained self limit w @ cq_pending self (before_callbacks self limit w)"
proof -
  let ?es = "cq_entries cq (cq_head cq) (cq_tail cq)"
  have pend: "cq_pending self w = ?es" using ctx by (simp add: cq_pending_def ctx_ur_def)
  have len: "length (drained self limit w) \<le> unat (cq_tail cq - cq_head cq)"
    using arg_cong [OF consumed_prefix [of "unat limit" ?es], of length]
    by (simp add: drained_def pend) (simp add: cq_entries_def)
  have "cq_pending self (before_callbacks self limit w) =
      cq_entries cq (cq_head cq + of_nat (length (drained self limit w))) (cq_tail cq)"
    using ctx by (simp add: cq_pending_def ctx_ur_def before_callbacks_def commit_head_def completed_world_def
        cq_entries_def)
  also have "\<dots> = drop (length (drained self limit w)) ?es" by (rule cq_entries_drop [OF len])
  finally show ?thesis
    using consumed_prefix [of "unat limit" ?es] by (metis append_take_drop_id drained_def pend)
qed

section \<open>Callbacks that only look\<close>

definition callbacks_ok :: "ur_world \<Rightarrow> (ptr \<times> u32) list \<Rightarrow> bool" where
  "callbacks_ok w es \<longleftrightarrow> (\<forall>e\<in>set es. \<exists>x. ur_ops w (fst e) = Some x \<and> 1 < refs w (fst e) \<and>
     (uo_callback x \<noteq> NULL \<longrightarrow> uo_callback x \<notin> fst ` set es \<and> 0 < refs w (uo_callback x)))"

lemma finish_op_closed:
  assumes "ur_ops w p = Some x" "1 < refs w p" "uo_callback x \<noteq> NULL \<Longrightarrow> 0 < refs w (uo_callback x)"
    and "ue_call env = (\<lambda>cb v w. (verdict cb v, w))"
  shows "finish_op_ur env (p, r) w = w\<lparr>refs := (refs w)(p := refs w p - 1),
     trace := trace w @ callback_events verdict (uo_callback x) (PyLong (sint r))\<rparr>"
  using assms run_callback_closed [of "uo_callback x" w verdict "PyLong (sint r)"]
  by (intro ur_world.equality) (simp_all add: finish_op_ur_def op_ur_def decref_op_ur_def decref_alive)

lemma finish_batch_closed:
  assumes "ue_call env = (\<lambda>cb v w. (verdict cb v, w))" and "distinct (map fst es)" and "callbacks_ok w es"
  shows "finish_batch env es w = Some (w\<lparr>
     refs := (\<lambda>q. refs w q - (if q \<in> fst ` set es then 1 else 0)),
     trace := trace w @ concat (map (\<lambda>e. callback_events verdict (uo_callback (op_ur w (fst e))) (PyLong (sint (snd e)))) es)\<rparr>)"
  using assms(2,3)
proof (induction es arbitrary: w)
  case Nil
  then show ?case by simp
next
  case (Cons e es)
  obtain p r where e: "e = (p, r)" by (cases e)
  from Cons.prems obtain x where x: "ur_ops w p = Some x" "1 < refs w p"
    "uo_callback x \<noteq> NULL \<Longrightarrow> 0 < refs w (uo_callback x)"
    by (auto simp: callbacks_ok_def e)
  note closed = finish_op_closed [OF x assms(1), of r]
  have notin: "p \<notin> fst ` set es" using Cons.prems by (simp add: e)
  have "callbacks_ok (finish_op_ur env e w) es"
    unfolding callbacks_ok_def
  proof
    fix d assume d: "d \<in> set es"
    then obtain y where y: "ur_ops w (fst d) = Some y" "1 < refs w (fst d)"
      "uo_callback y \<noteq> NULL \<longrightarrow> uo_callback y \<notin> fst ` set (e # es) \<and> 0 < refs w (uo_callback y)"
      using Cons.prems(2) by (auto simp: callbacks_ok_def)
    moreover have "fst d \<noteq> p" using d notin by auto
    ultimately show "\<exists>x. ur_ops (finish_op_ur env e w) (fst d) = Some x \<and> 1 < refs (finish_op_ur env e w) (fst d) \<and>
        (uo_callback x \<noteq> NULL \<longrightarrow> uo_callback x \<notin> fst ` set es \<and> 0 < refs (finish_op_ur env e w) (uo_callback x))"
      by (simp add: e closed)
  qed
  note ih = Cons.IH [OF _ this]
  have "op_ur (finish_op_ur env e w) = op_ur w" by (simp add: op_ur_def e closed fun_eq_iff)
  then show ?case
    using Cons.prems(1) ih x(1) notin
    by (auto simp: e closed op_ur_def fun_eq_iff intro!: ur_world.equality)
qed

section \<open>Properties of draining\<close>

text \<open>
  C17. \<^verbatim>\<open>uring_drain_cq\<close>, for callbacks that return or raise without touching the module. It
  returns the number of operations completed, at most the limit, and leaves an entry in the
  ring only if the limit was reached; cancellation entries are skipped and not counted. The
  entries consumed are the oldest, each once. Each operation gets its result and gives
  back one reference on itself and one on the Context, and the callbacks run once each, in
  the order of the ring.
\<close>

theorem ur_drain_spec:
  fixes self :: ptr and limit :: u32
  defines "ops \<equiv> \<lambda>w. drained_ops self limit w"
  assumes "ur_ctxs w self = Some c" and "uc_cq c = Some cq" and "ue_memory env" and "ur_ops w self = None"
    and "batch_ok self w (ops w)" and "callbacks_ok w (ops w)"
    and "ue_call env = (\<lambda>cb v w. (verdict cb v, w))" and "length (ops w) < 2 ^ 31"
  shows "\<exists>w'. uring_drain_cq env self limit w = (Ret (int (length (ops w))), w') \<and>
     length (ops w) \<le> unat limit \<and> (length (ops w) < unat limit \<longrightarrow> cq_pending self w' = []) \<and>
     cq_pending self w = drained self limit w @ cq_pending self w' \<and>
     (\<forall>(p, r)\<in>set (ops w). ur_ops w' p = Some (completed_op_ur r (op_ur w p)) \<and> refs w' p = refs w p - 1) \<and>
     refs w' self = refs w self - int (length (ops w)) \<and>
     trace w' = trace w @ concat (map (\<lambda>(p, r). callback_events verdict (uo_callback (op_ur w p)) (PyLong (sint r))) (ops w))"
proof -
  let ?es = "drained_ops self limit w" and ?w1 = "before_callbacks self limit w"
  have ok: "batch_ok self w ?es" and cok: "callbacks_ok w ?es" using assms by (simp_all add: ops_def)
  have dist: "distinct (map fst ?es)" and room: "int (length ?es) < refs w self"
    using ok by (simp_all add: batch_ok_def)
  have w1: "ur_ops ?w1 = (\<lambda>p. case map_of ?es p of None \<Rightarrow> ur_ops w p
                  | Some res \<Rightarrow> map_option (completed_op_ur res) (ur_ops w p))"
    "refs ?w1 = (refs w)(self := refs w self - int (length ?es))" "trace ?w1 = trace w"
    by (simp_all add: before_callbacks_def commit_head_def completed_world_def)
  have op1: "ur_ops ?w1 p = Some (completed_op_ur r (op_ur w p))" and notself: "p \<noteq> self"
    if pr: "(p, r) \<in> set ?es" for p r
  proof -
    obtain x where x: "ur_ops w p = Some x" using cok pr by (fastforce simp: callbacks_ok_def)
    moreover have "map_of ?es p = Some r" using pr dist by (simp add: map_of_eq_Some_iff)
    ultimately show "ur_ops ?w1 p = Some (completed_op_ur r (op_ur w p))" by (simp add: w1 op_ur_def)
    show "p \<noteq> self" using x assms(5) by auto
  qed
  have cb1: "uo_callback (op_ur ?w1 p) = uo_callback (op_ur w p)" if "(p, r) \<in> set ?es" for p r
    using op1 [OF that] by (simp add: op_ur_def)
  have cok1: "callbacks_ok ?w1 ?es"
    unfolding callbacks_ok_def
  proof
    fix e assume e: "e \<in> set ?es"
    obtain p r where pr: "e = (p, r)" by (cases e)
    with cok e obtain x where "ur_ops w p = Some x" "1 < refs w p"
      "uo_callback x \<noteq> NULL \<longrightarrow> uo_callback x \<notin> fst ` set ?es \<and> 0 < refs w (uo_callback x)"
      by (fastforce simp: callbacks_ok_def)
    then show "\<exists>x. ur_ops ?w1 (fst e) = Some x \<and> 1 < refs ?w1 (fst e) \<and>
        (uo_callback x \<noteq> NULL \<longrightarrow> uo_callback x \<notin> fst ` set ?es \<and> 0 < refs ?w1 (uo_callback x))"
      using op1 [of p r] notself [of p r] e room by (simp add: pr w1(2) op_ur_def)
  qed
  let ?w2 = "?w1\<lparr>refs := (\<lambda>q. refs ?w1 q - (if q \<in> fst ` set ?es then 1 else 0)),
     trace := trace ?w1 @ concat (map (\<lambda>e. callback_events verdict (uo_callback (op_ur ?w1 (fst e))) (PyLong (sint (snd e)))) ?es)\<rparr>"
  have "sint (of_nat (length ?es) :: u32) = int (length ?es)"
    using assms(9) by (simp add: ops_def signed_of_nat signed_take_bit_int_eq_self)
  then have run: "uring_drain_cq env self limit w = (Ret (int (length ?es)), ?w2)"
    using drain_two_phases [OF assms(2-4) ok] finish_batch_closed [OF assms(8) dist cok1] by simp
  define w2 where "w2 = ?w2"
  have w2: "ur_ops w2 = ur_ops ?w1" "refs w2 = (\<lambda>q. refs ?w1 q - (if q \<in> fst ` set ?es then 1 else 0))"
    by (simp_all add: w2_def)
  have split: "cq_pending self w = drained self limit w @ cq_pending self w2"
    using pending_before_callbacks [OF assms(2,3)] by (simp add: w2_def cq_pending_def ctx_ur_def)
  have all: "cq_pending self w2 = []" if "length ?es < unat limit"
  proof -
    have "drained self limit w = cq_pending self w"
      using that consumed_room [of "unat limit" "cq_pending self w"] by (simp add: drained_ops_def drained_def)
    then show ?thesis using split by simp
  qed
  have bound: "length ?es \<le> unat limit"
    using consumed_bound [of "unat limit" "cq_pending self w"] by (simp add: drained_ops_def drained_def)
  have tr: "trace w2 = trace w @ concat (map (\<lambda>(p, r). callback_events verdict (uo_callback (op_ur w p)) (PyLong (sint r))) ?es)"
  proof -
    have "map (\<lambda>e. callback_events verdict (uo_callback (op_ur ?w1 (fst e))) (PyLong (sint (snd e)))) ?es =
        map (\<lambda>(p, r). callback_events verdict (uo_callback (op_ur w p)) (PyLong (sint r))) ?es"
      using cb1 by auto
    note eq = arg_cong [OF this, of concat]
    show ?thesis unfolding w2_def w1(3) eq by simp
  qed
  have "self \<notin> fst ` set ?es"
  proof
    assume "self \<in> fst ` set ?es"
    then obtain r where "(self, r) \<in> set ?es" by force
    from notself [OF this] show False by simp
  qed
  then have rs: "refs w2 self = refs w self - int (length ?es)" by (simp add: w2 w1(2))
  have each: "\<forall>(p, r)\<in>set ?es. ur_ops w2 p = Some (completed_op_ur r (op_ur w p)) \<and> refs w2 p = refs w p - 1"
  proof (clarify, intro conjI)
    fix p r assume pr: "(p, r) \<in> set ?es"
    show "ur_ops w2 p = Some (completed_op_ur r (op_ur w p))" by (simp add: w2 op1 [OF pr])
    have "p \<in> fst ` set ?es" using pr by force
    then show "refs w2 p = refs w p - 1" using notself [OF pr] by (simp add: w2 w1(2))
  qed
  show ?thesis
    unfolding ops_def
    by (intro exI [of _ w2] conjI impI) (use run split all bound tr rs each in \<open>simp_all only: w2_def\<close>)
qed

section \<open>An example: three entries across the wrap of the counter\<close>

text \<open>
  A Context at address 1 with a ring of four slots: the entry of the operation at address 2
  (two bytes read), a cancellation, and the entry of the operation at address 3 (error 5).
  The head is \<open>2 ^ 32 - 1\<close>, so the counter wraps after the first entry.
\<close>

definition ex_cq :: cq_ring where
  "ex_cq = \<lparr>cq_head = 0xFFFFFFFF, cq_tail = 2, cq_ring_mask = 3,
     cqes = (\<lambda>i. if i = 3 then \<lparr>cqe_user_data = 2, cqe_res = 2\<rparr>
       else if i = 1 then \<lparr>cqe_user_data = 3, cqe_res = - 5\<rparr>
       else \<lparr>cqe_user_data = CANCEL_USER_DATA, cqe_res = 0\<rparr>)\<rparr>"

definition ex_sq :: sq_ring where
  "ex_sq = \<lparr>sq_head = 0xFFFFFFFF, sq_tail = 0xFFFFFFFF, sq_ring_mask = 3, sq_ring_entries = 4,
     sq_flags = 0, sq_array = (\<lambda>_. 0)\<rparr>"

definition ex_ctx_ur :: AIOContext_ur where
  "ex_ctx_ur = new_ctx_ur\<lparr>uc_uring_fd := 7, uc_eventfd_fd := 8, uc_sq := Some ex_sq,
     uc_sqes := Some (\<lambda>_. zero_sqe), uc_cq := Some ex_cq\<rparr>"

definition ex_op_ur :: "u8 \<Rightarrow> ptr \<Rightarrow> AIOOperation_ur" where
  "ex_op_ur code cb = zero_op_ur\<lparr>uo_opcode := code, uo_callback := cb, uo_py_buffer := 4, uo_buf := 6, uo_buf_size := 3\<rparr>"

definition ex_flight :: "AIOOperation_ur \<Rightarrow> AIOOperation_ur" where
  "ex_flight x = x\<lparr>uo_in_progress := 1, uo_context := 1\<rparr>"

definition ex_ur :: ur_world where
  "ex_ur = \<lparr>refs = (\<lambda>_. 3), mem = [6 \<mapsto> [7, 8, 0]], bytes_at = (\<lambda>_. NULL)(4 := 6), trace = [],
     ur_ops = [2 \<mapsto> ex_flight (ex_op_ur URING_READ 5), 3 \<mapsto> ex_flight (ex_op_ur URING_WRITE NULL)],
     ur_ctxs = [1 \<mapsto> ex_ctx_ur]\<rparr>"

definition ex_env_ur :: ur_env where
  "ex_env_ur = \<lparr>ue_enter = (\<lambda>_ n _ w. (uint n, 0, w)), ue_poll = (\<lambda>_ _ w. (1, 0, w)), ue_now = (\<lambda>_. (0, 0)),
     ue_memory = True, ue_call = (\<lambda>cb v w. (v = PyLong 2, w)), ue_eintr = 4\<rparr>"

lemma ex_drained: "drained_ops 1 8 ex_ur = [(2, 2), (3, - 5)]"
proof -
  have three: "ring_list g pos 3 = [g (pos 0), g (pos 1), g (pos 2)]" for g :: "u32 \<Rightarrow> io_uring_cqe" and pos
    by (simp add: ring_list_def numeral_3_eq_3 numeral_2_eq_2)
  have "cq_pending 1 ex_ur = [\<lparr>cqe_user_data = 2, cqe_res = 2\<rparr>,
      \<lparr>cqe_user_data = CANCEL_USER_DATA, cqe_res = 0\<rparr>, \<lparr>cqe_user_data = 3, cqe_res = - 5\<rparr>]"
    by (simp add: cq_pending_def ctx_ur_def ex_ur_def ex_ctx_ur_def ex_cq_def cq_entries_def three)
  then show ?thesis by (simp add: drained_ops_def drained_def CANCEL_USER_DATA_def)
qed

lemma ex_ur_fields:
  "uo_callback (op_ur ex_ur 2) = 5" "uo_callback (op_ur ex_ur 3) = NULL" "refs ex_ur p = 3" "trace ex_ur = []"
  by (simp_all add: op_ur_def ex_ur_def ex_flight_def ex_op_ur_def zero_op_ur_def)

lemma ex_ur_facts:
  "ur_ctxs ex_ur 1 = Some ex_ctx_ur" "uc_cq ex_ctx_ur = Some ex_cq" "ur_ops ex_ur 1 = None"
  "batch_ok 1 ex_ur (drained_ops 1 8 ex_ur)" "callbacks_ok ex_ur (drained_ops 1 8 ex_ur)"
  unfolding ex_drained
  by (simp_all add: ex_ur_def ex_ctx_ur_def batch_ok_def callbacks_ok_def ex_flight_def ex_op_ur_def zero_op_ur_def)

theorem ur_drain_spec_witness:
  "\<exists>w'. uring_drain_cq ex_env_ur 1 8 ex_ur = (Ret 2, w') \<and> cq_pending 1 w' = [] \<and>
     trace w' = [Ev_Callback 5 (PyLong 2)] \<and> refs w' 2 = 2"
proof -
  have call: "ue_call ex_env_ur = (\<lambda>cb v w. ((\<lambda>cb v. v = PyLong 2) cb v, w))" and "ue_memory ex_env_ur"
    by (simp_all add: ex_env_ur_def)
  from ur_drain_spec [OF ex_ur_facts(1,2) this(2) ex_ur_facts(3-5) call] show ?thesis
    unfolding ex_drained by (auto simp: callback_events_def ex_ur_fields)
qed

section \<open>Re-entrant callbacks\<close>

text \<open>
  The ring is caught up before the first callback. Whatever the callbacks do, they run
  in a state in which every operation of the batch is completed and the head of the ring is
  past the whole batch; so a callback that drains the same ring again gets none of the
  batch, and nothing at all if the limit had room for everything available.
\<close>

theorem ur_batch_committed_first:
  fixes self :: ptr and limit :: u32
  defines "before \<equiv> \<lambda>w. before_callbacks self limit w" and "ops \<equiv> \<lambda>w. drained_ops self limit w"
  assumes "ur_ctxs w self = Some c" and "uc_cq c = Some cq" and "ue_memory env"
    and "batch_ok self w (ops w)"
  shows "uring_drain_cq env self limit w = (case finish_batch env (ops w) (before w) of
       None \<Rightarrow> (Crash, before w) | Some w2 \<Rightarrow> (Ret (sint (of_nat (length (ops w)) :: u32)), w2)) \<and>
     (\<forall>(p, r)\<in>set (ops w). ur_ops (before w) p = Some (completed_op_ur r (op_ur w p))) \<and>
     cq_pending self w = drained self limit w @ cq_pending self (before w) \<and>
     (length (cq_pending self w) \<le> unat limit \<longrightarrow> uring_drain_cq env2 self limit2 (before w) = (Ret 0, before w))"
proof (intro conjI impI)
  show "uring_drain_cq env self limit w = (case finish_batch env (ops w) (before w) of
       None \<Rightarrow> (Crash, before w) | Some w2 \<Rightarrow> (Ret (sint (of_nat (length (ops w)) :: u32)), w2))"
    using drain_two_phases [OF assms(3-5)] assms(6) unfolding before_def ops_def by blast
  show split: "cq_pending self w = drained self limit w @ cq_pending self (before w)"
    unfolding before_def by (rule pending_before_callbacks [OF assms(3,4)])
  show "\<forall>(p, r)\<in>set (ops w). ur_ops (before w) p = Some (completed_op_ur r (op_ur w p))"
  proof clarify
    fix p r assume pr: "(p, r) \<in> set (ops w)"
    with assms(6) obtain x where "ur_ops w p = Some x" "map_of (ops w) p = Some r"
      by (fastforce simp: batch_ok_def map_of_eq_Some_iff)
    then show "ur_ops (before w) p = Some (completed_op_ur r (op_ur w p))"
      by (simp add: before_def ops_def before_callbacks_def commit_head_def completed_world_def op_ur_def)
  qed
  assume "length (cq_pending self w) \<le> unat limit"
  then have "drained self limit w = cq_pending self w" by (simp add: drained_def consumed_all)
  with split have "cq_pending self (before w) = []" by (metis append_self_conv)
  moreover obtain c1 q where c1: "ur_ctxs (before w) self = Some c1" "uc_cq c1 = Some q"
    using assms(3,4) by (simp add: before_def before_callbacks_def commit_head_def completed_world_def)
  ultimately have same: "cq_head q = cq_tail q"
    by (simp add: cq_pending_def ctx_ur_def cq_entries_def unat_eq_0)
  then have scan: "scan_cq q (cq_head q) (cq_tail q) limit2 0 [] (before w) = Some (cq_head q, [], before w)"
    by (subst scan_cq.simps) simp
  have "c1\<lparr>uc_cq := map_option (\<lambda>u. u\<lparr>cq_head := cq_head q\<rparr>) (uc_cq c1)\<rparr> = c1"
    using c1(2) by (cases c1) simp
  then have "upd_ctx_ur self (\<lambda>c. c\<lparr>uc_cq := map_option (\<lambda>u. u\<lparr>cq_head := cq_head q\<rparr>) (uc_cq c)\<rparr>) (before w) = before w"
    using c1(1) by (simp add: upd_ctx_ur_def fun_upd_idem)
  then show "uring_drain_cq env2 self limit2 (before w) = (Ret 0, before w)"
    using c1 same scan by (simp add: uring_drain_cq_def ctx_ur_def)
qed

theorem ur_batch_committed_first_witness:
  "uring_drain_cq ex_env_ur 1 1 (before_callbacks 1 8 ex_ur) = (Ret 0, before_callbacks 1 8 ex_ur)"
proof -
  have "ue_memory ex_env_ur" by (simp add: ex_env_ur_def)
  moreover have "length (cq_pending 1 ex_ur) \<le> 8"
    by (simp add: cq_pending_def ctx_ur_def ex_ur_facts cq_entries_def) (simp add: ex_cq_def)
  ultimately show ?thesis
    using ur_batch_committed_first [OF ex_ur_facts(1,2) _ ex_ur_facts(4)] by simp
qed

end
