(* ===== verification/Uring_Submit.thy ===== *)
theory Uring_Submit
  imports Uring_Properties
begin

text \<open>
  The submission ring as a bounded queue, and \<^verbatim>\<open>submit\<close>, \<^verbatim>\<open>cancel\<close> and \<^verbatim>\<open>flush\<close> over it.
\<close>

section \<open>The submission ring as a list\<close>

text \<open>The entry at a position: through the index array unless the ring has none.\<close>

definition sqe_at :: "AIOContext_ur \<Rightarrow> u32 \<Rightarrow> io_uring_sqe" where
  "sqe_at c i = (case uc_sqes c of None \<Rightarrow> zero_sqe
     | Some a \<Rightarrow> a (if uc_no_sqarray c = 0 then (case uc_sq c of None \<Rightarrow> i | Some q \<Rightarrow> sq_array q i) else i))"

definition sq_list :: "AIOContext_ur \<Rightarrow> io_uring_sqe list" where
  "sq_list c = (case uc_sq c of None \<Rightarrow> []
     | Some q \<Rightarrow> ring_list (sqe_at c) (\<lambda>i. (sq_head q + of_nat i) AND sq_ring_mask q) (unat (sq_tail q - sq_head q)))"

text \<open>
  A ring as the kernel sets it up: a power of two entries, mask one less, at most all of
  them pending; and, where there is an index array, the pending slots hold their own index.
\<close>

definition sq_wf :: "AIOContext_ur \<Rightarrow> bool" where
  "sq_wf c \<longleftrightarrow> (\<exists>q a k. uc_sq c = Some q \<and> uc_sqes c = Some a \<and> k < 32 \<and>
     sq_ring_mask q = mask k \<and> sq_ring_entries q = 2 ^ k \<and> unat (sq_tail q - sq_head q) \<le> 2 ^ k \<and>
     (uc_no_sqarray c = 0 \<longrightarrow> (\<forall>i < unat (sq_tail q - sq_head q).
        sq_array q ((sq_head q + of_nat i) AND mask k) = (sq_head q + of_nat i) AND mask k)))"

definition sq_capacity :: "AIOContext_ur \<Rightarrow> nat" where
  "sq_capacity c = (case uc_sq c of None \<Rightarrow> 0 | Some q \<Rightarrow> unat (sq_ring_entries q))"

text \<open>
  Staging one entry, as \<^verbatim>\<open>cancel\<close> does it: the test for room, the entry, the index array,
  the tail.
\<close>

definition stage_sqe :: "io_uring_sqe \<Rightarrow> AIOContext_ur \<Rightarrow> AIOContext_ur option" where
  "stage_sqe sqe c =
     (case uc_sq c of None \<Rightarrow> None
      | Some q \<Rightarrow>
          if sq_tail q - sq_head q \<ge> sq_ring_entries q then None
          else
            let index = sq_tail q AND sq_ring_mask q;
                c = c\<lparr>uc_sqes := map_option (\<lambda>a. a(index := sqe)) (uc_sqes c)\<rparr>;
                q = (if uc_no_sqarray c = 0 then q\<lparr>sq_array := (sq_array q)(index := index)\<rparr> else q)
            in Some (c\<lparr>uc_sq := Some (q\<lparr>sq_tail := sq_tail q + 1\<rparr>)\<rparr>))"

text \<open>The kernel takes the oldest entry.\<close>

definition consume_sqe :: "AIOContext_ur \<Rightarrow> (io_uring_sqe \<times> AIOContext_ur) option" where
  "consume_sqe c =
     (case uc_sq c of None \<Rightarrow> None
      | Some q \<Rightarrow>
          if sq_head q = sq_tail q then None
          else Some (sqe_at c (sq_head q AND sq_ring_mask q), c\<lparr>uc_sq := Some (q\<lparr>sq_head := sq_head q + 1\<rparr>)\<rparr>))"

lemma unat_power: "k < 32 \<Longrightarrow> unat (2 ^ k :: u32) = 2 ^ k"
proof -
  assume k: "k < 32"
  then have "(2::nat) ^ k < 2 ^ 32" by (intro power_strict_increasing) simp_all
  then have "unat (of_nat (2 ^ k) :: u32) = 2 ^ k"
    using k by (simp only: unsigned_of_nat) (simp add: take_bit_nat_eq_self)
  then show ?thesis by simp
qed

lemma slots_distinct:
  fixes h :: u32
  assumes "i < j" "j - i < 2 ^ k" "k < 32"
  shows "(h + of_nat i) AND mask k \<noteq> (h + of_nat j) AND mask k"
proof
  assume eq: "(h + of_nat i) AND mask k = (h + of_nat j) AND mask k"
  have "unat ((h + of_nat n) AND mask k) = (unat h + n) mod 2 ^ k" for n
  proof -
    have "(2::nat) ^ k dvd 2 ^ 32" by (rule le_imp_power_dvd) (use assms(3) in simp)
    moreover have "unat (h + of_nat n) = (unat h + n) mod 2 ^ 32"
      by (simp add: unat_word_ariths unsigned_of_nat take_bit_eq_mod mod_simps)
    ultimately show ?thesis by (simp add: unat_and_mask mod_mod_cancel)
  qed
  with eq have "(unat h + i) mod 2 ^ k = (unat h + j) mod 2 ^ k" by metis
  then have "2 ^ k dvd (unat h + j) - (unat h + i)"
    using assms(1) by (metis mod_eq_dvd_iff_nat add_le_cancel_left less_imp_le)
  then have "2 ^ k dvd j - i" by simp
  then show False using assms(1,2) by (auto dest: dvd_imp_le)
qed

lemma stage_closed:
  assumes wf: "sq_wf c" and q: "uc_sq c = Some q" and room: "\<not> sq_tail q - sq_head q \<ge> sq_ring_entries q"
  obtains c' where "stage_sqe s c = Some c'" "sq_wf c'" "sq_list c' = sq_list c @ [s]"
    "\<exists>q'. uc_sq c' = Some q' \<and> sq_tail q' = sq_tail q + 1 \<and> sq_head q' = sq_head q \<and>
       sq_ring_mask q' = sq_ring_mask q \<and> sq_ring_entries q' = sq_ring_entries q"
    "sq_capacity c' = sq_capacity c" "c'\<lparr>uc_sq := uc_sq c, uc_sqes := uc_sqes c\<rparr> = c"
proof -
  from wf q obtain a k where a: "uc_sqes c = Some a" and k: "k < 32" "sq_ring_mask q = mask k"
      "sq_ring_entries q = 2 ^ k" and le: "unat (sq_tail q - sq_head q) \<le> 2 ^ k"
    and arr: "uc_no_sqarray c = 0 \<longrightarrow> (\<forall>i < unat (sq_tail q - sq_head q).
        sq_array q ((sq_head q + of_nat i) AND mask k) = (sq_head q + of_nat i) AND mask k)"
    by (auto simp: sq_wf_def)
  let ?n = "unat (sq_tail q - sq_head q)" and ?pos = "\<lambda>i. (sq_head q + of_nat i) AND mask k"
  have lt: "?n < 2 ^ k"
    using room k(1,3) by (simp add: word_le_nat_alt not_le unat_power)
  have tail: "sq_tail q AND mask k = ?pos ?n"
    by simp
  have new: "unat (sq_tail q + 1 - sq_head q) = Suc ?n"
  proof -
    have "sq_head q \<noteq> sq_tail q + 1"
    proof
      assume "sq_head q = sq_tail q + 1"
      then have "sq_tail q - sq_head q = - 1" by simp
      then have "?n = 2 ^ 32 - 1" by (simp add: unsigned_minus_1_eq_mask mask_eq_exp_minus_1)
      moreover have "(2::nat) ^ k \<le> 2 ^ 31" using k(1) by (intro power_increasing) simp_all
      ultimately show False using lt by simp
    qed
    from unat_diff_Suc [OF this] show ?thesis by simp
  qed
  have ne: "?pos i \<noteq> ?pos ?n" if "i < ?n" for i
    using slots_distinct [of i ?n k "sq_head q"] that lt k(1) by simp
  define q' where "q' = (if uc_no_sqarray c = 0 then q\<lparr>sq_array := (sq_array q)(?pos ?n := ?pos ?n)\<rparr> else q)\<lparr>sq_tail := sq_tail q + 1\<rparr>"
  have q': "sq_head q' = sq_head q" "sq_tail q' = sq_tail q + 1" "sq_ring_mask q' = mask k" "sq_ring_entries q' = 2 ^ k"
    "uc_no_sqarray c = 0 \<Longrightarrow> sq_array q' = (sq_array q)(?pos ?n := ?pos ?n)"
    using k(2,3) by (simp_all add: q'_def)
  let ?c = "c\<lparr>uc_sqes := Some (a(?pos ?n := s)), uc_sq := Some q'\<rparr>"
  have stage: "stage_sqe s c = Some ?c"
    using q a room k(2) tail by (simp add: stage_sqe_def q'_def Let_def)
  have "sq_wf ?c"
    using k(1) lt arr new ne q' by (auto simp: sq_wf_def less_Suc_eq)
  moreover have "sq_list ?c = sq_list c @ [s]"
  proof -
    have old: "sqe_at ?c (?pos i) = sqe_at c (?pos i)" if "i < ?n" for i
      using ne [OF that] arr that q a q'(5) by (simp add: sqe_at_def)
    have last: "sqe_at ?c (?pos ?n) = s"
      using q'(5) by (simp add: sqe_at_def)
    have "sq_list ?c = ring_list (sqe_at ?c) ?pos (Suc ?n)"
      by (simp add: sq_list_def q' new)
    also have "\<dots> = ring_list (sqe_at ?c) ?pos ?n @ [s]"
      unfolding ring_list_Suc last ..
    also have "ring_list (sqe_at ?c) ?pos ?n = ring_list (sqe_at c) ?pos ?n"
      by (rule ring_list_cong) (rule old)
    also have "ring_list (sqe_at c) ?pos ?n = sq_list c" using q k(2) by (simp add: sq_list_def)
    finally show ?thesis .
  qed
  moreover have "\<exists>q'. uc_sq ?c = Some q' \<and> sq_tail q' = sq_tail q + 1 \<and> sq_head q' = sq_head q \<and>
       sq_ring_mask q' = sq_ring_mask q \<and> sq_ring_entries q' = sq_ring_entries q"
    using q' k(2,3) by simp
  moreover have "sq_capacity ?c = sq_capacity c" using q q' k(3) by (simp add: sq_capacity_def)
  moreover have "?c\<lparr>uc_sq := uc_sq c, uc_sqes := uc_sqes c\<rparr> = c" by (cases c) simp
  ultimately show thesis using that [OF stage] by blast
qed

lemma sq_list_length: "uc_sq c = Some q \<Longrightarrow> length (sq_list c) = unat (sq_tail q - sq_head q)"
  by (simp add: sq_list_def)

lemma sq_full_iff:
  assumes "sq_wf c" "uc_sq c = Some q"
  shows "sq_tail q - sq_head q \<ge> sq_ring_entries q \<longleftrightarrow> length (sq_list c) = sq_capacity c"
    and "length (sq_list c) \<le> sq_capacity c"
  using assms by (auto simp: sq_wf_def sq_list_length sq_capacity_def unat_power word_le_nat_alt)

lemma sq_list_consume:
  assumes q: "uc_sq c = Some q" and ne: "sq_head q \<noteq> sq_tail q"
  shows "sq_list c = sqe_at c (sq_head q AND sq_ring_mask q) # sq_list (c\<lparr>uc_sq := Some (q\<lparr>sq_head := sq_head q + 1\<rparr>)\<rparr>)"
proof -
  let ?c = "c\<lparr>uc_sq := Some (q\<lparr>sq_head := sq_head q + 1\<rparr>)\<rparr>" and ?n = "unat (sq_tail q - (sq_head q + 1))"
  have n: "unat (sq_tail q - sq_head q) = Suc ?n" using unat_diff_Suc [OF ne] by simp
  have pos: "sq_head q + 1 + of_nat i = sq_head q + of_nat (Suc i)" for i by simp
  have at: "sqe_at ?c = sqe_at c" using q by (simp add: sqe_at_def fun_eq_iff split: option.split)
  have "sq_list c = ring_list (sqe_at c) (\<lambda>i. (sq_head q + of_nat i) AND sq_ring_mask q) (Suc ?n)"
    using q by (simp add: sq_list_def n)
  also have "\<dots> = sqe_at c (sq_head q AND sq_ring_mask q) #
      ring_list (sqe_at c) (\<lambda>i. (sq_head q + 1 + of_nat i) AND sq_ring_mask q) ?n"
    unfolding ring_list_Cons pos by simp
  also have "ring_list (sqe_at c) (\<lambda>i. (sq_head q + 1 + of_nat i) AND sq_ring_mask q) ?n = sq_list ?c"
    by (simp add: sq_list_def at)
  finally show ?thesis .
qed

lemma consume_closed:
  assumes wf: "sq_wf c" and q: "uc_sq c = Some q" and ne: "sq_head q \<noteq> sq_tail q"
  obtains s c' where "consume_sqe c = Some (s, c')" "sq_wf c'" "sq_list c = s # sq_list c'"
    "sq_capacity c' = sq_capacity c"
proof -
  from wf q obtain a k where a: "uc_sqes c = Some a" and k: "k < 32" "sq_ring_mask q = mask k"
      "sq_ring_entries q = 2 ^ k" and le: "unat (sq_tail q - sq_head q) \<le> 2 ^ k"
    and arr: "uc_no_sqarray c = 0 \<longrightarrow> (\<forall>i < unat (sq_tail q - sq_head q).
        sq_array q ((sq_head q + of_nat i) AND mask k) = (sq_head q + of_nat i) AND mask k)"
    by (auto simp: sq_wf_def)
  let ?c = "c\<lparr>uc_sq := Some (q\<lparr>sq_head := sq_head q + 1\<rparr>)\<rparr>" and ?n = "unat (sq_tail q - (sq_head q + 1))"
  have n: "unat (sq_tail q - sq_head q) = Suc ?n" using unat_diff_Suc [OF ne] by simp
  have pos: "sq_head q + 1 + of_nat i = sq_head q + of_nat (Suc i)" for i by simp
  have "sq_wf ?c"
    unfolding sq_wf_def
  proof (intro exI [of _ "q\<lparr>sq_head := sq_head q + 1\<rparr>"] exI [of _ a] exI [of _ k] conjI impI allI)
    fix i
    assume "uc_no_sqarray ?c = 0" and "i < unat (sq_tail (q\<lparr>sq_head := sq_head q + 1\<rparr>) - sq_head (q\<lparr>sq_head := sq_head q + 1\<rparr>))"
    then have "sq_array q ((sq_head q + of_nat (Suc i)) AND mask k) = (sq_head q + of_nat (Suc i)) AND mask k"
      using arr n by (simp del: of_nat_Suc)
    then show "sq_array (q\<lparr>sq_head := sq_head q + 1\<rparr>) ((sq_head (q\<lparr>sq_head := sq_head q + 1\<rparr>) + of_nat i) AND mask k) =
        (sq_head (q\<lparr>sq_head := sq_head q + 1\<rparr>) + of_nat i) AND mask k"
      by (simp add: pos del: of_nat_Suc)
  qed (use a k le n in simp_all)
  moreover have "sq_list c = sqe_at c (sq_head q AND mask k) # sq_list ?c"
    using sq_list_consume [OF q ne] k(2) by simp
  ultimately show thesis
    using that [of "sqe_at c (sq_head q AND mask k)" ?c] q k(2) ne by (simp add: consume_sqe_def sq_capacity_def)
qed

interpretation sq: bounded_fifo sq_wf sq_list sq_capacity "\<lambda>_. False" "\<lambda>_. False" stage_sqe consume_sqe
proof
  fix c c' :: AIOContext_ur and s :: io_uring_sqe
  assume wf: "sq_wf c"
  then obtain q where q: "uc_sq c = Some q" by (auto simp: sq_wf_def)
  show "length (sq_list c) \<le> sq_capacity c" by (rule sq_full_iff(2) [OF wf q])
  have full: "stage_sqe s c = None \<longleftrightarrow> sq_tail q - sq_head q \<ge> sq_ring_entries q"
    by (simp add: stage_sqe_def q Let_def)
  then show "(stage_sqe s c = None) = (False \<or> length (sq_list c) = sq_capacity c)"
    by (simp add: sq_full_iff(1) [OF wf q])
  have empty: "consume_sqe c = None \<longleftrightarrow> sq_head q = sq_tail q"
    by (simp add: consume_sqe_def q)
  then show "(consume_sqe c = None) = (False \<or> sq_list c = [])"
    using sq_list_length [OF q] by (auto simp: unat_eq_0)
  show "sq_wf c' \<and> sq_list c' = sq_list c @ [s] \<and> sq_capacity c' = sq_capacity c" if "stage_sqe s c = Some c'"
  proof -
    have "\<not> sq_tail q - sq_head q \<ge> sq_ring_entries q" using full that by simp
    from stage_closed [OF wf q this, of s] that q show ?thesis
      by (metis option.inject)
  qed
  show "sq_wf c' \<and> sq_list c = s # sq_list c' \<and> sq_capacity c' = sq_capacity c" if "consume_sqe c = Some (s, c')"
  proof -
    have "sq_head q \<noteq> sq_tail q" using empty that by auto
    from consume_closed [OF wf q this] that show ?thesis by (metis option.inject prod.inject)
  qed
qed

section \<open>Claiming operations for submission\<close>

text \<open>
  What holds of the operations of a program between calls: one that was never claimed has no
  Context and one of the four opcodes of the constructors, and the claim flag is 0 or 1.
\<close>

definition ops_ok_ur :: "ur_world \<Rightarrow> bool" where
  "ops_ok_ur w \<longleftrightarrow> (\<forall>p x. ur_ops w p = Some x \<longrightarrow>
     (if uo_in_progress x = 0 then uo_context x = NULL \<and> snd (fill_sqe p x) else uo_in_progress x = 1))"

definition ready_ur :: "ptr \<Rightarrow> ur_world \<Rightarrow> bool" where
  "ready_ur self w \<longleftrightarrow> ur_ops w self = None \<and> ops_ok_ur w \<and> (\<exists>c. ur_ctxs w self = Some c \<and> sq_wf c)"

definition free_ur :: "ur_world \<Rightarrow> ptr \<Rightarrow> bool" where
  "free_ur w p \<longleftrightarrow> (case ur_ops w p of None \<Rightarrow> False | Some x \<Rightarrow> uo_in_progress x = 0)"

abbreviation ring_full_error :: pyexc where
  "ring_full_error \<equiv> PyErr_SetString PyExc_OverflowError ''io_uring SQ ring full''"

definition ring_full :: "ptr \<Rightarrow> ur_world \<Rightarrow> pyexc option" where
  "ring_full self w =
     (if length (sq_list (ctx_ur w self)) = sq_capacity (ctx_ur w self) then Some ring_full_error else None)"

abbreviation request_ur :: "ur_world \<Rightarrow> ptr \<Rightarrow> io_uring_sqe" where
  "request_ur w p \<equiv> fst (fill_sqe p (op_ur w p))"

text \<open>
  The whole effect of accepting one operation: its entry at the end of the ring, its flag
  and its Context set, one more reference on it and on the Context.
\<close>

definition claim_ur :: "ptr \<Rightarrow> ptr \<Rightarrow> ur_world \<Rightarrow> ur_world" where
  "claim_ur self p w =
     w\<lparr>refs := (refs w)(p := refs w p + 1, self := refs w self + 1),
       ur_ops := (ur_ops w)(p \<mapsto> (op_ur w p)\<lparr>uo_in_progress := 1, uo_context := self\<rparr>),
       ur_ctxs := (ur_ctxs w)(self := stage_sqe (request_ur w p) (ctx_ur w self))\<rparr>"

lemma free_urE:
  assumes "free_ur w p"
  obtains x where "ur_ops w p = Some x" "uo_in_progress x = 0"
  using assms by (auto simp: free_ur_def split: option.splits)

lemma claim_ur_step:
  assumes ready: "ready_ur self w" and free: "free_ur w p" and room: "ring_full self w = None"
  shows "ready_ur self (claim_ur self p w)"
    and "sq_list (ctx_ur (claim_ur self p w) self) = sq_list (ctx_ur w self) @ [request_ur w p]"
    and "free_ur (claim_ur self p w) r \<longleftrightarrow> r \<noteq> p \<and> free_ur w r"
    and "r \<noteq> p \<Longrightarrow> request_ur (claim_ur self p w) r = request_ur w r"
    and "sq_capacity (ctx_ur (claim_ur self p w) self) = sq_capacity (ctx_ur w self)"
proof -
  obtain c where c: "ur_ctxs w self = Some c" "sq_wf c" and self: "ur_ops w self = None" and ok: "ops_ok_ur w"
    using ready by (auto simp: ready_ur_def)
  have ctx: "ctx_ur w self = c" by (simp add: ctx_ur_def c)
  obtain x where x: "ur_ops w p = Some x" using free by (rule free_urE)
  have ne: "p \<noteq> self" using x self by auto
  have "\<not> length (sq_list c) = sq_capacity c" using room by (auto simp: ring_full_def ctx split: if_splits)
  then obtain c' where stage: "stage_sqe (request_ur w p) c = Some c'"
    using sq.push_refused [OF c(2), of "request_ur w p"] by auto
  note c' = sq.push_accepted [OF c(2) stage]
  have ctx': "ur_ctxs (claim_ur self p w) self = stage_sqe (request_ur w p) (ctx_ur w self)"
    by (simp add: claim_ur_def)
  then show "sq_list (ctx_ur (claim_ur self p w) self) = sq_list (ctx_ur w self) @ [request_ur w p]"
    and "sq_capacity (ctx_ur (claim_ur self p w) self) = sq_capacity (ctx_ur w self)"
    using stage c' by (simp_all add: ctx ctx_ur_def [of "claim_ur self p w"])
  show "ready_ur self (claim_ur self p w)"
    using stage c' ok self ne by (auto simp: ready_ur_def ops_ok_ur_def claim_ur_def ctx)
  show "free_ur (claim_ur self p w) r \<longleftrightarrow> r \<noteq> p \<and> free_ur w r"
    by (simp add: free_ur_def claim_ur_def)
  show "request_ur (claim_ur self p w) r = request_ur w r" if "r \<noteq> p"
    using that by (simp add: claim_ur_def op_ur_def)
qed

interpretation uring: claiming "\<lambda>w. ready_ur self w \<and> sq_capacity (ctx_ur w self) = n" free_ur
    "\<lambda>w. sq_list (ctx_ur w self)" request_ur "ring_full self" "claim_ur self" for self n
  by unfold_locales (simp_all add: claim_ur_step)

section \<open>Submit\<close>

text \<open>
  The loop of \<^verbatim>\<open>submit\<close> keeps the new tail in a local variable and publishes it at the end.
  With that tail in place it is the claiming loop.
\<close>

definition loop_result :: "pyexc option \<Rightarrow> unit outcome" where
  "loop_result r = (case r of None \<Rightarrow> Ret () | Some e \<Rightarrow> Raise e)"

text \<open>\<open>q\<close> is what the loop read of the submission ring at its start.\<close>

definition ring_read :: "ptr \<Rightarrow> sq_ring \<Rightarrow> ur_world \<Rightarrow> bool" where
  "ring_read self q w \<longleftrightarrow> (\<exists>c q0. ur_ctxs w self = Some c \<and> uc_sq c = Some q0 \<and> sq_head q0 = sq_head q \<and>
     sq_ring_mask q0 = sq_ring_mask q \<and> sq_ring_entries q0 = sq_ring_entries q)"

lemma fill_sqe_claimed [simp]:
  "fill_sqe p (x\<lparr>uo_in_progress := n\<rparr>) = fill_sqe p x" "fill_sqe p (x\<lparr>uo_context := cx\<rparr>) = fill_sqe p x"
  by (simp_all add: fill_sqe_def Let_def)

lemma store_tail_frame [simp]:
  "ur_ops (store_tail self tail w) = ur_ops w" "refs (store_tail self tail w) = refs w"
  "trace (store_tail self tail w) = trace w" "mem (store_tail self tail w) = mem w"
  "bytes_at (store_tail self tail w) = bytes_at w" "op_ur (store_tail self tail w) = op_ur w"
  "free_ur (store_tail self tail w) = free_ur w"
  by (simp_all add: store_tail_def op_ur_def free_ur_def fun_eq_iff)

lemma ring_read_full:
  assumes read: "ring_read self q w" and ready: "ready_ur self (store_tail self tail w)"
  shows "ring_full self (store_tail self tail w) =
     (if tail - sq_head q \<ge> sq_ring_entries q then Some ring_full_error else None)"
    and "uc_sqes (ctx_ur w self) \<noteq> None"
proof -
  obtain c q0 where c: "ur_ctxs w self = Some c" "uc_sq c = Some q0" "sq_head q0 = sq_head q"
    "sq_ring_entries q0 = sq_ring_entries q"
    using read by (auto simp: ring_read_def)
  let ?c = "c\<lparr>uc_sq := Some (q0\<lparr>sq_tail := tail\<rparr>)\<rparr>"
  have ctx: "ur_ctxs (store_tail self tail w) self = Some ?c" using c by (simp add: store_tail_def)
  then have wf: "sq_wf ?c" using ready by (simp add: ready_ur_def)
  have sq: "uc_sq ?c = Some (q0\<lparr>sq_tail := tail\<rparr>)" by simp
  show "ring_full self (store_tail self tail w) =
     (if tail - sq_head q \<ge> sq_ring_entries q then Some ring_full_error else None)"
    using sq_full_iff(1) [OF wf sq] c(3,4) ctx by (simp add: ring_full_def ctx_ur_def)
  show "uc_sqes (ctx_ur w self) \<noteq> None" using wf c(1) by (auto simp: sq_wf_def ctx_ur_def)
qed

lemma claim_of_stores:
  assumes read: "ring_read self q w" and x: "ur_ops w p = Some x" "uo_context x = NULL" and ne: "p \<noteq> self"
    and room: "\<not> tail - sq_head q \<ge> sq_ring_entries q" and fill: "fill_sqe p x = (sqe, known)"
  defines "w' \<equiv> hold_op_ur self p (store_array self (tail AND sq_ring_mask q)
      (store_sqe self (tail AND sq_ring_mask q) sqe (upd_op_ur p (\<lambda>x. x\<lparr>uo_in_progress := 1\<rparr>) w)))"
  shows "store_tail self (tail + 1) w' = claim_ur self p (store_tail self tail w)" and "ring_read self q w'"
proof -
  obtain c q0 where c: "ur_ctxs w self = Some c" "uc_sq c = Some q0" "sq_head q0 = sq_head q"
    "sq_ring_entries q0 = sq_ring_entries q" "sq_ring_mask q0 = sq_ring_mask q"
    using read by (auto simp: ring_read_def)
  let ?i = "tail AND sq_ring_mask q"
  let ?c = "c\<lparr>uc_sqes := map_option (\<lambda>a. a(?i := sqe)) (uc_sqes c),
      uc_sq := Some (if uc_no_sqarray c = 0 then q0\<lparr>sq_array := (sq_array q0)(?i := ?i)\<rparr> else q0)\<rparr>"
  have same: "c\<lparr>uc_sqes := a, uc_sq := Some q0\<rparr> = c\<lparr>uc_sqes := a\<rparr>" for a using c(2) by (cases c) simp
  have w': "w' = w\<lparr>refs := (refs w)(p := refs w p + 1, self := refs w self + 1),
      ur_ops := (ur_ops w)(p \<mapsto> x\<lparr>uo_in_progress := 1, uo_context := self\<rparr>),
      ur_ctxs := (ur_ctxs w)(self \<mapsto> ?c)\<rparr>"
    using x c(1,2) ne by (intro ur_world.equality)
      (simp_all add: same w'_def hold_op_ur_def store_array_def store_sqe_def op_ur_def rt_simps Let_def)
  then show "ring_read self q w'" using c by (simp add: ring_read_def)
  have "stage_sqe sqe (c\<lparr>uc_sq := Some (q0\<lparr>sq_tail := tail\<rparr>)\<rparr>) =
      Some (?c\<lparr>uc_sq := map_option (\<lambda>q. q\<lparr>sq_tail := tail + 1\<rparr>) (uc_sq ?c)\<rparr>)"
    using room c by (simp add: stage_sqe_def Let_def)
  moreover have "ctx_ur (store_tail self tail w) self = c\<lparr>uc_sq := Some (q0\<lparr>sq_tail := tail\<rparr>)\<rparr>"
    using c by (simp add: ctx_ur_def store_tail_def)
  ultimately show "store_tail self (tail + 1) w' = claim_ur self p (store_tail self tail w)"
    using x fill by (intro ur_world.equality)
      (simp_all add: w' claim_ur_def op_ur_def store_tail_def upd_ctx_ur_def)
qed

lemma submit_loop_claims:
  assumes "ring_read self q w" and "ready_ur self (store_tail self tail w)" and "\<forall>p\<in>set ps. ur_ops w p \<noteq> None"
  shows "\<exists>r cs v tail' w'. claim_loop free_ur (ring_full self) (claim_ur self) ps (store_tail self tail w) = (r, cs, v) \<and>
     submit_loop_ur self q ps tail n w = (loop_result r, tail', n + of_nat (length cs), w') \<and> store_tail self tail' w' = v"
  using assms
proof (induction ps arbitrary: tail n w)
  case Nil
  then show ?case by (simp add: loop_result_def)
next
  case (Cons p ps)
  let ?v = "store_tail self tail w" and ?w = "upd_op_ur p (\<lambda>x. x\<lparr>uo_in_progress := 1\<rparr>) w"
  obtain x where x: "ur_ops w p = Some x" using Cons.prems(3) by auto
  have ops: "ops_ok_ur w" and self: "ur_ops w self = None"
    using Cons.prems(2) by (simp_all add: ready_ur_def ops_ok_ur_def)
  have ok: "if uo_in_progress x = 0 then uo_context x = NULL \<and> snd (fill_sqe p x) else uo_in_progress x = 1"
    using ops x by (simp add: ops_ok_ur_def)
  have free: "free_ur w p \<longleftrightarrow> uo_in_progress x = 0" by (simp add: free_ur_def x)
  note full = ring_read_full [OF Cons.prems(1,2)]
  show ?case
  proof (cases "uo_in_progress x = 0")
    case False
    then have "uo_in_progress x = 1" using ok by simp
    then have "x\<lparr>uo_in_progress := 1\<rparr> = x" by (cases x) simp
    then have "?w = w" using x by (simp add: upd_op_ur_def fun_upd_idem)
    then have "submit_loop_ur self q (p # ps) tail n w = submit_loop_ur self q ps tail n w"
      using False x by (simp add: op_ur_def Let_def)
    moreover have "claim_loop free_ur (ring_full self) (claim_ur self) (p # ps) ?v =
        claim_loop free_ur (ring_full self) (claim_ur self) ps ?v"
      using False free by simp
    ultimately show ?thesis using Cons.IH [OF Cons.prems(1,2)] Cons.prems(3) by simp
  next
    case claimed: True
    show ?thesis
    proof (cases "tail - sq_head q \<ge> sq_ring_entries q")
      case True
      have "x\<lparr>uo_in_progress := 0\<rparr> = x" using claimed by (cases x) simp
      then have "upd_op_ur p (\<lambda>x. x\<lparr>uo_in_progress := 0\<rparr>) ?w = w"
        using x by (simp add: upd_op_ur_def fun_upd_idem)
      then show ?thesis using True claimed x free full(1) by (simp add: op_ur_def loop_result_def Let_def)
    next
      case False
      obtain sqe where fill: "fill_sqe p x = (sqe, True)" using ok claimed by (cases "fill_sqe p x") auto
      have "fill_sqe p (op_ur ?w p) = (sqe, True)" using fill x by (simp add: op_ur_def)
      let ?i = "tail AND sq_ring_mask q"
      define w1 where "w1 = hold_op_ur self p (store_array self ?i (store_sqe self ?i sqe ?w))"
      have ne: "p \<noteq> self" and ctx: "uo_context x = NULL" using x self ok claimed by auto
      note eq = claim_of_stores [OF Cons.prems(1) x ctx ne False fill, folded w1_def]
      have "ready_ur self (store_tail self (tail + 1) w1)"
        unfolding eq(1) using claim_ur_step(1) [OF Cons.prems(2), of p] free claimed full(1) False by simp
      moreover have "\<forall>p\<in>set ps. ur_ops w1 p \<noteq> None"
        using Cons.prems(3) by (simp add: w1_def hold_op_ur_def store_array_def store_sqe_def Let_def)
      ultimately obtain r cs v tail' w' where
        loop: "claim_loop free_ur (ring_full self) (claim_ur self) ps (claim_ur self p ?v) = (r, cs, v)"
        and sub: "submit_loop_ur self q ps (tail + 1) (n + 1) w1 = (loop_result r, tail', n + 1 + of_nat (length cs), w')"
        and v: "store_tail self tail' w' = v"
        using Cons.IH [OF eq(2), of "tail + 1" "n + 1"] unfolding eq(1) by blast
      obtain a where sqes: "uc_sqes (the (ur_ctxs w self)) = Some a" using full(2) by (auto simp: ctx_ur_def)
      have "submit_loop_ur self q (p # ps) tail n w = submit_loop_ur self q ps (tail + 1) (n + 1) w1"
        using x claimed False sqes fill
        by (simp add: w1_def op_ur_def ctx_ur_def Let_def)
      moreover have "claim_loop free_ur (ring_full self) (claim_ur self) (p # ps) ?v = (r, p # cs, v)"
        using loop free claimed full(1) False by simp
      ultimately show ?thesis using sub v by (simp add: add.assoc)
    qed
  qed
qed

lemma submit_ur_loop:
  assumes "ready_ur self w" and "uc_uring_fd (ctx_ur w self) \<ge> 0" and "\<forall>p\<in>set ps. ur_ops w p \<noteq> None"
  obtains r cs v where "claim_loop free_ur (ring_full self) (claim_ur self) ps w = (r, cs, v)"
    and "AIOContext_submit_ur self (Some ps) w = (case r of None \<Rightarrow> Ret (PyLong (int (length cs))) | Some e \<Rightarrow> Raise e, v)"
proof (cases "ps = []")
  case True
  then show ?thesis using assms(2) by (intro that [of None "[]" w]) (simp_all add: AIOContext_submit_ur_def)
next
  case False
  obtain c where c: "ur_ctxs w self = Some c" "sq_wf c" using assms(1) by (auto simp: ready_ur_def)
  then obtain q where q: "uc_sq c = Some q" by (auto simp: sq_wf_def)
  have "store_tail self (sq_tail q) w = w"
  proof -
    have "c\<lparr>uc_sq := Some q\<rparr> = c" using q by (cases c) simp
    then show ?thesis using c q by (simp add: store_tail_def upd_ctx_ur_def fun_upd_idem)
  qed
  moreover have "ring_read self q w" using c q by (simp add: ring_read_def)
  ultimately obtain r cs v tail' w' where
    loop: "claim_loop free_ur (ring_full self) (claim_ur self) ps w = (r, cs, v)"
    and sub: "submit_loop_ur self q ps (sq_tail q) 0 w = (loop_result r, tail', of_nat (length cs), w')"
    and v: "store_tail self tail' w' = v"
    using submit_loop_claims [of self q w "sq_tail q" ps 0] assms(1,3) by auto
  note props = uring.loop_claims [OF conjI [OF assms(1) refl] loop]
  have "length cs < 2 ^ 32"
  proof -
    obtain c' where c': "ur_ctxs v self = Some c'" "sq_wf c'" using props by (auto simp: ready_ur_def)
    have "sq_list (ctx_ur v self) = sq_list (ctx_ur w self) @ map (request_ur w) cs" using props by blast
    then have "length cs \<le> length (sq_list c')" using c'(1) by (simp add: ctx_ur_def)
    also have "\<dots> \<le> sq_capacity c'" by (rule sq.content_bound [OF c'(2)])
    also have "\<dots> < 2 ^ 32"
      using unat_lt32 by (simp add: sq_capacity_def split: option.split)
    finally show ?thesis .
  qed
  then have count: "uint (of_nat (length cs) :: u32) = int (length cs)" by (rule uint_of_nat_small)
  have "wrong_type (ur_ops w) 0 ps = None" using assms(3) by (simp add: wrong_type_None)
  moreover have "uc_sq (ctx_ur w self) = Some q" by (simp add: ctx_ur_def c q)
  ultimately have submit: "AIOContext_submit_ur self (Some ps) w =
      (case r of None \<Rightarrow> Ret (PyLong (int (length cs))) | Some e \<Rightarrow> Raise e, v)"
    using assms(2) False sub v count by (cases r) (simp_all add: AIOContext_submit_ur_def loop_result_def)
  with loop show ?thesis by (rule that)
qed

text \<open>
  C16. \<^verbatim>\<open>Context.submit\<close> on an initialised Context and Operations. It claims each operation at
  most once and only operations never claimed before, in the order of the arguments; the
  ring gains exactly their entries, in that order; every claimed operation gets its flag and
  its Context and one reference, the Context one reference for each. It returns their
  number, and then every free argument was claimed, or it raises \<^verbatim>\<open>OverflowError\<close> with the
  ring full and all that was staged before kept in the ring.
\<close>

theorem ur_submit_spec:
  assumes "ready_ur self w" and "uc_uring_fd (ctx_ur w self) \<ge> 0" and "\<forall>p\<in>set ps. ur_ops w p \<noteq> None"
  shows "\<exists>r cs w'. AIOContext_submit_ur self (Some ps) w = (r, w') \<and> w' = fold (claim_ur self) cs w \<and>
     (ready_ur self w' \<and> sq_capacity (ctx_ur w' self) = sq_capacity (ctx_ur w self)) \<and> subseq cs ps \<and> distinct cs \<and> set cs \<subseteq> {p \<in> set ps. free_ur w p} \<and>
     sq_list (ctx_ur w' self) = sq_list (ctx_ur w self) @ map (request_ur w) cs \<and>
     (\<forall>p. free_ur w' p \<longleftrightarrow> p \<notin> set cs \<and> free_ur w p) \<and>
     (r = Ret (PyLong (int (length cs))) \<and> set cs = {p \<in> set ps. free_ur w p} \<or>
      r = Raise ring_full_error \<and> length (sq_list (ctx_ur w' self)) = sq_capacity (ctx_ur w self))"
proof -
  obtain r cs v where loop: "claim_loop free_ur (ring_full self) (claim_ur self) ps w = (r, cs, v)"
    and submit: "AIOContext_submit_ur self (Some ps) w =
      (case r of None \<Rightarrow> Ret (PyLong (int (length cs))) | Some e \<Rightarrow> Raise e, v)"
    by (rule submit_ur_loop [OF assms])
  note props = uring.loop_claims [OF conjI [OF assms(1) refl] loop]
  have outcome: "(case r of None \<Rightarrow> Ret (PyLong (int (length cs))) | Some e \<Rightarrow> Raise e) = Ret (PyLong (int (length cs))) \<and>
        set cs = {p \<in> set ps. free_ur w p} \<or>
      (case r of None \<Rightarrow> Ret (PyLong (int (length cs))) | Some e \<Rightarrow> Raise e) = Raise ring_full_error \<and>
        length (sq_list (ctx_ur v self)) = sq_capacity (ctx_ur w self)"
  proof (cases r)
    case None
    then show ?thesis using props by simp
  next
    case (Some e)
    have "ring_full self v = Some e" using props unfolding Some option.case by blast
    moreover have "sq_capacity (ctx_ur v self) = sq_capacity (ctx_ur w self)" using props by blast
    ultimately show ?thesis using Some by (simp add: ring_full_def split: if_splits)
  qed
  from submit outcome props show ?thesis
    by (intro exI conjI) (assumption | blast)+
qed

text \<open>
  An example: three operations, the one at address 9 already in flight, submitted with a
  repetition to a ring of four slots whose counter is about to wrap.
\<close>

definition ex_new :: ur_world where
  "ex_new = ex_ur\<lparr>ur_ops := [2 \<mapsto> ex_op_ur URING_READ 5, 3 \<mapsto> ex_op_ur URING_WRITE NULL,
     9 \<mapsto> ex_flight (ex_op_ur URING_READ NULL)]\<rparr>"

lemma ex_new_ctx: "ur_ctxs ex_new 1 = Some ex_ctx_ur" "ctx_ur ex_new 1 = ex_ctx_ur"
  by (simp_all add: ex_new_def ex_ur_def ctx_ur_def)

lemma ex_ctx_wf: "sq_wf ex_ctx_ur" "sq_list ex_ctx_ur = []" "sq_capacity ex_ctx_ur = 4"
proof -
  show "sq_wf ex_ctx_ur"
    unfolding sq_wf_def
    by (intro exI [of _ ex_sq] exI [of _ "\<lambda>_. zero_sqe"] exI [of _ 2])
      (simp add: ex_ctx_ur_def ex_sq_def mask_eq_exp_minus_1)
qed (simp_all add: ex_ctx_ur_def ex_sq_def sq_list_def sq_capacity_def)

lemma ex_new_ready: "ready_ur 1 ex_new"
proof -
  have "ops_ok_ur ex_new"
    by (auto simp: ops_ok_ur_def ex_new_def ex_op_ur_def ex_flight_def zero_op_ur_def fill_sqe_def Let_def
        split: if_splits)
  then show ?thesis using ex_ctx_wf(1) by (simp add: ready_ur_def ex_new_ctx) (simp add: ex_new_def)
qed

lemma ex_new_free: "free_ur ex_new p \<longleftrightarrow> p = 2 \<or> p = 3"
  by (simp add: free_ur_def ex_new_def ex_op_ur_def ex_flight_def zero_op_ur_def)

theorem ur_submit_spec_witness:
  "\<exists>w'. AIOContext_submit_ur 1 (Some [2, 9, 3, 2]) ex_new = (Ret (PyLong 2), w') \<and>
     length (sq_list (ctx_ur w' 1)) = 2 \<and> \<not> free_ur w' 2"
proof -
  have "uc_uring_fd (ctx_ur ex_new 1) \<ge> 0" by (simp add: ex_new_ctx ex_ctx_ur_def)
  moreover have "\<forall>p\<in>set [2, 9, 3, 2]. ur_ops ex_new p \<noteq> None" by (simp add: ex_new_def)
  ultimately obtain r cs w' where run: "AIOContext_submit_ur 1 (Some [2, 9, 3, 2]) ex_new = (r, w')"
    and cs: "distinct cs" "set cs \<subseteq> {2, 3}"
    and list: "sq_list (ctx_ur w' 1) = map (request_ur ex_new) cs" and free: "\<forall>p. free_ur w' p \<longleftrightarrow> p \<notin> set cs \<and> (p = 2 \<or> p = 3)"
    and res: "r = Ret (PyLong (int (length cs))) \<and> set cs = {2, 3} \<or> length (sq_list (ctx_ur w' 1)) = 4"
    using ur_submit_spec [OF ex_new_ready, of "[2, 9, 3, 2]"] unfolding ex_new_ctx(2) ex_ctx_wf(2,3) ex_new_free
    by fastforce
  have "length cs \<le> 2"
    using card_mono [OF _ cs(2)] distinct_card [OF cs(1)] by simp
  then have all: "set cs = {2, 3}" and r: "r = Ret (PyLong (int (length cs)))" using res list by auto
  then have "length cs = 2" using distinct_card [OF cs(1)] by simp
  then show ?thesis using run list free all r by simp
qed

section \<open>Cancel\<close>

text \<open>What \<^verbatim>\<open>cancel\<close> does before the system call: refuse with a full ring, or stage its entry.\<close>

lemma cancel_ur_stages:
  assumes "ur_ctxs w self = Some c" and "sq_wf c"
  shows "AIOContext_cancel_ur env self (Some op) w =
    (case stage_sqe (cancel_sqe op) c of None \<Rightarrow> (Raise ring_full_error, w)
     | Some c' \<Rightarrow> (Ret (PyLong 0), snd (snd (ue_enter env 0 1 0 (w\<lparr>ur_ctxs := (ur_ctxs w)(self \<mapsto> c')\<rparr>)))))"
proof -
  obtain q a where q: "uc_sq c = Some q" and a: "uc_sqes c = Some a" using assms(2) by (auto simp: sq_wf_def)
  have ctx: "ctx_ur w self = c" by (simp add: ctx_ur_def assms(1))
  show ?thesis
  proof (cases "sq_tail q - sq_head q \<ge> sq_ring_entries q")
    case True
    then show ?thesis by (simp add: AIOContext_cancel_ur_def stage_sqe_def ctx q a)
  next
    case False
    let ?i = "sq_tail q AND sq_ring_mask q"
    obtain c1 where c1: "stage_sqe (cancel_sqe op) c = Some c1" by (rule stage_closed [OF assms(2) q False])
    then have staged: "store_tail self (sq_tail q + 1) (store_array self ?i (store_sqe self ?i (cancel_sqe op) w)) =
        w\<lparr>ur_ctxs := (ur_ctxs w)(self \<mapsto> c1)\<rparr>"
      using False by (intro ur_world.equality)
        (auto simp: store_tail_def store_array_def store_sqe_def upd_ctx_ur_def assms(1) q stage_sqe_def Let_def)
    show ?thesis
      using False by (simp add: AIOContext_cancel_ur_def ctx q a staged c1 Let_def split_beta)
  qed
qed

end
