(* ===== verification/Uring_CQ.thy ===== *)
theory Uring_CQ
  imports Uring_Submit
begin

text \<open>
  The completion ring as a bounded queue: the kernel posts at its tail, \<^verbatim>\<open>uring_drain_cq\<close>
  consumes from its head.
\<close>

section \<open>The completion ring as a bounded queue\<close>

definition cq_list :: "AIOContext_ur \<Rightarrow> io_uring_cqe list" where
  "cq_list c = (case uc_cq c of None \<Rightarrow> [] | Some q \<Rightarrow> cq_entries q (cq_head q) (cq_tail q))"

definition cq_wf :: "AIOContext_ur \<Rightarrow> bool" where
  "cq_wf c \<longleftrightarrow> (\<exists>q k. uc_cq c = Some q \<and> k < 32 \<and> cq_ring_mask q = mask k \<and> unat (cq_tail q - cq_head q) \<le> 2 ^ k)"

definition cq_capacity :: "AIOContext_ur \<Rightarrow> nat" where
  "cq_capacity c = (case uc_cq c of None \<Rightarrow> 0 | Some q \<Rightarrow> Suc (unat (cq_ring_mask q)))"

text \<open>The kernel posts an entry, if there is room; the program takes the oldest.\<close>

definition post_cqe :: "io_uring_cqe \<Rightarrow> AIOContext_ur \<Rightarrow> AIOContext_ur option" where
  "post_cqe e c =
     (case uc_cq c of None \<Rightarrow> None
      | Some q \<Rightarrow>
          if cq_tail q - cq_head q > cq_ring_mask q then None
          else Some (c\<lparr>uc_cq := Some (q\<lparr>cqes := (cqes q)(cq_tail q AND cq_ring_mask q := e), cq_tail := cq_tail q + 1\<rparr>)\<rparr>))"

definition take_cqe :: "AIOContext_ur \<Rightarrow> (io_uring_cqe \<times> AIOContext_ur) option" where
  "take_cqe c =
     (case uc_cq c of None \<Rightarrow> None
      | Some q \<Rightarrow>
          if cq_head q = cq_tail q then None
          else Some (cqes q (cq_head q AND cq_ring_mask q), c\<lparr>uc_cq := Some (q\<lparr>cq_head := cq_head q + 1\<rparr>)\<rparr>))"

lemma unat_mask32: "k < 32 \<Longrightarrow> unat (mask k :: u32) = 2 ^ k - 1"
proof -
  assume k: "k < 32"
  have "unat (mask k + 1 :: u32) = 2 ^ k" using unat_power [OF k] by (simp add: mask_eq_exp_minus_1)
  moreover have "unat (mask k + 1 :: u32) = Suc (unat (mask k :: u32))"
    using unat_diff_Suc [of 0 "mask k + 1 :: u32"] unat_power [OF k] k by (auto simp: mask_eq_exp_minus_1 not_le)
  ultimately show ?thesis by simp
qed

lemma post_closed:
  assumes wf: "cq_wf c" and post: "post_cqe e c = Some c'"
  shows "cq_wf c' \<and> cq_list c' = cq_list c @ [e] \<and> cq_capacity c' = cq_capacity c"
proof -
  from wf obtain q k where q: "uc_cq c = Some q" and k: "k < 32" "cq_ring_mask q = mask k"
    and le: "unat (cq_tail q - cq_head q) \<le> 2 ^ k"
    by (auto simp: cq_wf_def)
  let ?n = "unat (cq_tail q - cq_head q)" and ?pos = "\<lambda>i. (cq_head q + of_nat i) AND mask k"
  have room: "\<not> cq_tail q - cq_head q > mask k" using post q k(2) by (auto simp: post_cqe_def split: if_splits)
  then have lt: "?n < 2 ^ k"
    using unat_mask32 [OF k(1)] le_imp_less_Suc [of ?n "2 ^ k - 1"] by (simp add: word_less_nat_alt not_less)
  have new: "unat (cq_tail q + 1 - cq_head q) = Suc ?n"
  proof -
    have "cq_head q \<noteq> cq_tail q + 1"
    proof
      assume "cq_head q = cq_tail q + 1"
      then have "cq_tail q - cq_head q = - 1" by simp
      then have "?n = 2 ^ 32 - 1" by (simp add: unsigned_minus_1_eq_mask mask_eq_exp_minus_1)
      moreover have "(2::nat) ^ k \<le> 2 ^ 31" using k(1) by (intro power_increasing) simp_all
      ultimately show False using lt by simp
    qed
    from unat_diff_Suc [OF this] show ?thesis by simp
  qed
  let ?q = "q\<lparr>cqes := (cqes q)(cq_tail q AND mask k := e), cq_tail := cq_tail q + 1\<rparr>"
  have c': "c' = c\<lparr>uc_cq := Some ?q\<rparr>" using post q k(2) room by (simp add: post_cqe_def)
  have ne: "?pos i \<noteq> cq_tail q AND mask k" if "i < ?n" for i
    using slots_distinct [of i ?n k "cq_head q"] that lt k(1) by simp
  have "cq_entries ?q (cq_head q) (cq_tail q + 1) = ring_list (cqes ?q) ?pos (Suc ?n)"
    using k(2) by (simp add: cq_entries_def new)
  also have "\<dots> = ring_list (cqes ?q) ?pos ?n @ [e]" by (simp add: ring_list_Suc)
  also have "ring_list (cqes ?q) ?pos ?n = ring_list (cqes q) ?pos ?n"
    by (rule ring_list_cong) (use ne in simp)
  also have "\<dots> = cq_list c" using q k(2) by (simp add: cq_list_def cq_entries_def)
  finally have "cq_list c' = cq_list c @ [e]" by (simp add: cq_list_def c' fun_upd_def)
  moreover have "cq_wf c'" using k new lt by (auto simp: cq_wf_def c')
  ultimately show ?thesis using q by (simp add: cq_capacity_def c')
qed

interpretation cq: bounded_fifo cq_wf cq_list cq_capacity "\<lambda>_. False" "\<lambda>_. False" post_cqe take_cqe
proof
  fix c c' :: AIOContext_ur and e :: io_uring_cqe
  assume wf: "cq_wf c"
  then obtain q k where q: "uc_cq c = Some q" and k: "k < 32" "cq_ring_mask q = mask k"
    and le: "unat (cq_tail q - cq_head q) \<le> 2 ^ k"
    by (auto simp: cq_wf_def)
  have len: "length (cq_list c) = unat (cq_tail q - cq_head q)" by (simp add: cq_list_def q cq_entries_def)
  have cap: "cq_capacity c = 2 ^ k" by (simp add: cq_capacity_def q k unat_mask32)
  show "length (cq_list c) \<le> cq_capacity c" using le by (simp add: len cap)
  have "cq_tail q - cq_head q > mask k \<longleftrightarrow> length (cq_list c) = cq_capacity c"
    using le unat_mask32 [OF k(1)] by (auto simp: word_less_nat_alt len cap)
  then show "(post_cqe e c = None) = (False \<or> length (cq_list c) = cq_capacity c)"
    by (simp add: post_cqe_def q k(2))
  show "cq_wf c' \<and> cq_list c' = cq_list c @ [e] \<and> cq_capacity c' = cq_capacity c" if "post_cqe e c = Some c'"
    by (rule post_closed [OF wf that])
  show "(take_cqe c = None) = (False \<or> cq_list c = [])"
    using len by (auto simp: take_cqe_def q unat_eq_0)
  show "cq_wf c' \<and> cq_list c = e # cq_list c' \<and> cq_capacity c' = cq_capacity c" if take: "take_cqe c = Some (e, c')"
  proof -
    have ne: "cq_head q \<noteq> cq_tail q" using take by (auto simp: take_cqe_def q)
    then have c': "e = cqes q (cq_head q AND cq_ring_mask q)" "c' = c\<lparr>uc_cq := Some (q\<lparr>cq_head := cq_head q + 1\<rparr>)\<rparr>"
      using take by (simp_all add: take_cqe_def q)
    have "cq_wf c'" using k le unat_diff_Suc [OF ne] by (auto simp: cq_wf_def c')
    then show ?thesis using cq_entries_Cons [OF ne, of q] by (simp add: c' cq_list_def q cq_capacity_def cq_entries_def)
  qed
qed

end
