(* ===== verification/Ownership.thy ===== *)
theory Ownership
  imports Interfaces
begin

text \<open>
  Who owns an Operation. The backends that hand operations to the kernel share one
  protocol of references: an Operation that is in flight holds a reference on the Context and
  the backend holds one on the Operation; when it completes, the reference on the Context
  is given back at once and the one on the Operation after its callback. This theory states
  the protocol as a transition system of its own, over counts only, with its invariant; a
  backend is tied to it by a refinement mapping (the locale \<open>backend\<close>), under which every
  step of the backend is a run of the protocol.

  \<open>self\<close> is the Context, \<open>A\<close> the addresses at which Operations are allocated.
\<close>

datatype phase = Fresh | Flight | Done

record 'p own =
  ow_phase :: "'p \<Rightarrow> phase option"
  ow_refs :: "'p \<Rightarrow> int"
  ow_user :: "'p \<Rightarrow> nat"
  ow_flight :: "'p multiset"
  ow_batch :: "'p multiset"

text \<open>Dropping one reference; the Operation that loses its last one is gone.\<close>

definition ow_drop :: "'p \<Rightarrow> 'p own \<Rightarrow> 'p own" where
  "ow_drop p s = s\<lparr>ow_refs := (ow_refs s)(p := ow_refs s p - 1),
     ow_phase := (if ow_refs s p = 1 then (ow_phase s)(p := None) else ow_phase s)\<rparr>"

inductive own_step :: "'p \<Rightarrow> 'p set \<Rightarrow> 'p own \<Rightarrow> 'p own \<Rightarrow> bool" for self :: 'p and A :: "'p set" where
  create: "p \<in> A \<Longrightarrow> ow_phase s p = None \<Longrightarrow>
    own_step self A s (s\<lparr>ow_phase := (ow_phase s)(p \<mapsto> Fresh), ow_refs := (ow_refs s)(p := 1), ow_user := (ow_user s)(p := 1)\<rparr>)"
| claim: "0 < ow_user s self \<Longrightarrow> ow_phase s p = Some Fresh \<Longrightarrow>
    own_step self A s (s\<lparr>ow_phase := (ow_phase s)(p \<mapsto> Flight),
      ow_refs := (ow_refs s)(p := ow_refs s p + 1, self := ow_refs s self + 1), ow_flight := add_mset p (ow_flight s)\<rparr>)"
| complete: "0 < ow_user s self \<Longrightarrow> p \<in># ow_flight s \<Longrightarrow>
    own_step self A s (s\<lparr>ow_phase := (ow_phase s)(p \<mapsto> Done), ow_refs := (ow_refs s)(self := ow_refs s self - 1),
      ow_flight := ow_flight s - {#p#}, ow_batch := add_mset p (ow_batch s)\<rparr>)"
| release: "p \<in># ow_batch s \<Longrightarrow>
    own_step self A s ((ow_drop p s)\<lparr>ow_batch := ow_batch s - {#p#}\<rparr>)"
| drop: "p \<in> A \<Longrightarrow> 0 < ow_user s p \<Longrightarrow>
    own_step self A s ((ow_drop p s)\<lparr>ow_user := (ow_user s)(p := ow_user s p - 1)\<rparr>)"
| drop_self: "0 < ow_user s self \<Longrightarrow>
    own_step self A s (s\<lparr>ow_refs := (ow_refs s)(self := ow_refs s self - 1), ow_user := (ow_user s)(self := ow_user s self - 1)\<rparr>)"
| share: "p \<in> insert self A \<Longrightarrow> 0 < ow_user s p \<Longrightarrow>
    own_step self A s (s\<lparr>ow_refs := (ow_refs s)(p := ow_refs s p + 1), ow_user := (ow_user s)(p := ow_user s p + 1)\<rparr>)"

text \<open>
  The accounts of one address: its phase, its references, those of the program, and how
  often it is in flight and among the completed operations whose callbacks are to run.
\<close>

definition counted :: "bool \<Rightarrow> phase option \<Rightarrow> int \<Rightarrow> nat \<Rightarrow> nat \<Rightarrow> nat \<Rightarrow> bool" where
  "counted inA ph r u f b \<longleftrightarrow> (ph \<noteq> None \<longrightarrow> inA) \<and> (inA \<longrightarrow> r = int u + int f + int b \<and> (ph = None \<longleftrightarrow> r = 0)) \<and>
     f = (if ph = Some Flight then 1 else 0) \<and> b \<le> (if ph = Some Done then 1 else 0)"

text \<open>Every reference is accounted for, and an Operation exists exactly as long as one is left.\<close>

definition own_inv :: "'p \<Rightarrow> 'p set \<Rightarrow> 'p own \<Rightarrow> bool" where
  "own_inv self A s \<longleftrightarrow> self \<notin> A \<and> ow_refs s self = int (ow_user s self) + int (size (ow_flight s)) \<and>
     (\<forall>p. counted (p \<in> A) (ow_phase s p) (ow_refs s p) (ow_user s p) (count (ow_flight s) p) (count (ow_batch s) p))"

lemma own_invD:
  assumes "own_inv self A s"
  shows "self \<notin> A" "ow_refs s self = int (ow_user s self) + int (size (ow_flight s))"
    "counted (p \<in> A) (ow_phase s p) (ow_refs s p) (ow_user s p) (count (ow_flight s) p) (count (ow_batch s) p)"
  using assms by (simp_all add: own_inv_def)

text \<open>A step changes the accounts of one Operation, and those of the Context.\<close>

lemma own_invI:
  assumes "own_inv self A s"
    and "ow_refs s' self = int (ow_user s' self) + int (size (ow_flight s'))"
    and "\<And>q. q \<noteq> p \<Longrightarrow> q \<noteq> self \<Longrightarrow> ow_phase s' q = ow_phase s q \<and> ow_refs s' q = ow_refs s q \<and> ow_user s' q = ow_user s q \<and>
      count (ow_flight s') q = count (ow_flight s) q \<and> count (ow_batch s') q = count (ow_batch s) q"
    and "p \<noteq> self \<Longrightarrow> counted (p \<in> A) (ow_phase s' p) (ow_refs s' p) (ow_user s' p) (count (ow_flight s') p) (count (ow_batch s') p)"
    and "ow_phase s' self = None" "count (ow_flight s') self = 0" "count (ow_batch s') self = 0"
  shows "own_inv self A s'"
  unfolding own_inv_def
proof (intro conjI allI)
  fix q
  show "counted (q \<in> A) (ow_phase s' q) (ow_refs s' q) (ow_user s' q) (count (ow_flight s') q) (count (ow_batch s') q)"
  proof (cases "q = self")
    case True
    then show ?thesis using assms(5-7) own_invD(1) [OF assms(1)] by (simp add: counted_def)
  next
    case False
    then show ?thesis using assms(3,4) own_invD(3) [OF assms(1), of q] by (cases "q = p") auto
  qed
qed (use assms(2) own_invD(1) [OF assms(1)] in simp_all)

lemma own_inv_self:
  assumes "own_inv self A s"
  shows "ow_phase s self = None" "self \<notin># ow_flight s" "self \<notin># ow_batch s"
  using own_invD(1) [OF assms] own_invD(3) [OF assms, of self] by (auto simp: counted_def count_eq_zero_iff)

lemma own_inv_step:
  assumes "own_step self A s s'" and inv: "own_inv self A s"
  shows "own_inv self A s'"
proof -
  note self = own_inv_self [OF inv] own_inv_self(2,3) [OF inv, unfolded not_in_iff] own_invD(1,2) [OF inv] and at = own_invD(3) [OF inv]
  show ?thesis
    using assms(1)
  proof cases
    case (create p)
    then show ?thesis using self at [of p] by (intro own_invI [OF inv, of _ p]) (auto simp: counted_def not_in_iff)
  next
    case (claim p)
    then have "p \<noteq> self" using self by auto
    then show ?thesis using claim self at [of p] by (intro own_invI [OF inv, of _ p]) (auto simp: counted_def not_in_iff)
  next
    case (complete p)
    then obtain F where F: "ow_flight s = add_mset p F" by (metis mset_add)
    have "p \<noteq> self" using complete self by auto
    then show ?thesis using complete self at [of p] unfolding F
      by (intro own_invI [OF inv, of _ p]) (auto simp: counted_def F split: if_splits)
  next
    case (release p)
    then have "p \<noteq> self" "0 < count (ow_batch s) p" using self by auto
    then show ?thesis using release self at [of p] by (intro own_invI [OF inv, of _ p]) (auto simp: counted_def ow_drop_def simp del: count_greater_zero_iff split: if_splits)
  next
    case (drop p)
    then have "p \<noteq> self" using self by auto
    then show ?thesis using drop self at [of p] by (intro own_invI [OF inv, of _ p]) (auto simp: counted_def ow_drop_def simp del: count_greater_zero_iff split: if_splits)
  next
    case drop_self
    then show ?thesis using self by (intro own_invI [OF inv, of _ self]) (auto simp: count_eq_zero_iff)
  next
    case (share p)
    then show ?thesis using self at [of p] by (intro own_invI [OF inv, of _ p]) (auto simp: counted_def not_in_iff)
  qed
qed

lemma own_inv_steps: "(own_step self A)\<^sup>*\<^sup>* s s' \<Longrightarrow> own_inv self A s \<Longrightarrow> own_inv self A s'"
  by (induction rule: rtranclp_induct) (auto intro: own_inv_step)

text \<open>Completing several operations at once.\<close>

lemma own_complete_all:
  assumes "0 < ow_user s self" and "distinct ps" and "set ps \<subseteq> set_mset (ow_flight s)"
  shows "(own_step self A)\<^sup>*\<^sup>* s (s\<lparr>ow_phase := (\<lambda>p. if p \<in> set ps then Some Done else ow_phase s p),
    ow_refs := (ow_refs s)(self := ow_refs s self - int (length ps)),
    ow_flight := ow_flight s - mset ps, ow_batch := mset ps + ow_batch s\<rparr>)"
  using assms
proof (induction ps arbitrary: s)
  case Nil
  then show ?case by simp
next
  case (Cons p ps)
  let ?t = "s\<lparr>ow_phase := (ow_phase s)(p \<mapsto> Done), ow_refs := (ow_refs s)(self := ow_refs s self - 1),
      ow_flight := ow_flight s - {#p#}, ow_batch := add_mset p (ow_batch s)\<rparr>"
  let ?after = "\<lambda>s ps. s\<lparr>ow_phase := (\<lambda>p. if p \<in> set ps then Some Done else ow_phase s p),
    ow_refs := (ow_refs s)(self := ow_refs s self - int (length ps)),
    ow_flight := ow_flight s - mset ps, ow_batch := mset ps + ow_batch s\<rparr>"
  have "own_step self A s ?t" using Cons.prems by (intro own_step.complete) auto
  moreover have "(own_step self A)\<^sup>*\<^sup>* ?t (?after ?t ps)"
    using Cons.prems by (intro Cons.IH) (auto simp: in_diff_count)
  moreover have "?after ?t ps = ?after s (p # ps)"
    by (intro own.equality) (auto simp: fun_eq_iff)
  ultimately show ?case by (metis (no_types, lifting) converse_rtranclp_into_rtranclp)
qed

text \<open>Claiming several operations at once.\<close>

lemma own_claim_all:
  assumes "0 < ow_user s self" and "distinct ps" and "\<forall>p\<in>set ps. ow_phase s p = Some Fresh" and "self \<notin> set ps"
  shows "(own_step self A)\<^sup>*\<^sup>* s (s\<lparr>ow_phase := (\<lambda>p. if p \<in> set ps then Some Flight else ow_phase s p),
    ow_refs := (\<lambda>q. ow_refs s q + (if q \<in> set ps then 1 else 0) + (if q = self then int (length ps) else 0)),
    ow_flight := mset ps + ow_flight s\<rparr>)"
  using assms
proof (induction ps arbitrary: s)
  case Nil
  then show ?case by (simp cong: if_cong)
next
  case (Cons p ps)
  let ?t = "s\<lparr>ow_phase := (ow_phase s)(p \<mapsto> Flight),
      ow_refs := (ow_refs s)(p := ow_refs s p + 1, self := ow_refs s self + 1), ow_flight := add_mset p (ow_flight s)\<rparr>"
  let ?after = "\<lambda>s ps. s\<lparr>ow_phase := (\<lambda>p. if p \<in> set ps then Some Flight else ow_phase s p),
    ow_refs := (\<lambda>q. ow_refs s q + (if q \<in> set ps then 1 else 0) + (if q = self then int (length ps) else 0)),
    ow_flight := mset ps + ow_flight s\<rparr>"
  have "own_step self A s ?t" using Cons.prems by (intro own_step.claim) auto
  moreover have "(own_step self A)\<^sup>*\<^sup>* ?t (?after ?t ps)"
    using Cons.prems by (intro Cons.IH) auto
  moreover have "?after ?t ps = ?after s (p # ps)"
    using Cons.prems by (intro own.equality) (auto simp: fun_eq_iff)
  ultimately show ?case by (metis (no_types, lifting) converse_rtranclp_into_rtranclp)
qed

text \<open>
  What the accounts are for: what is in flight, or waits for its callback, exists, however
  many of its references the program has dropped; so does the Context while anything is in
  flight; and the program is left with exactly its own references when nothing is.
\<close>

lemma in_flight_alive:
  assumes "own_inv self A s" and "p \<in># ow_flight s"
  shows "ow_phase s p = Some Flight" "p \<in> A" "p \<noteq> self" "0 < ow_refs s p" "0 < ow_refs s self"
proof -
  have "0 < count (ow_flight s) p" using assms(2) by simp
  then show ph: "ow_phase s p = Some Flight" and "p \<in> A" and "0 < ow_refs s p"
    using own_invD(3) [OF assms(1), of p]
    by (auto simp: counted_def simp del: count_greater_zero_iff split: if_splits)
  show "p \<noteq> self" using ph own_inv_self(1) [OF assms(1)] by auto
  have "0 < size (ow_flight s)" using assms(2) by (auto simp: nonempty_has_size [symmetric])
  then show "0 < ow_refs s self" using own_invD(2) [OF assms(1)] by simp
qed

lemma in_batch_alive:
  assumes "own_inv self A s" and "p \<in># ow_batch s"
  shows "ow_phase s p = Some Done" "p \<in> A" "p \<noteq> self" "0 < ow_refs s p"
proof -
  have "0 < count (ow_batch s) p" using assms(2) by simp
  then show ph: "ow_phase s p = Some Done" and "p \<in> A" and "0 < ow_refs s p"
    using own_invD(3) [OF assms(1), of p]
    by (auto simp: counted_def simp del: count_greater_zero_iff split: if_splits)
  show "p \<noteq> self" using ph own_inv_self(1) [OF assms(1)] by auto
qed

section \<open>Backends that follow the protocol\<close>

text \<open>
  \<open>own_of\<close> reads the accounts off a state of the backend; \<open>data\<close> is what else holds of its
  reachable states.
\<close>

locale backend =
  fixes start :: "'s \<Rightarrow> bool"
    and step :: "'s \<Rightarrow> 's \<Rightarrow> bool"
    and own_of :: "'s \<Rightarrow> 'p own"
    and data :: "'s \<Rightarrow> bool"
    and self :: 'p
    and A :: "'p set"
  assumes start_inv: "start s \<Longrightarrow> data s \<and> own_inv self A (own_of s)"
    and step_refines: "step s s' \<Longrightarrow> data s \<Longrightarrow> own_inv self A (own_of s) \<Longrightarrow>
      data s' \<and> (own_step self A)\<^sup>*\<^sup>* (own_of s) (own_of s')"
begin

lemma run_refines:
  assumes "step\<^sup>*\<^sup>* s s'" and "data s" and "own_inv self A (own_of s)"
  shows "data s' \<and> own_inv self A (own_of s') \<and> (own_step self A)\<^sup>*\<^sup>* (own_of s) (own_of s')"
  using assms
proof (induction rule: rtranclp_induct)
  case base
  then show ?case by simp
next
  case (step t u)
  then have t: "data t" "own_inv self A (own_of t)" "(own_step self A)\<^sup>*\<^sup>* (own_of s) (own_of t)" by simp_all
  from step_refines [OF step.hyps(2) t(1,2)] own_inv_steps [OF _ t(2)] t(3) show ?case by (meson rtranclp_trans)
qed

lemma reachable_owned:
  assumes "start s" and "step\<^sup>*\<^sup>* s s'"
  shows "data s' \<and> own_inv self A (own_of s') \<and> (own_step self A)\<^sup>*\<^sup>* (own_of s) (own_of s')"
  using run_refines [OF assms(2)] start_inv [OF assms(1)] by blast

end

end
