(* ===== verification/Uring_Objects.thy ===== *)
theory Uring_Objects
  imports Uring_CQ Ownership
begin

text \<open>
  What the operations on io_uring objects do to the state, field by field: giving up
  references, the three kinds of constructor, setting a callback, releasing the Context.
  \<open>foreign\<close> objects are those that are neither Operations nor the Context: callbacks and
  bytes objects.
\<close>

section \<open>References to objects of the runtime\<close>

lemma py_xdecref_frame:
  "refs (Py_XDECREF p w) q = refs w q - (if q = p \<and> p \<noteq> NULL then 1 else 0)"
  "bytes_at (Py_XDECREF p w) = bytes_at w"
  by (simp_all add: Py_XDECREF_def rt_simps)

lemma ur_xdecref_frame [simp]:
  "ur_ops (Py_XDECREF p w) = ur_ops w" "ur_ctxs (Py_XDECREF p w) = ur_ctxs w"
  by (simp_all add: Py_XDECREF_def)

section \<open>Deallocation\<close>

lemma dealloc_op_frame:
  assumes "ur_ops w p = Some x" and "uo_context x = NULL"
  shows "ur_ops (AIOOperation_dealloc_ur p w) = (ur_ops w)(p := None)"
    and "ur_ctxs (AIOOperation_dealloc_ur p w) = ur_ctxs w"
    and "bytes_at (AIOOperation_dealloc_ur p w) = bytes_at w"
    and "refs (AIOOperation_dealloc_ur p w) q = refs w q - (if q = uo_callback x \<and> q \<noteq> NULL then 1 else 0)
      - (if q = uo_py_buffer x \<and> q \<noteq> NULL then 1 else 0)"
  using assms
  by (auto simp: AIOOperation_dealloc_ur_def AIOOperation_clear_ur_def clear_context_ur_def op_ur_def
      py_xdecref_frame rt_simps Let_def fun_eq_iff)

lemma decref_op_frame:
  assumes "ur_ops w p = Some x" and "uo_context x = NULL"
  shows "ur_ops (decref_op_ur p w) = (if refs w p = 1 then (ur_ops w)(p := None) else ur_ops w)"
    and "ur_ctxs (decref_op_ur p w) = ur_ctxs w"
    and "bytes_at (decref_op_ur p w) = bytes_at w"
    and "refs (decref_op_ur p w) q = refs w q - (if q = p then 1 else 0) - (if refs w p = 1 then
      (if q = uo_callback x \<and> q \<noteq> NULL then 1 else 0) + (if q = uo_py_buffer x \<and> q \<noteq> NULL then 1 else 0) else 0)"
  using dealloc_op_frame [of "w\<lparr>refs := (refs w)(p := 0)\<rparr>" p x] assms
  by (cases "refs w p = 1"; simp add: decref_op_ur_def decref_last decref_alive)+

text \<open>An operation that lives on only loses the reference.\<close>

lemma decref_op_alive: "refs w p \<noteq> 1 \<Longrightarrow> decref_op_ur p w = w\<lparr>refs := (refs w)(p := refs w p - 1)\<rparr>"
  by (simp add: decref_op_ur_def decref_alive)

lemma dealloc_ctx_frame:
  "refs (AIOContext_dealloc_ur self w) = refs w" "bytes_at (AIOContext_dealloc_ur self w) = bytes_at w"
  "mem (AIOContext_dealloc_ur self w) = mem w"
  "ur_ctxs (AIOContext_dealloc_ur self w) = (ur_ctxs w)(self := None)"
  by (simp_all add: AIOContext_dealloc_ur_def rt_simps Let_def)

lemma decref_ctx_frame:
  "refs (decref_ctx_ur self w) = (refs w)(self := refs w self - 1)"
  "bytes_at (decref_ctx_ur self w) = bytes_at w" "mem (decref_ctx_ur self w) = mem w"
  "ur_ctxs (decref_ctx_ur self w) = (if refs w self = 1 then (ur_ctxs w)(self := None) else ur_ctxs w)"
  by (cases "refs w self = 1"; simp add: decref_ctx_ur_def decref_last decref_alive dealloc_ctx_frame)+

section \<open>Construction\<close>

text \<open>An Operation as the constructors leave it.\<close>

definition fresh_op :: "AIOOperation_ur \<Rightarrow> bool" where
  "fresh_op x \<longleftrightarrow> uo_in_progress x = 0 \<and> uo_context x = NULL \<and> uo_done x = 0 \<and> uo_callback x = NULL \<and>
     uo_opcode x \<in> {URING_READ, URING_WRITE, URING_FSYNC, URING_FDSYNC}"

text \<open>
  The two outcomes of a constructor: the Operation was given up again, or there is a new
  Operation with one reference. The other references, the bytes objects and the memory
  differ between the three kinds of constructor.
\<close>

definition discarded :: "ptr \<Rightarrow> ur_world \<Rightarrow> ur_world \<Rightarrow> bool" where
  "discarded p w w' \<longleftrightarrow> ur_ops w' = (ur_ops w)(p := None) \<and> ur_ctxs w' = ur_ctxs w \<and>
     refs w' = (refs w)(p := 0) \<and> bytes_at w' = bytes_at w \<and> mem w' = mem w"

definition constructed :: "ptr \<Rightarrow> AIOOperation_ur \<Rightarrow> ur_world \<Rightarrow> ur_world \<Rightarrow> bool" where
  "constructed p x w w' \<longleftrightarrow> fresh_op x \<and> ur_ops w' = (ur_ops w)(p \<mapsto> x) \<and> ur_ctxs w' = ur_ctxs w \<and> refs w' p = 1"

lemma alloc_op_frame [simp]:
  "ur_ops (alloc_op_ur p w) = (ur_ops w)(p \<mapsto> zero_op_ur)" "ur_ctxs (alloc_op_ur p w) = ur_ctxs w"
  "refs (alloc_op_ur p w) = (refs w)(p := 1)" "mem (alloc_op_ur p w) = mem w"
  "bytes_at (alloc_op_ur p w) = bytes_at w" "trace (alloc_op_ur p w) = trace w"
  by (simp_all add: alloc_op_ur_def)

text \<open>Giving up an Operation that was just allocated and owns nothing but \<open>pb\<close>.\<close>

lemma discard_frame:
  assumes "ur_ops w p = Some x" "refs w p = 1" "uo_context x = NULL" "uo_callback x = NULL" "uo_py_buffer x = NULL"
  shows "ur_ops (decref_op_ur p w) = (ur_ops w)(p := None)" "ur_ctxs (decref_op_ur p w) = ur_ctxs w"
    "bytes_at (decref_op_ur p w) = bytes_at w" "refs (decref_op_ur p w) = (refs w)(p := 0)"
    "mem (decref_op_ur p w) = mem w"
proof -
  show "ur_ops (decref_op_ur p w) = (ur_ops w)(p := None)" "ur_ctxs (decref_op_ur p w) = ur_ctxs w"
    "bytes_at (decref_op_ur p w) = bytes_at w" "refs (decref_op_ur p w) = (refs w)(p := 0)"
    using decref_op_frame [OF assms(1,3)] assms by (simp_all add: fun_eq_iff)
  show "mem (decref_op_ur p w) = mem w"
    using assms by (simp add: decref_op_ur_def decref_last AIOOperation_dealloc_ur_def AIOOperation_clear_ur_def
        clear_context_ur_def op_ur_def Py_XDECREF_def rt_simps Let_def)
qed

lemma discarded_decref:
  assumes "ur_ops w p = Some x" "refs w p = 1" "uo_context x = NULL" "uo_callback x = NULL" "uo_py_buffer x = NULL"
    and "ur_ops w = (ur_ops v)(p \<mapsto> x)" "ur_ctxs w = ur_ctxs v" "refs w = (refs v)(p := 1)" "bytes_at w = bytes_at v" "mem w = mem v"
  shows "discarded p v (decref_op_ur p w)"
  using discard_frame [OF assms(1-5)] assms(6-) by (simp add: discarded_def)

lemma discarded_fresh: "discarded p w (decref_op_ur p (alloc_op_ur p w))"
  by (rule discarded_decref [where x = zero_op_ur]) (simp_all add: zero_op_ur_def)

lemma read_effect:
  assumes "AIOOperation_read_ur p parsed (obj, block, garbage) w = (r, w')" and "p \<noteq> NULL" and "parsed \<noteq> None \<longrightarrow> obj \<noteq> p"
  shows "(\<exists>e. r = Raise e) \<and> discarded p w w' \<or>
    r = Ret (PyObj p) \<and> obj \<noteq> NULL \<and> (\<exists>x n. constructed p x w w' \<and> uo_py_buffer x = obj \<and> uo_buf x = block \<and>
       uo_buf_size x = n \<and> (\<exists>fd off. parsed = Some (n, fd, off)) \<and> refs w' = (refs w)(p := 1, obj := 1) \<and> bytes_at w' = (bytes_at w)(obj := block) \<and>
       mem w' = (mem w)(block \<mapsto> replicate (unat n) 0 @ drop (unat n) garbage))"
proof (cases parsed)
  case None
  then have "r = Raise PyErr_Pending" "w' = decref_op_ur p (alloc_op_ur p w)"
    using assms by (simp_all add: AIOOperation_read_ur_def)
  then show ?thesis using discarded_fresh by simp
next
  case (Some a)
  then obtain n fd off where a: "parsed = Some (n, fd, off)" using Some by (metis prod_cases3)
  define x where "x = zero_op_ur\<lparr>uo_fileno := fd, uo_offset := (case off of None \<Rightarrow> uo_offset zero_op_ur | Some o' \<Rightarrow> o')\<rparr>"
  define v where "v = upd_op_ur p (\<lambda>x. x\<lparr>uo_fileno := fd, uo_offset := (case off of None \<Rightarrow> uo_offset x | Some o' \<Rightarrow> o')\<rparr>) (alloc_op_ur p w)"
  have v: "ur_ops v = (ur_ops w)(p \<mapsto> x)" "ur_ctxs v = ur_ctxs w" "refs v = (refs w)(p := 1)" "bytes_at v = bytes_at w" "mem v = mem w"
    by (simp_all add: v_def x_def)
  have x: "uo_context x = NULL" "uo_callback x = NULL" "uo_py_buffer x = NULL" "uo_in_progress x = 0" "uo_done x = 0"
    by (simp_all add: x_def zero_op_ur_def)
  show ?thesis
  proof (cases "obj = NULL")
    case True
    have "x\<lparr>uo_py_buffer := NULL\<rparr> = x" using x(3) by (cases x) simp
    then have "upd_op_ur p (\<lambda>x. x\<lparr>uo_py_buffer := NULL\<rparr>) v = v" by (simp add: upd_op_ur_def v(1) fun_upd_idem)
    then have "r = Raise PyErr_Pending" "w' = decref_op_ur p v"
      using assms(1,2) True by (simp_all add: AIOOperation_read_ur_def a v_def)
    moreover have "discarded p w (decref_op_ur p v)"
      using discarded_decref [where x = x and v = w and w = v and p = p] v x by simp
    ultimately show ?thesis by simp
  next
    case False
    let ?x = "x\<lparr>uo_py_buffer := obj, uo_buf := block, uo_buf_size := n, uo_opcode := URING_READ\<rparr>"
    have "r = Ret (PyObj p)" "ur_ops w' = (ur_ops w)(p \<mapsto> ?x)" "ur_ctxs w' = ur_ctxs w"
      "refs w' = (refs w)(p := 1, obj := 1)" "bytes_at w' = (bytes_at w)(obj := block)"
      "mem w' = (mem w)(block \<mapsto> replicate (unat n) 0 @ drop (unat n) garbage)"
      using assms False by (simp_all add: AIOOperation_read_ur_def a v_def [symmetric] v Let_def op_ur_def store_bytes_def)
        (auto simp: op_ur_def store_bytes_def v)
    moreover have "fresh_op ?x" using x by (simp add: fresh_op_def)
    ultimately show ?thesis using assms(3) False
      by (intro disjI2 conjI exI [of _ ?x] exI [of _ n]) (simp_all add: constructed_def a)
  qed
qed

lemma write_effect:
  assumes "AIOOperation_write_ur p parsed as_string w = (r, w')" and "p \<noteq> NULL" and "bytes_at w p = NULL"
  shows "(\<exists>e. r = Raise e) \<and> discarded p w w' \<or>
    r = Ret (PyObj p) \<and> (\<exists>x pb. constructed p x w w' \<and> uo_py_buffer x = pb \<and> (\<exists>fd off. parsed = Some (pb, fd, off)) \<and> bytes_at w pb \<noteq> NULL \<and>
       uo_buf x = bytes_at w pb \<and> uo_buf_size x = of_nat (length (the (mem w (bytes_at w pb)))) \<and>
       refs w' = (refs w)(p := 1, pb := refs w pb + 1) \<and> bytes_at w' = bytes_at w \<and> mem w' = mem w)"
proof (cases parsed)
  case None
  then have "r = Raise PyErr_Pending" "w' = decref_op_ur p (alloc_op_ur p w)"
    using assms by (simp_all add: AIOOperation_write_ur_def)
  then show ?thesis using discarded_fresh by simp
next
  case (Some a)
  then obtain pb fd off where a: "parsed = Some (pb, fd, off)" by (metis prod_cases3)
  define x where "x = zero_op_ur\<lparr>uo_fileno := fd, uo_offset := (case off of None \<Rightarrow> uo_offset zero_op_ur | Some o' \<Rightarrow> o')\<rparr>"
  define v where "v = upd_op_ur p (\<lambda>x. x\<lparr>uo_fileno := fd, uo_offset := (case off of None \<Rightarrow> uo_offset x | Some o' \<Rightarrow> o')\<rparr>) (alloc_op_ur p w)"
  have v: "ur_ops v = (ur_ops w)(p \<mapsto> x)" "ur_ctxs v = ur_ctxs w" "refs v = (refs w)(p := 1)" "bytes_at v = bytes_at w" "mem v = mem w"
    by (simp_all add: v_def x_def)
  have x: "uo_context x = NULL" "uo_callback x = NULL" "uo_py_buffer x = NULL" "uo_in_progress x = 0" "uo_done x = 0"
    by (simp_all add: x_def zero_op_ur_def)
  have gone: "discarded p w (decref_op_ur p v)"
    using discarded_decref [where x = x and v = w and w = v and p = p] v x by simp
  show ?thesis
  proof (cases "bytes_at w pb = NULL \<or> \<not> as_string")
    case True
    then have "\<exists>e. r = Raise e" "w' = decref_op_ur p v"
      using assms by (auto simp: AIOOperation_write_ur_def a v_def [symmetric] v(4) split: if_splits)
    then show ?thesis using gone by simp
  next
    case False
    then have "pb \<noteq> p" using assms(3) by auto
    let ?b = "bytes_at w pb"
    let ?x = "x\<lparr>uo_buf := ?b, uo_buf_size := of_nat (length (the (mem w ?b))), uo_py_buffer := pb, uo_opcode := URING_WRITE\<rparr>"
    have "r = Ret (PyObj p)" "ur_ops w' = (ur_ops w)(p \<mapsto> ?x)" "ur_ctxs w' = ur_ctxs w"
      "refs w' = ((refs w)(p := 1))(pb := ((refs w)(p := 1)) pb + 1)" "bytes_at w' = bytes_at w" "mem w' = mem w"
      using assms False by (auto simp: AIOOperation_write_ur_def a v_def [symmetric] v rt_simps Let_def)
    moreover have "fresh_op ?x" using x by (simp add: fresh_op_def)
    ultimately show ?thesis using False \<open>pb \<noteq> p\<close>
      by (intro disjI2 conjI exI [of _ ?x] exI [of _ pb]) (simp_all add: constructed_def a)
  qed
qed

lemma sync_effect:
  assumes "AIOOperation_sync_ur code p parsed w = (r, w')" and "p \<noteq> NULL" and "code \<in> {URING_FSYNC, URING_FDSYNC}"
  shows "(\<exists>e. r = Raise e) \<and> discarded p w w' \<or>
    r = Ret (PyObj p) \<and> (\<exists>x. constructed p x w w' \<and> uo_py_buffer x = NULL \<and> uo_opcode x = code \<and>
       uo_buf x = NULL \<and> uo_buf_size x = 0 \<and> refs w' = (refs w)(p := 1) \<and> bytes_at w' = bytes_at w \<and> mem w' = mem w)"
proof (cases parsed)
  case None
  then have "r = Raise PyErr_Pending" "w' = decref_op_ur p (alloc_op_ur p w)"
    using assms by (simp_all add: AIOOperation_sync_ur_def)
  then show ?thesis using discarded_fresh by simp
next
  case (Some fd)
  let ?x = "zero_op_ur\<lparr>uo_fileno := fd, uo_opcode := code\<rparr>"
  have "r = Ret (PyObj p)" "ur_ops w' = (ur_ops w)(p \<mapsto> ?x)" "ur_ctxs w' = ur_ctxs w" "refs w' = (refs w)(p := 1)"
    "bytes_at w' = bytes_at w" "mem w' = mem w"
    using assms Some by (auto simp: AIOOperation_sync_ur_def)
  then show ?thesis
    using assms(3) by (intro disjI2 conjI exI [of _ ?x]) (auto simp: constructed_def fresh_op_def zero_op_ur_def)
qed

text \<open>Setting a callback trades the reference on the old one for one on the new one.\<close>

lemma set_callback_effect:
  assumes "AIOOperation_set_callback_ur p cb callable w = (r, w')" and "ur_ops w p = Some x"
  shows "ur_ctxs w' = ur_ctxs w \<and> bytes_at w' = bytes_at w \<and>
    (if callable then ur_ops w' = (ur_ops w)(p \<mapsto> x\<lparr>uo_callback := cb\<rparr>) \<and>
       (\<forall>q. refs w' q = refs w q + (if q = cb then 1 else 0) - (if q = uo_callback x \<and> q \<noteq> NULL then 1 else 0))
     else w' = w)"
  using assms by (auto simp: AIOOperation_set_callback_ur_def op_ur_def py_xdecref_frame rt_simps Let_def)

end
