(* ===== verification/Uring_System.thy ===== *)
theory Uring_System
  imports Uring_Objects
begin

text \<open>
  The io_uring backend as a system: one Context at address \<open>self\<close>, Operations at the addresses
  \<open>A\<close>, the program that creates them, submits, cancels, drains and drops references in any
  order, and the kernel that takes entries and posts completions at any time. A drain is
  split at its callbacks, so that whatever a callback does (creating, submitting, draining
  again, dropping its own Operation or the Context) is an ordinary sequence of steps.

  \<open>us_kernel\<close> holds the entries the kernel has taken and not completed, \<open>us_user\<close> the
  references of the program, \<open>us_batch\<close> the operations completed by drains that have not
  released them yet, innermost drain first, each with its result and whether its callback
  was called. The last three fields record history: what was accepted by \<^verbatim>\<open>submit\<close>, what was
  completed by a drain, whose callback was called.
\<close>

record ur_sys =
  us_w :: ur_world
  us_kernel :: "io_uring_sqe list"
  us_user :: "ptr \<Rightarrow> nat"
  us_batch :: "((ptr \<times> u32) \<times> bool) list"
  us_accepted :: "ptr list"
  us_completed :: "ptr list"
  us_called :: "ptr list"

section \<open>Steps\<close>

text \<open>The operations whose entries are in a list of submissions or completions.\<close>

definition requested :: "io_uring_sqe list \<Rightarrow> ptr list" where
  "requested ss = filter (\<lambda>p. p \<noteq> CANCEL_USER_DATA) (map sqe_user_data ss)"

definition posted :: "io_uring_cqe list \<Rightarrow> ptr list" where
  "posted es = filter (\<lambda>p. p \<noteq> CANCEL_USER_DATA) (map cqe_user_data es)"

definition sq_of :: "ptr \<Rightarrow> ur_world \<Rightarrow> io_uring_sqe list" where
  "sq_of self w = (case ur_ctxs w self of None \<Rightarrow> [] | Some c \<Rightarrow> sq_list c)"

definition cq_of :: "ptr \<Rightarrow> ur_world \<Rightarrow> io_uring_cqe list" where
  "cq_of self w = (case ur_ctxs w self of None \<Rightarrow> [] | Some c \<Rightarrow> cq_list c)"

text \<open>The kernel writes what it read into the buffer of the request.\<close>

definition kernel_writes :: "io_uring_sqe \<Rightarrow> u8 list \<Rightarrow> ur_world \<Rightarrow> ur_world" where
  "kernel_writes sqe data w =
     (if sqe_opcode sqe = IORING_OP_READ then store_bytes (sqe_addr sqe) (take (unat (sqe_len sqe)) data) w else w)"

text \<open>
  How often the Operations at \<open>A\<close> refer to a foreign object, and what the rest of the
  program may do meanwhile: anything that does not take these references away, since bytes
  objects do not change.
\<close>

definition holds :: "AIOOperation_ur option \<Rightarrow> ptr \<Rightarrow> nat" where
  "holds v q = (case v of None \<Rightarrow> 0 | Some x \<Rightarrow> of_bool (q = uo_callback x) + of_bool (q = uo_py_buffer x))"

definition held :: "ptr set \<Rightarrow> ur_world \<Rightarrow> ptr \<Rightarrow> nat" where
  "held A w q = (\<Sum>p\<in>A. holds (ur_ops w p) q)"

definition program_step :: "ptr \<Rightarrow> ptr set \<Rightarrow> ur_world \<Rightarrow> ur_world \<Rightarrow> bool" where
  "program_step self A w w' \<longleftrightarrow> ur_ops w' = ur_ops w \<and> ur_ctxs w' = ur_ctxs w \<and> runtime_ok w' \<and>
     (\<forall>q\<in>insert self A. refs w' q = refs w q \<and> bytes_at w' q = bytes_at w q) \<and>
     (\<forall>q. q \<noteq> NULL \<longrightarrow> int (held A w q) \<le> refs w' q \<and>
       (0 < held A w q \<longrightarrow> bytes_at w' q = bytes_at w q \<and> storage w' q = storage w q))"

text \<open>What \<^verbatim>\<open>PyBytes_FromStringAndSize(NULL, n)\<close> returns: null, or a new object with storage of its own.\<close>

definition new_bytes :: "ptr \<Rightarrow> ptr set \<Rightarrow> ur_world \<Rightarrow> nat \<Rightarrow> ptr \<times> ptr \<times> u8 list \<Rightarrow> bool" where
  "new_bytes self A w n = (\<lambda>(obj, block, garbage). obj \<noteq> NULL \<longrightarrow> obj \<notin> insert self A \<and> refs w obj = 0 \<and>
     block \<noteq> NULL \<and> mem w block = None \<and> length garbage = n \<and> n < 2 ^ 63)"

abbreviation given :: "pyval outcome \<Rightarrow> ptr \<Rightarrow> (ptr \<Rightarrow> nat) \<Rightarrow> ptr \<Rightarrow> nat" where
  "given r p user \<equiv> (if r = Ret (PyObj p) then user(p := 1) else user)"

inductive ur_step :: "ptr \<Rightarrow> ptr set \<Rightarrow> ur_sys \<Rightarrow> ur_sys \<Rightarrow> bool" for self :: ptr and A :: "ptr set" where
  new_read: "p \<in> A \<Longrightarrow> ur_ops (us_w s) p = None \<Longrightarrow> (\<And>n fd off. parsed = Some (n, fd, off) \<Longrightarrow> new_bytes self A (us_w s) (unat n) bytes) \<Longrightarrow>
    AIOOperation_read_ur p parsed bytes (us_w s) = (r, w') \<Longrightarrow>
    ur_step self A s (s\<lparr>us_w := w', us_user := given r p (us_user s)\<rparr>)"
| new_write: "p \<in> A \<Longrightarrow> ur_ops (us_w s) p = None \<Longrightarrow> (\<And>obj fd off. parsed = Some (obj, fd, off) \<Longrightarrow> obj \<noteq> NULL \<and> 0 < refs (us_w s) obj) \<Longrightarrow>
    AIOOperation_write_ur p parsed as_string (us_w s) = (r, w') \<Longrightarrow>
    ur_step self A s (s\<lparr>us_w := w', us_user := given r p (us_user s)\<rparr>)"
| new_sync: "p \<in> A \<Longrightarrow> ur_ops (us_w s) p = None \<Longrightarrow> code \<in> {URING_FSYNC, URING_FDSYNC} \<Longrightarrow>
    AIOOperation_sync_ur code p parsed_fd (us_w s) = (r, w') \<Longrightarrow>
    ur_step self A s (s\<lparr>us_w := w', us_user := given r p (us_user s)\<rparr>)"
| set_callback: "ur_ops (us_w s) p \<noteq> None \<Longrightarrow> (callable \<Longrightarrow> cb \<notin> insert self A \<and> 0 < refs (us_w s) cb) \<Longrightarrow>
    AIOOperation_set_callback_ur p cb callable (us_w s) = (r, w') \<Longrightarrow> ur_step self A s (s\<lparr>us_w := w'\<rparr>)"
| submit: "0 < us_user s self \<Longrightarrow> AIOContext_submit_ur self args (us_w s) = (r, w') \<Longrightarrow>
    ur_step self A s (s\<lparr>us_w := w',
      us_accepted := us_accepted s @ requested (drop (length (sq_of self (us_w s))) (sq_of self w'))\<rparr>)"
| cancel: "0 < us_user s self \<Longrightarrow> (\<And>v. snd (snd (ue_enter env 0 1 0 v)) = v) \<Longrightarrow>
    AIOContext_cancel_ur env self target (us_w s) = (r, w') \<Longrightarrow> ur_step self A s (s\<lparr>us_w := w'\<rparr>)"
| kernel_take: "ur_ctxs (us_w s) self = Some c \<Longrightarrow> consume_sqe c = Some (sqe, c') \<Longrightarrow>
    ur_step self A s (s\<lparr>us_w := (us_w s)\<lparr>ur_ctxs := (ur_ctxs (us_w s))(self \<mapsto> c')\<rparr>, us_kernel := us_kernel s @ [sqe]\<rparr>)"
| kernel_post: "us_kernel s = ks @ sqe # ls \<Longrightarrow> ur_ctxs (us_w s) self = Some c \<Longrightarrow>
    post_cqe \<lparr>cqe_user_data = sqe_user_data sqe, cqe_res = res\<rparr> c = Some c' \<Longrightarrow>
    ur_step self A s (s\<lparr>us_w := (kernel_writes sqe data (us_w s))\<lparr>ur_ctxs := (ur_ctxs (us_w s))(self \<mapsto> c')\<rparr>,
      us_kernel := ks @ ls\<rparr>)"
| scan: "0 < us_user s self \<Longrightarrow> uc_cq (ctx_ur (us_w s) self) = Some q \<Longrightarrow>
    scan_cq q (cq_head q) (cq_tail q) limit 0 [] (us_w s) = Some (head, batch, w') \<Longrightarrow>
    ur_step self A s (s\<lparr>us_w := upd_ctx_ur self (\<lambda>c. c\<lparr>uc_cq := map_option (\<lambda>q. q\<lparr>cq_head := head\<rparr>) (uc_cq c)\<rparr>) w',
      us_batch := map (\<lambda>e. (e, False)) batch @ us_batch s, us_completed := us_completed s @ map fst batch\<rparr>)"
| call: "us_batch s = ((p, res), False) # rest \<Longrightarrow>
    ur_step self A s (s\<lparr>us_w := run_callback (\<lambda>cb v w. (verdict cb v, w)) (uo_callback (op_ur (us_w s) p)) (PyLong (sint res)) (us_w s),
      us_batch := ((p, res), True) # rest, us_called := us_called s @ [p]\<rparr>)"
| release: "us_batch s = ((p, res), True) # rest \<Longrightarrow>
    ur_step self A s (s\<lparr>us_w := decref_op_ur p (us_w s), us_batch := rest\<rparr>)"
| drop: "p \<in> A \<Longrightarrow> 0 < us_user s p \<Longrightarrow>
    ur_step self A s (s\<lparr>us_w := decref_op_ur p (us_w s), us_user := (us_user s)(p := us_user s p - 1)\<rparr>)"
| drop_context: "0 < us_user s self \<Longrightarrow>
    ur_step self A s (s\<lparr>us_w := decref_ctx_ur self (us_w s), us_user := (us_user s)(self := us_user s self - 1)\<rparr>)"
| share: "p \<in> insert self A \<Longrightarrow> 0 < us_user s p \<Longrightarrow>
    ur_step self A s (s\<lparr>us_w := Py_INCREF p (us_w s), us_user := (us_user s)(p := us_user s p + 1)\<rparr>)"
| program: "program_step self A (us_w s) w' \<Longrightarrow> ur_step self A s (s\<lparr>us_w := w'\<rparr>)"

section \<open>The accounts and the data of a state\<close>

definition phase_ur :: "AIOOperation_ur \<Rightarrow> phase" where
  "phase_ur x = (if uo_in_progress x = 0 then Fresh else if uo_done x = 0 then Flight else Done)"

text \<open>Where an operation in flight can be: in the ring, with the kernel, in the completion ring.\<close>

definition places :: "ptr \<Rightarrow> ur_sys \<Rightarrow> ptr list" where
  "places self s = requested (sq_of self (us_w s)) @ requested (us_kernel s) @ posted (cq_of self (us_w s))"

definition own_ur :: "ptr \<Rightarrow> ptr set \<Rightarrow> ur_sys \<Rightarrow> ptr own" where
  "own_ur self A s = \<lparr>ow_phase = (\<lambda>p. map_option phase_ur (ur_ops (us_w s) p)),
     ow_refs = (\<lambda>p. if p \<in> insert self A then refs (us_w s) p else 0), ow_user = us_user s,
     ow_flight = mset (places self s), ow_batch = mset (map (fst \<circ> fst) (us_batch s))\<rparr>"

text \<open>The three states of an Operation; its callback and its buffer are foreign objects.\<close>

definition op_form :: "ptr \<Rightarrow> ptr set \<Rightarrow> AIOOperation_ur \<Rightarrow> bool" where
  "op_form self A x \<longleftrightarrow> uo_opcode x \<in> {URING_READ, URING_WRITE, URING_FSYNC, URING_FDSYNC} \<and>
     (uo_in_progress x, uo_context x, uo_done x) \<in> {(0, NULL, 0), (1, self, 0), (1, NULL, 1)} \<and>
     uo_callback x \<notin> insert self A \<and> uo_py_buffer x \<notin> insert self A"

definition ctx_form :: "AIOContext_ur \<Rightarrow> bool" where
  "ctx_form c \<longleftrightarrow> uc_uring_fd c \<ge> 0 \<and> sq_wf c \<and> cq_wf c"

text \<open>\<open>self\<close> and \<open>A\<close> are different addresses of objects, none of them null or the marker of a cancellation.\<close>

definition layout :: "ptr \<Rightarrow> ptr set \<Rightarrow> bool" where
  "layout self A \<longleftrightarrow> finite A \<and> self \<notin> A \<and> self \<noteq> NULL \<and> NULL \<notin> A \<and> CANCEL_USER_DATA \<notin> A"

definition history_ok :: "ptr \<Rightarrow> ur_sys \<Rightarrow> bool" where
  "history_ok self s \<longleftrightarrow> mset (us_accepted s) = mset (us_completed s) + mset (places self s) \<and>
     mset (us_completed s) = mset (us_called s) + mset (map (fst \<circ> fst) (filter (\<lambda>e. \<not> snd e) (us_batch s)))"

definition data_ur :: "ptr \<Rightarrow> ptr set \<Rightarrow> ur_sys \<Rightarrow> bool" where
  "data_ur self A s \<longleftrightarrow> layout self A \<and> (\<forall>p x. ur_ops (us_w s) p = Some x \<longrightarrow> op_form self A x) \<and>
     (case ur_ctxs (us_w s) self of None \<Rightarrow> refs (us_w s) self = 0 | Some c \<Rightarrow> 0 < refs (us_w s) self \<and> ctx_form c) \<and>
     (\<forall>q\<in>insert self A. bytes_at (us_w s) q = NULL) \<and> history_ok self s"

section \<open>How a system starts\<close>

text \<open>
  The state after \<^verbatim>\<open>Context.__init__\<close> succeeded, before any Operation: the rings are as the
  kernel sets them up, empty, with a power of two entries.
\<close>

definition rings_new :: "init_env_ur \<Rightarrow> bool" where
  "rings_new ie \<longleftrightarrow> sq_tail (ie_sq ie) = sq_head (ie_sq ie) \<and> cq_tail (ie_cq ie) = cq_head (ie_cq ie) \<and>
     (\<exists>k < 32. sq_ring_mask (ie_sq ie) = mask k \<and> sq_ring_entries (ie_sq ie) = 2 ^ k) \<and>
     (\<exists>k < 32. cq_ring_mask (ie_cq ie) = mask k)"

inductive ur_start :: "ptr \<Rightarrow> ptr set \<Rightarrow> ur_sys \<Rightarrow> bool" for self :: ptr and A :: "ptr set" where
  "layout self A \<Longrightarrow> rings_new ie \<Longrightarrow> AIOContext_init_ur ie parsed new_ctx_ur = (Ret (), c) \<Longrightarrow>
   0 < n \<Longrightarrow> (\<And>q. 0 \<le> refs w q) \<Longrightarrow> (\<And>p. p \<in> A \<Longrightarrow> refs w p = 0) \<Longrightarrow> (\<And>q. q \<in> insert self A \<Longrightarrow> bytes_at w q = NULL) \<Longrightarrow> runtime_ok w \<Longrightarrow>
   ur_start self A \<lparr>us_w = w\<lparr>refs := (refs w)(self := int n), ur_ops := Map.empty, ur_ctxs := [self \<mapsto> c]\<rparr>,
     us_kernel = [], us_user = (\<lambda>_. 0)(self := n), us_batch = [], us_accepted = [], us_completed = [], us_called = []\<rparr>"

text \<open>The states a program can reach.\<close>

definition ur_reaches :: "ptr \<Rightarrow> ptr set \<Rightarrow> ur_sys \<Rightarrow> bool" where
  "ur_reaches self A s \<longleftrightarrow> (\<exists>s0. ur_start self A s0 \<and> (ur_step self A)\<^sup>*\<^sup>* s0 s)"

end
