(* ===== verification/Uring_Steps.thy ===== *)
theory Uring_Steps
  imports Uring_System
begin

text \<open>
  Every step of the io_uring system is a run of the ownership protocol and keeps what holds
  of the data: one lemma for each kind of step, and the interpretation of \<open>backend\<close>.
\<close>

section \<open>What holds of a state\<close>

lemma ur_opD:
  assumes data: "data_ur self A s" and inv: "own_inv self A (own_ur self A s)" and x: "ur_ops (us_w s) p = Some x"
  shows "p \<in> A" "p \<noteq> self" "p \<noteq> NULL" "p \<noteq> CANCEL_USER_DATA" "op_form self A x" "0 < refs (us_w s) p"
    "p \<in> set (places self s) \<longleftrightarrow> phase_ur x = Flight" "bytes_at (us_w s) p = NULL"
proof -
  have c: "counted (p \<in> A) (Some (phase_ur x)) (if p \<in> insert self A then refs (us_w s) p else 0) (us_user s p)
      (count (mset (places self s)) p) (count (mset (map (fst \<circ> fst) (us_batch s))) p)"
    using own_invD(3) [OF inv, of p] x by (simp add: own_ur_def)
  then show A: "p \<in> A" by (simp add: counted_def)
  then show "p \<noteq> self" "p \<noteq> NULL" "p \<noteq> CANCEL_USER_DATA" "op_form self A x" "bytes_at (us_w s) p = NULL"
    using data x by (auto simp: data_ur_def layout_def)
  show "0 < refs (us_w s) p" using c A by (auto simp: counted_def)
  have "count (mset (places self s)) p = (if phase_ur x = Flight then 1 else 0)" using c by (auto simp: counted_def)
  then show "p \<in> set (places self s) \<longleftrightarrow> phase_ur x = Flight"
    by (metis count_eq_zero_iff set_mset_mset zero_neq_one)
qed

lemma ur_absent:
  assumes inv: "own_inv self A (own_ur self A s)" and "p \<in> A" "ur_ops (us_w s) p = None"
  shows "refs (us_w s) p = 0"
  using own_invD(3) [OF inv, of p] assms(2,3) by (simp add: own_ur_def counted_def)

lemma ur_ctxD:
  assumes data: "data_ur self A s" and inv: "own_inv self A (own_ur self A s)" and user: "0 < us_user s self"
  obtains c where "ur_ctxs (us_w s) self = Some c" "ctx_form c" "ctx_ur (us_w s) self = c"
    "refs (us_w s) self = int (us_user s self) + int (length (places self s))"
proof -
  have "refs (us_w s) self = int (us_user s self) + int (length (places self s))"
    using own_invD(2) [OF inv] by (simp add: own_ur_def)
  with data user that show thesis by (auto simp: data_ur_def ctx_ur_def split: option.splits)
qed

lemma own_ur_sel:
  "ow_user (own_ur self A s) = us_user s" "ow_batch (own_ur self A s) = mset (map (fst \<circ> fst) (us_batch s))"
  "ow_flight (own_ur self A s) = mset (places self s)"
  by (simp_all add: own_ur_def)

text \<open>Steps that touch neither Operations nor the Context, nor references on them.\<close>

lemma quiet:
  assumes "ur_ops w' = ur_ops (us_w s)" "ur_ctxs w' = ur_ctxs (us_w s)"
    "\<forall>q\<in>insert self A. refs w' q = refs (us_w s) q \<and> bytes_at w' q = bytes_at (us_w s) q"
  shows "places self (s\<lparr>us_w := w'\<rparr>) = places self s" "own_ur self A (s\<lparr>us_w := w'\<rparr>) = own_ur self A s"
    "data_ur self A (s\<lparr>us_w := w'\<rparr>) = data_ur self A s"
proof -
  show pl: "places self (s\<lparr>us_w := w'\<rparr>) = places self s" using assms(2) by (simp add: places_def sq_of_def cq_of_def)
  show "own_ur self A (s\<lparr>us_w := w'\<rparr>) = own_ur self A s" using assms(1,3) by (auto simp: own_ur_def pl fun_eq_iff)
  show "data_ur self A (s\<lparr>us_w := w'\<rparr>) = data_ur self A s"
    using assms by (simp add: data_ur_def history_ok_def pl split: option.split)
qed

subsection \<open>Constructors\<close>

lemma fresh_op_form:
  "layout self A \<Longrightarrow> fresh_op x \<Longrightarrow> uo_py_buffer x \<notin> insert self A \<Longrightarrow> op_form self A x \<and> phase_ur x = Fresh"
  by (auto simp: fresh_op_def op_form_def phase_ur_def layout_def)

lemma discarded_refines:
  assumes data: "data_ur self A s" and inv: "own_inv self A (own_ur self A s)"
    and "p \<in> A" "ur_ops (us_w s) p = None" "discarded p (us_w s) w'"
  shows "data_ur self A (s\<lparr>us_w := w'\<rparr>) \<and> own_ur self A (s\<lparr>us_w := w'\<rparr>) = own_ur self A s"
proof -
  have "(ur_ops (us_w s))(p := None) = ur_ops (us_w s)" using assms(4) by (simp add: fun_upd_idem)
  moreover have "(refs (us_w s))(p := 0) = refs (us_w s)" using ur_absent [OF inv assms(3,4)] by (simp add: fun_upd_idem)
  ultimately have "ur_ops w' = ur_ops (us_w s)" "ur_ctxs w' = ur_ctxs (us_w s)"
    "\<forall>q\<in>insert self A. refs w' q = refs (us_w s) q \<and> bytes_at w' q = bytes_at (us_w s) q"
    using assms(5) by (simp_all add: discarded_def)
  note q = quiet [OF this]
  show ?thesis using q(2,3) data by simp
qed

lemma constructed_refines:
  assumes data: "data_ur self A s" and inv: "own_inv self A (own_ur self A s)"
    and p: "p \<in> A" "ur_ops (us_w s) p = None" and new: "constructed p x (us_w s) w'" and pb: "uo_py_buffer x \<notin> insert self A"
    and frame: "\<forall>q\<in>insert self A. bytes_at w' q = NULL \<and> (q \<noteq> p \<longrightarrow> refs w' q = refs (us_w s) q)"
  defines "s' \<equiv> s\<lparr>us_w := w', us_user := (us_user s)(p := 1)\<rparr>"
  shows "data_ur self A s' \<and> (own_step self A)\<^sup>*\<^sup>* (own_ur self A s) (own_ur self A s')"
proof -
  have lay: "layout self A" using data by (simp add: data_ur_def)
  then have ne: "p \<noteq> self" using p(1) by (auto simp: layout_def)
  have w': "ur_ops w' = (ur_ops (us_w s))(p \<mapsto> x)" "ur_ctxs w' = ur_ctxs (us_w s)" "refs w' p = 1"
    using new by (simp_all add: constructed_def)
  have x: "op_form self A x" "phase_ur x = Fresh"
    using fresh_op_form [OF lay _ pb] new by (simp_all add: constructed_def)
  have pl: "places self s' = places self s" by (simp add: s'_def places_def sq_of_def cq_of_def w')
  have self: "refs w' self = refs (us_w s) self" using frame ne by simp
  have "data_ur self A s'"
    using data frame x(1) by (auto simp: data_ur_def history_ok_def pl self) (auto simp: s'_def w' self split: option.splits if_splits)
  moreover have "own_ur self A s' = (own_ur self A s)\<lparr>ow_phase := (ow_phase (own_ur self A s))(p \<mapsto> Fresh),
      ow_refs := (ow_refs (own_ur self A s))(p := 1), ow_user := (ow_user (own_ur self A s))(p := 1)\<rparr>"
    using frame p(1) x(2) w'(3) ne
    by (intro own.equality; simp add: own_ur_def pl) (auto simp: s'_def w' fun_eq_iff)
  moreover have "ow_phase (own_ur self A s) p = None" using p(2) by (simp add: own_ur_def)
  ultimately show ?thesis using own_step.create [OF p(1), of "own_ur self A s" self] by auto
qed

lemma constructor_refines:
  assumes data: "data_ur self A s" and inv: "own_inv self A (own_ur self A s)"
    and p: "p \<in> A" "ur_ops (us_w s) p = None"
    and result: "(\<exists>e. r = Raise e) \<and> discarded p (us_w s) w' \<or> r = Ret (PyObj p) \<and>
      (\<exists>x. constructed p x (us_w s) w' \<and> uo_py_buffer x \<notin> insert self A \<and>
         (\<forall>q\<in>insert self A. bytes_at w' q = bytes_at (us_w s) q \<and> (q \<noteq> p \<longrightarrow> refs w' q = refs (us_w s) q)))"
  defines "s' \<equiv> s\<lparr>us_w := w', us_user := given r p (us_user s)\<rparr>"
  shows "data_ur self A s' \<and> (own_step self A)\<^sup>*\<^sup>* (own_ur self A s) (own_ur self A s')"
  using result
proof (elim disjE conjE exE)
  fix e assume "r = Raise e" "discarded p (us_w s) w'"
  then show ?thesis using discarded_refines [OF data inv p] by (simp add: s'_def)
next
  fix x
  assume r: "r = Ret (PyObj p)" and c: "constructed p x (us_w s) w'" "uo_py_buffer x \<notin> insert self A"
    and frame: "\<forall>q\<in>insert self A. bytes_at w' q = bytes_at (us_w s) q \<and> (q \<noteq> p \<longrightarrow> refs w' q = refs (us_w s) q)"
  have "\<forall>q\<in>insert self A. bytes_at w' q = NULL \<and> (q \<noteq> p \<longrightarrow> refs w' q = refs (us_w s) q)"
    using frame data by (simp add: data_ur_def)
  from constructed_refines [OF data inv p c this] show ?thesis by (simp add: s'_def r)
qed

lemma addresses:
  assumes "data_ur self A s" "p \<in> A"
  shows "p \<noteq> NULL" "bytes_at (us_w s) p = NULL" "NULL \<notin> insert self A" "\<forall>q\<in>insert self A. bytes_at (us_w s) q = NULL"
  using assms by (auto simp: data_ur_def layout_def)

lemma read_refines:
  assumes data: "data_ur self A s" and inv: "own_inv self A (own_ur self A s)"
    and p: "p \<in> A" "ur_ops (us_w s) p = None" and new: "\<And>n fd off. parsed = Some (n, fd, off) \<Longrightarrow> new_bytes self A (us_w s) (unat n) bytes"
    and run: "AIOOperation_read_ur p parsed bytes (us_w s) = (r, w')"
  defines "s' \<equiv> s\<lparr>us_w := w', us_user := given r p (us_user s)\<rparr>"
  shows "data_ur self A s' \<and> (own_step self A)\<^sup>*\<^sup>* (own_ur self A s) (own_ur self A s')"
proof -
  obtain obj block garbage where b: "bytes = (obj, block, garbage)" by (cases bytes)
  note a = addresses [OF data p(1)]
  have obj: "parsed \<noteq> None \<longrightarrow> obj \<noteq> NULL \<longrightarrow> obj \<notin> insert self A" using new by (fastforce simp: new_bytes_def b)
  then have "parsed \<noteq> None \<longrightarrow> obj \<noteq> p" using a(1) p(1) by auto
  from read_effect [OF run [unfolded b] a(1) this] show ?thesis
    unfolding s'_def by (intro constructor_refines [OF data inv p]) (use obj in fastforce)
qed

lemma write_refines:
  assumes data: "data_ur self A s" and inv: "own_inv self A (own_ur self A s)"
    and p: "p \<in> A" "ur_ops (us_w s) p = None"
    and run: "AIOOperation_write_ur p parsed as_string (us_w s) = (r, w')"
  defines "s' \<equiv> s\<lparr>us_w := w', us_user := given r p (us_user s)\<rparr>"
  shows "data_ur self A s' \<and> (own_step self A)\<^sup>*\<^sup>* (own_ur self A s) (own_ur self A s')"
proof -
  note a = addresses [OF data p(1)]
  have pb: "bytes_at (us_w s) pb \<noteq> NULL \<Longrightarrow> pb \<notin> insert self A" for pb using a(4) by auto
  from write_effect [OF run a(1,2)] show ?thesis
    unfolding s'_def by (intro constructor_refines [OF data inv p]) (use pb in fastforce)
qed

lemma sync_refines:
  assumes data: "data_ur self A s" and inv: "own_inv self A (own_ur self A s)"
    and p: "p \<in> A" "ur_ops (us_w s) p = None" and code: "code \<in> {URING_FSYNC, URING_FDSYNC}"
    and run: "AIOOperation_sync_ur code p parsed (us_w s) = (r, w')"
  defines "s' \<equiv> s\<lparr>us_w := w', us_user := given r p (us_user s)\<rparr>"
  shows "data_ur self A s' \<and> (own_step self A)\<^sup>*\<^sup>* (own_ur self A s) (own_ur self A s')"
proof -
  note a = addresses [OF data p(1)]
  from sync_effect [OF run a(1) code] show ?thesis
    unfolding s'_def by (intro constructor_refines [OF data inv p]) (use a(3) in fastforce)
qed

lemma set_callback_refines:
  assumes data: "data_ur self A s" and inv: "own_inv self A (own_ur self A s)"
    and x: "ur_ops (us_w s) p \<noteq> None" and cb: "callable \<Longrightarrow> cb \<notin> insert self A"
    and run: "AIOOperation_set_callback_ur p cb callable (us_w s) = (r, w')"
  shows "data_ur self A (s\<lparr>us_w := w'\<rparr>) \<and> own_ur self A (s\<lparr>us_w := w'\<rparr>) = own_ur self A s"
proof (cases callable)
  case False
  then show ?thesis using set_callback_effect [OF run] x data by auto
next
  case True
  from x obtain x where x: "ur_ops (us_w s) p = Some x" by auto
  note p = ur_opD [OF data inv x]
  have w': "ur_ctxs w' = ur_ctxs (us_w s)" "bytes_at w' = bytes_at (us_w s)"
    "ur_ops w' = (ur_ops (us_w s))(p \<mapsto> x\<lparr>uo_callback := cb\<rparr>)"
    "\<And>q. refs w' q = refs (us_w s) q + (if q = cb then 1 else 0) - (if q = uo_callback x \<and> q \<noteq> NULL then 1 else 0)"
    using set_callback_effect [OF run x] True by simp_all
  have cbs: "cb \<notin> insert self A" "uo_callback x \<notin> insert self A" using cb [OF True] p(5) by (simp_all add: op_form_def)
  then have rf: "\<forall>q\<in>insert self A. refs w' q = refs (us_w s) q" by (auto simp: w'(4))
  have form: "op_form self A (x\<lparr>uo_callback := cb\<rparr>)" "phase_ur (x\<lparr>uo_callback := cb\<rparr>) = phase_ur x"
    using p(5) cbs by (simp_all add: op_form_def phase_ur_def)
  have pl: "places self (s\<lparr>us_w := w'\<rparr>) = places self s" by (simp add: places_def sq_of_def cq_of_def w'(1))
  have "own_ur self A (s\<lparr>us_w := w'\<rparr>) = own_ur self A s"
    using rf x form(2) by (auto simp: own_ur_def pl w'(3) fun_eq_iff)
  moreover have "data_ur self A (s\<lparr>us_w := w'\<rparr>)"
    using data form(1) rf by (auto simp: data_ur_def history_ok_def pl w'(1-3) split: option.splits if_splits)
  ultimately show ?thesis by simp
qed

subsection \<open>The rings\<close>

lemma requested_simps [simp]:
  "requested [] = []" "requested (ss @ ts) = requested ss @ requested ts"
  "requested (x # ss) = (if sqe_user_data x = CANCEL_USER_DATA then [] else [sqe_user_data x]) @ requested ss"
  by (simp_all add: requested_def)

lemma posted_simps [simp]:
  "posted [] = []" "posted (es @ fs) = posted es @ posted fs"
  "posted (e # es) = (if cqe_user_data e = CANCEL_USER_DATA then [] else [cqe_user_data e]) @ posted es"
  by (simp_all add: posted_def)

lemma sqe_user_data_simps [simp]: "sqe_user_data (fst (fill_sqe p x)) = p" "sqe_user_data (cancel_sqe q) = CANCEL_USER_DATA"
  by (simp_all add: fill_sqe_def cancel_sqe_def Let_def)

lemma stage_frame:
  "stage_sqe e c = Some c' \<Longrightarrow> uc_cq c' = uc_cq c \<and> uc_uring_fd c' = uc_uring_fd c"
  by (auto simp: stage_sqe_def Let_def split: option.splits if_splits)

lemma consume_frame:
  "consume_sqe c = Some (e, c') \<Longrightarrow> uc_cq c' = uc_cq c \<and> uc_uring_fd c' = uc_uring_fd c"
  by (auto simp: consume_sqe_def split: option.splits if_splits)

lemma post_frame:
  "post_cqe e c = Some c' \<Longrightarrow> uc_sq c' = uc_sq c \<and> uc_sqes c' = uc_sqes c \<and> uc_no_sqarray c' = uc_no_sqarray c \<and>
     uc_uring_fd c' = uc_uring_fd c"
  by (auto simp: post_cqe_def split: option.splits if_splits)

lemma cq_cong: "uc_cq c' = uc_cq c \<Longrightarrow> cq_list c' = cq_list c \<and> cq_wf c' = cq_wf c"
  by (simp add: cq_list_def cq_wf_def)

lemma sq_cong:
  assumes "uc_sq c' = uc_sq c" "uc_sqes c' = uc_sqes c" "uc_no_sqarray c' = uc_no_sqarray c"
  shows "sq_list c' = sq_list c \<and> sq_wf c' = sq_wf c"
proof -
  have "sqe_at c' = sqe_at c" by (simp add: sqe_at_def assms fun_eq_iff cong: if_cong option.case_cong)
  then show ?thesis by (simp add: sq_list_def sq_wf_def assms cong: option.case_cong)
qed

text \<open>Replacing the rings of the Context.\<close>

abbreviation with_ctx :: "ptr \<Rightarrow> AIOContext_ur \<Rightarrow> ur_world \<Rightarrow> ur_world" where
  "with_ctx self c w \<equiv> w\<lparr>ur_ctxs := (ur_ctxs w)(self \<mapsto> c)\<rparr>"

lemma ring_of_ctx [simp]:
  "ur_ctxs w self = Some c \<Longrightarrow> sq_of self w = sq_list c" "ur_ctxs w self = Some c \<Longrightarrow> cq_of self w = cq_list c"
  by (simp_all add: sq_of_def cq_of_def)

lemma rings_refine:
  assumes data: "data_ur self A s" and c: "ur_ctxs (us_w s) self = Some c" and form: "ctx_form c'"
    and "ur_ops w' = ur_ops (us_w s)" "refs w' = refs (us_w s)" "bytes_at w' = bytes_at (us_w s)" "ur_ctxs w' = (ur_ctxs (us_w s))(self \<mapsto> c')"
    and pl: "mset (requested (sq_list c') @ requested ks @ posted (cq_list c')) = mset (places self s)"
  shows "data_ur self A (s\<lparr>us_w := w', us_kernel := ks\<rparr>) \<and> own_ur self A (s\<lparr>us_w := w', us_kernel := ks\<rparr>) = own_ur self A s"
proof -
  let ?s = "s\<lparr>us_w := w', us_kernel := ks\<rparr>"
  have pl': "mset (places self ?s) = mset (places self s)" using pl assms(7) by (simp add: places_def)
  then have "own_ur self A ?s = own_ur self A s" using assms(4,5) by (simp add: own_ur_def cong: if_cong)
  moreover have "data_ur self A ?s" using data c form assms(4-7) pl' by (simp add: data_ur_def history_ok_def)
  ultimately show ?thesis by simp
qed

lemma kernel_take_refines:
  assumes data: "data_ur self A s" and c: "ur_ctxs (us_w s) self = Some c" and take: "consume_sqe c = Some (e, c')"
  defines "s' \<equiv> s\<lparr>us_w := with_ctx self c' (us_w s), us_kernel := us_kernel s @ [e]\<rparr>"
  shows "data_ur self A s' \<and> own_ur self A s' = own_ur self A s"
proof -
  have form: "ctx_form c" using data c by (simp add: data_ur_def)
  note cq = consume_frame [OF take] and sq = sq.pop_delivered [OF _ take]
  have "ctx_form c'" using form cq sq cq_cong [of c' c] by (simp add: ctx_form_def)
  moreover have "mset (requested (sq_list c') @ requested (us_kernel s @ [e]) @ posted (cq_list c')) = mset (places self s)"
    using sq cq form cq_cong [of c' c] c by (simp add: places_def ctx_form_def)
  ultimately show ?thesis unfolding s'_def by (intro rings_refine [OF data c]) simp_all
qed

lemma kernel_writes_frame [simp]:
  "ur_ops (kernel_writes e d w) = ur_ops w" "ur_ctxs (kernel_writes e d w) = ur_ctxs w"
  "refs (kernel_writes e d w) = refs w" "bytes_at (kernel_writes e d w) = bytes_at w"
  by (simp_all add: kernel_writes_def store_bytes_def)

lemma kernel_post_refines:
  fixes d :: "u8 list"
  assumes data: "data_ur self A s" and kernel: "us_kernel s = ks @ e # ls" and c: "ur_ctxs (us_w s) self = Some c"
    and post: "post_cqe \<lparr>cqe_user_data = sqe_user_data e, cqe_res = res\<rparr> c = Some c'"
  defines "s' \<equiv> s\<lparr>us_w := with_ctx self c' (kernel_writes e d (us_w s)), us_kernel := ks @ ls\<rparr>"
  shows "data_ur self A s' \<and> own_ur self A s' = own_ur self A s"
proof -
  have form: "ctx_form c" using data c by (simp add: data_ur_def)
  note sq = post_frame [OF post] and cq = cq.push_accepted [OF _ post]
  have "ctx_form c'" using form cq sq sq_cong [of c' c] by (simp add: ctx_form_def)
  moreover have "mset (requested (sq_list c') @ requested (ks @ ls) @ posted (cq_list c')) = mset (places self s)"
    using sq cq form sq_cong [of c' c] c by (simp add: places_def ctx_form_def kernel)
  ultimately show ?thesis unfolding s'_def by (intro rings_refine [OF data c]) simp_all
qed

lemma cancel_refines:
  assumes data: "data_ur self A s" and inv: "own_inv self A (own_ur self A s)" and user: "0 < us_user s self"
    and env: "\<And>v. snd (snd (ue_enter env 0 1 0 v)) = v" and run: "AIOContext_cancel_ur env self target (us_w s) = (r, w')"
  shows "data_ur self A (s\<lparr>us_w := w'\<rparr>) \<and> own_ur self A (s\<lparr>us_w := w'\<rparr>) = own_ur self A s"
proof -
  obtain c where c: "ur_ctxs (us_w s) self = Some c" "ctx_form c" by (rule ur_ctxD [OF data inv user])
  then have wf: "sq_wf c" by (simp add: ctx_form_def)
  have "w' = us_w s \<or> (\<exists>p c'. stage_sqe (cancel_sqe p) c = Some c' \<and> w' = with_ctx self c' (us_w s))"
    using run env by (cases target) (auto simp: AIOContext_cancel_ur_def [of _ _ None] cancel_ur_stages [OF c(1) wf] split: option.splits)
  then show ?thesis
  proof (elim disjE exE conjE)
    assume "w' = us_w s"
    then show ?thesis using data by simp
  next
    fix p c' assume stage: "stage_sqe (cancel_sqe p) c = Some c'" and w': "w' = with_ctx self c' (us_w s)"
    note sq = sq.push_accepted [OF wf stage] and cq = stage_frame [OF stage]
    have "ctx_form c'" using c(2) sq cq cq_cong [of c' c] by (simp add: ctx_form_def)
    moreover have "mset (requested (sq_list c') @ requested (us_kernel s) @ posted (cq_list c')) = mset (places self s)"
      using sq cq cq_cong [of c' c] c(1) by (simp add: places_def)
    ultimately show ?thesis
      using rings_refine [OF data c(1), of c' w' "us_kernel s"] by (simp add: w')
  qed
qed

subsection \<open>Submit\<close>

lemma op_form_ready:
  "op_form self A x \<Longrightarrow> if uo_in_progress x = 0 then uo_context x = NULL \<and> snd (fill_sqe p x) else uo_in_progress x = 1"
  by (auto simp: op_form_def fill_sqe_def Let_def)

lemma data_ready:
  assumes data: "data_ur self A s" and inv: "own_inv self A (own_ur self A s)" and user: "0 < us_user s self"
  shows "ready_ur self (us_w s)"
proof -
  obtain c where "ur_ctxs (us_w s) self = Some c" "ctx_form c" by (rule ur_ctxD [OF data inv user])
  moreover have "ur_ops (us_w s) self = None"
    using own_inv_self(1) [OF inv] by (simp add: own_ur_def)
  moreover have "ops_ok_ur (us_w s)"
    unfolding ops_ok_ur_def using data op_form_ready [of self A] unfolding data_ur_def by blast
  ultimately show ?thesis by (auto simp: ready_ur_def ctx_form_def)
qed

lemma claim_refines:
  assumes data: "data_ur self A s" and inv: "own_inv self A (own_ur self A s)" and user: "0 < us_user s self"
    and free: "free_ur (us_w s) p" and room: "ring_full self (us_w s) = None"
  defines "s' \<equiv> s\<lparr>us_w := claim_ur self p (us_w s), us_accepted := us_accepted s @ [p]\<rparr>"
  shows "data_ur self A s' \<and> (own_step self A)\<^sup>*\<^sup>* (own_ur self A s) (own_ur self A s')"
proof -
  obtain c where c: "ur_ctxs (us_w s) self = Some c" "ctx_form c" "ctx_ur (us_w s) self = c"
    and rs: "refs (us_w s) self = int (us_user s self) + int (length (places self s))"
    by (rule ur_ctxD [OF data inv user])
  obtain x where x: "ur_ops (us_w s) p = Some x" "uo_in_progress x = 0" using free by (rule free_urE)
  note p = ur_opD [OF data inv x(1)]
  have lay: "layout self A" using data by (simp add: data_ur_def)
  have wf: "sq_wf c" using c(2) by (simp add: ctx_form_def)
  have "length (sq_list c) \<noteq> sq_capacity c" using room c(3) by (auto simp: ring_full_def split: if_splits)
  then obtain c' where stage: "stage_sqe (request_ur (us_w s) p) c = Some c'"
    using sq.push_refused [OF wf, of "request_ur (us_w s) p"] by auto
  note sq = sq.push_accepted [OF wf stage] and cq = stage_frame [OF stage]
  define w' where "w' = claim_ur self p (us_w s)"
  have w': "ur_ctxs w' = (ur_ctxs (us_w s))(self \<mapsto> c')" "ur_ops w' = (ur_ops (us_w s))(p \<mapsto> x\<lparr>uo_in_progress := 1, uo_context := self\<rparr>)"
    "refs w' = (refs (us_w s))(p := refs (us_w s) p + 1, self := refs (us_w s) self + 1)" "bytes_at w' = bytes_at (us_w s)"
    using stage c(3) x(1) by (simp_all add: w'_def claim_ur_def op_ur_def)
  have form: "ctx_form c'" using c(2) sq cq cq_cong [of c' c] by (simp add: ctx_form_def)
  have pl: "mset (places self s') = add_mset p (mset (places self s))"
    using sq cq cq_cong [of c' c] c(1) w'(1) p(4) by (simp add: places_def s'_def w'_def [symmetric])
  have x': "op_form self A (x\<lparr>uo_in_progress := 1, uo_context := self\<rparr>)" "phase_ur (x\<lparr>uo_in_progress := 1, uo_context := self\<rparr>) = Flight"
    using p(5) x(2) by (auto simp: op_form_def phase_ur_def)
  have "data_ur self A s'"
    unfolding data_ur_def
  proof (intro conjI allI impI)
    show "history_ok self s'" using data pl by (simp add: data_ur_def history_ok_def) (simp add: s'_def)
    show "op_form self A y" if "ur_ops (us_w s') q = Some y" for q y
      using that x'(1) data by (auto simp: s'_def w'_def [symmetric] w'(2) data_ur_def split: if_splits)
  qed (use data form user rs lay in \<open>simp_all add: s'_def w'_def [symmetric] w' data_ur_def\<close>)
  moreover have "own_ur self A s' = (own_ur self A s)\<lparr>ow_phase := (ow_phase (own_ur self A s))(p \<mapsto> Flight),
      ow_refs := (ow_refs (own_ur self A s))(p := ow_refs (own_ur self A s) p + 1, self := ow_refs (own_ur self A s) self + 1),
      ow_flight := add_mset p (ow_flight (own_ur self A s))\<rparr>"
    using p(1,2) x'(2) by (intro own.equality; simp add: own_ur_def pl) (auto simp: s'_def w'_def [symmetric] w' fun_eq_iff)
  moreover have "ow_phase (own_ur self A s) p = Some Fresh" using x by (simp add: own_ur_def phase_ur_def)
  ultimately show ?thesis using own_step.claim [of "own_ur self A s" self p A] user by (auto simp: own_ur_def)
qed

lemma claim_loop_refines:
  assumes "data_ur self A s" and "own_inv self A (own_ur self A s)" and "0 < us_user s self"
    and "claim_loop free_ur (ring_full self) (claim_ur self) ps (us_w s) = (r, cs, v)"
  shows "data_ur self A (s\<lparr>us_w := v, us_accepted := us_accepted s @ cs\<rparr>) \<and>
    (own_step self A)\<^sup>*\<^sup>* (own_ur self A s) (own_ur self A (s\<lparr>us_w := v, us_accepted := us_accepted s @ cs\<rparr>))"
  using assms
proof (induction ps arbitrary: s cs)
  case Nil
  then have "cs = []" "v = us_w s" by simp_all
  then show ?case using Nil by simp
next
  case (Cons p ps)
  show ?case
  proof (cases "free_ur (us_w s) p \<and> ring_full self (us_w s) = None")
    case False
    then consider "claim_loop free_ur (ring_full self) (claim_ur self) ps (us_w s) = (r, cs, v)" | "cs = []" "v = us_w s"
      using Cons.prems(4) by (auto split: if_splits option.splits)
    then show ?thesis using Cons.IH [OF Cons.prems(1-3)] Cons.prems(1) by cases simp_all
  next
    case True
    let ?s = "s\<lparr>us_w := claim_ur self p (us_w s), us_accepted := us_accepted s @ [p]\<rparr>"
    obtain cs' where cs: "cs = p # cs'" and loop: "claim_loop free_ur (ring_full self) (claim_ur self) ps (us_w ?s) = (r, cs', v)"
      using Cons.prems(4) True by (auto split: prod.splits)
    from True have one: "data_ur self A ?s" "(own_step self A)\<^sup>*\<^sup>* (own_ur self A s) (own_ur self A ?s)"
      using claim_refines [OF Cons.prems(1-3)] by blast+
    from Cons.IH [OF one(1) own_inv_steps [OF one(2) Cons.prems(2)] _ loop] Cons.prems(3) one(2) show ?thesis
      by (auto simp: cs intro: rtranclp_trans)
  qed
qed

lemma submit_refines:
  assumes data: "data_ur self A s" and inv: "own_inv self A (own_ur self A s)" and user: "0 < us_user s self"
    and run: "AIOContext_submit_ur self args (us_w s) = (r, w')"
  defines "s' \<equiv> s\<lparr>us_w := w', us_accepted := us_accepted s @ requested (drop (length (sq_of self (us_w s))) (sq_of self w'))\<rparr>"
  shows "data_ur self A s' \<and> (own_step self A)\<^sup>*\<^sup>* (own_ur self A s) (own_ur self A s')"
proof -
  obtain c where c: "ur_ctxs (us_w s) self = Some c" "ctx_form c" "ctx_ur (us_w s) self = c"
    by (rule ur_ctxD [OF data inv user])
  then have fd: "uc_uring_fd (ctx_ur (us_w s) self) \<ge> 0" by (simp add: ctx_form_def)
  show ?thesis
  proof (cases "\<exists>ps. args = Some ps \<and> (\<forall>p\<in>set ps. ur_ops (us_w s) p \<noteq> None)")
    case False
    then have "w' = us_w s" using run fd wrong_type_None [of "ur_ops (us_w s)" 0]
      by (auto simp: AIOContext_submit_ur_def split: option.splits if_splits)
    then show ?thesis using data by (simp add: s'_def)
  next
    case True
    then obtain ps where ps: "args = Some ps" "\<forall>p\<in>set ps. ur_ops (us_w s) p \<noteq> None" by blast
    note ready = data_ready [OF data inv user]
    obtain r' cs v where loop: "claim_loop free_ur (ring_full self) (claim_ur self) ps (us_w s) = (r', cs, v)"
      and sub: "AIOContext_submit_ur self args (us_w s) = (case r' of None \<Rightarrow> Ret (PyLong (int (length cs))) | Some e \<Rightarrow> Raise e, v)"
      using submit_ur_loop [OF ready fd ps(2)] ps(1) by metis
    have v: "w' = v" using run sub by simp
    note props = uring.loop_claims [OF conjI [OF ready refl] loop]
    then obtain c' where c': "ur_ctxs v self = Some c'" by (auto simp: ready_ur_def)
    have live: "set cs \<subseteq> {p. ur_ops (us_w s) p \<noteq> None}" using props ps(2) by auto
    have "sq_of self v = sq_of self (us_w s) @ map (request_ur (us_w s)) cs"
      using props c(1) c' by (simp add: ctx_ur_def)
    then have "requested (drop (length (sq_of self (us_w s))) (sq_of self w')) = filter (\<lambda>p. p \<noteq> CANCEL_USER_DATA) cs"
      by (simp add: v requested_def filter_map comp_def)
    also have "\<dots> = cs"
      using live ur_opD(4) [OF data inv] by (intro filter_True) auto
    finally have "s' = s\<lparr>us_w := v, us_accepted := us_accepted s @ cs\<rparr>" by (simp add: s'_def v)
    then show ?thesis using claim_loop_refines [OF data inv user loop] by simp
  qed
qed

subsection \<open>Draining\<close>

lemma posted_real: "map fst (map entry_of (filter is_real es)) = posted es"
  by (induction es) auto

lemma distinct_places:
  assumes "own_inv self A (own_ur self A s)"
  shows "distinct (places self s)"
proof -
  have "count (mset (places self s)) p \<le> 1" for p
    using own_invD(3) [OF assms, of p] by (auto simp: own_ur_def counted_def)
  then show ?thesis by (rule distinct_if_count_le_1)
qed

lemma pending_of: "ur_ctxs w self \<noteq> None \<Longrightarrow> cq_pending self w = cq_of self w"
  by (auto simp: cq_pending_def cq_of_def cq_list_def ctx_ur_def)

lemma data_drained:
  assumes data: "data_ur self A s" and inv: "own_inv self A (own_ur self A s)" and user: "0 < us_user s self"
  shows "distinct (map fst (drained_ops self limit (us_w s)))"
    and "mset (places self s) = mset (map fst (drained_ops self limit (us_w s))) +
      mset (requested (sq_of self (us_w s)) @ requested (us_kernel s) @ posted (cq_pending self (before_callbacks self limit (us_w s))))"
    and "batch_ok self (us_w s) (drained_ops self limit (us_w s))"
proof -
  obtain c where c: "ur_ctxs (us_w s) self = Some c" "ctx_form c" "ctx_ur (us_w s) self = c"
    and rs: "refs (us_w s) self = int (us_user s self) + int (length (places self s))"
    by (rule ur_ctxD [OF data inv user])
  obtain q where q: "uc_cq c = Some q" using c(2) by (auto simp: ctx_form_def cq_wf_def)
  let ?ops = "drained_ops self limit (us_w s)"
  have fst: "map fst ?ops = posted (drained self limit (us_w s))" unfolding drained_ops_def by (rule posted_real)
  show split: "mset (places self s) = mset (map fst ?ops) +
      mset (requested (sq_of self (us_w s)) @ requested (us_kernel s) @ posted (cq_pending self (before_callbacks self limit (us_w s))))"
    using pending_before_callbacks [OF c(1) q, of limit] pending_of [of "us_w s" self] c(1)
    unfolding places_def fst by simp
  have "mset (map fst ?ops) \<subseteq># mset (places self s)" unfolding split by simp
  note m = sub_mset_distinct [OF this distinct_places [OF inv]]
  show dist: "distinct (map fst ?ops)" by (rule m(1))
  have sub: "set (map fst ?ops) \<subseteq> set (places self s)" and len: "length ?ops \<le> length (places self s)"
    using m(2,3) by simp_all
  show "batch_ok self (us_w s) ?ops"
    unfolding batch_ok_def
  proof (intro conjI ballI)
    show "self \<noteq> NULL" using data by (simp add: data_ur_def layout_def)
    show "int (length ?ops) < refs (us_w s) self" using len rs user by simp
    fix e assume "e \<in> set ?ops"
    then have "fst e \<in> set (places self s)" using sub by auto
    then have "ow_phase (own_ur self A s) (fst e) = Some Flight" by (intro in_flight_alive(1) [OF inv]) (simp add: own_ur_def)
    then obtain x where x: "ur_ops (us_w s) (fst e) = Some x" "phase_ur x = Flight" by (auto simp: own_ur_def)
    then have "uo_context x = self"
      using ur_opD(5) [OF data inv x(1)] by (auto simp: op_form_def phase_ur_def split: if_splits)
    then show "\<exists>x. ur_ops (us_w s) (fst e) = Some x \<and> uo_context x = self" using x by blast
  qed (rule dist)
qed

text \<open>A drain up to its callbacks, in closed form.\<close>

definition scanned :: "ptr \<Rightarrow> u32 \<Rightarrow> ur_sys \<Rightarrow> ur_sys" where
  "scanned self limit s = s\<lparr>us_w := before_callbacks self limit (us_w s),
     us_batch := map (\<lambda>e. (e, False)) (drained_ops self limit (us_w s)) @ us_batch s,
     us_completed := us_completed s @ map fst (drained_ops self limit (us_w s))\<rparr>"

lemma before_callbacks_ctx:
  assumes "ur_ctxs w self = Some c"
  shows "ur_ctxs (before_callbacks self limit w) self =
    Some (c\<lparr>uc_cq := map_option (\<lambda>q. q\<lparr>cq_head := cq_head q + of_nat (length (drained self limit w))\<rparr>) (uc_cq c)\<rparr>)"
  using assms by (simp add: before_callbacks_def commit_head_def completed_world_def)

lemma before_callbacks_frame:
  "ur_ops (before_callbacks self limit w) = (\<lambda>p. case map_of (drained_ops self limit w) p of None \<Rightarrow> ur_ops w p
     | Some res \<Rightarrow> map_option (completed_op_ur res) (ur_ops w p))"
  "refs (before_callbacks self limit w) = (refs w)(self := refs w self - int (length (drained_ops self limit w)))"
  "bytes_at (before_callbacks self limit w) = bytes_at w" "mem (before_callbacks self limit w) = mem w"
  by (simp_all add: before_callbacks_def commit_head_def completed_world_def)

text \<open>Consuming entries keeps the shape of the completion ring.\<close>

lemma cq_wf_consume:
  assumes "cq_wf c" and "uc_cq c = Some q" and "n \<le> unat (cq_tail q - cq_head q)"
  shows "cq_wf (c\<lparr>uc_cq := Some (q\<lparr>cq_head := cq_head q + of_nat n\<rparr>)\<rparr>)"
proof -
  have "unat (cq_tail q - (cq_head q + of_nat n)) = length (cq_entries q (cq_head q + of_nat n) (cq_tail q))"
    by (simp add: cq_entries_def)
  also have "\<dots> \<le> unat (cq_tail q - cq_head q)" unfolding cq_entries_drop [OF assms(3)] by (simp add: cq_entries_def)
  finally have "unat (cq_tail q - (cq_head q + of_nat n)) \<le> unat (cq_tail q - cq_head q)" .
  then show ?thesis using assms(1,2) by (auto simp: cq_wf_def intro: order_trans)
qed

lemma scanned_form:
  assumes "ctx_form c" and "ur_ctxs w self = Some c"
  obtains c' where "ur_ctxs (before_callbacks self limit w) self = Some c'" "ctx_form c'" "sq_list c' = sq_list c"
proof -
  obtain q where q: "uc_cq c = Some q" using assms(1) by (auto simp: ctx_form_def cq_wf_def)
  have "length (drained self limit w) \<le> length (cq_pending self w)"
    using pending_before_callbacks [OF assms(2) q, of limit] by simp
  then have n: "length (drained self limit w) \<le> unat (cq_tail q - cq_head q)"
    using assms(2) q by (simp add: cq_pending_def ctx_ur_def cq_entries_def)
  let ?c = "c\<lparr>uc_cq := Some (q\<lparr>cq_head := cq_head q + of_nat (length (drained self limit w))\<rparr>)\<rparr>"
  have "ur_ctxs (before_callbacks self limit w) self = Some ?c"
    using before_callbacks_ctx [OF assms(2)] q by simp
  moreover have "ctx_form ?c"
    using assms(1) cq_wf_consume [OF _ q n] sq_cong [of ?c c] by (simp add: ctx_form_def)
  ultimately show thesis using that sq_cong [of ?c c] by simp
qed

lemma scan_is_scanned:
  assumes data: "data_ur self A s" and inv: "own_inv self A (own_ur self A s)" and user: "0 < us_user s self"
    and q: "uc_cq (ctx_ur (us_w s) self) = Some q"
  shows "scan_cq q (cq_head q) (cq_tail q) limit 0 [] (us_w s) = Some (head, batch, w') \<Longrightarrow>
      s\<lparr>us_w := upd_ctx_ur self (\<lambda>c. c\<lparr>uc_cq := map_option (\<lambda>q. q\<lparr>cq_head := head\<rparr>) (uc_cq c)\<rparr>) w',
        us_batch := map (\<lambda>e. (e, False)) batch @ us_batch s, us_completed := us_completed s @ map fst batch\<rparr> =
      scanned self limit s"
    and "scan_cq q (cq_head q) (cq_tail q) limit 0 [] (us_w s) \<noteq> None"
proof -
  obtain c where c: "ur_ctxs (us_w s) self = Some c" "ctx_ur (us_w s) self = c" by (rule ur_ctxD [OF data inv user])
  note scan = scan_closed [OF c(1) q [unfolded c(2)] data_drained(3) [OF data inv user, of limit]]
  show "s\<lparr>us_w := upd_ctx_ur self (\<lambda>c. c\<lparr>uc_cq := map_option (\<lambda>q. q\<lparr>cq_head := head\<rparr>) (uc_cq c)\<rparr>) w',
        us_batch := map (\<lambda>e. (e, False)) batch @ us_batch s, us_completed := us_completed s @ map fst batch\<rparr> =
      scanned self limit s" if "scan_cq q (cq_head q) (cq_tail q) limit 0 [] (us_w s) = Some (head, batch, w')"
  proof -
    have eq: "head = cq_head q + of_nat (length (drained self limit (us_w s)))" "batch = drained_ops self limit (us_w s)"
      "w' = completed_world self (drained_ops self limit (us_w s)) (us_w s)"
      using scan(1) that by simp_all
    show ?thesis unfolding eq scan(2) scanned_def ..
  qed
  show "scan_cq q (cq_head q) (cq_tail q) limit 0 [] (us_w s) \<noteq> None" using scan(1) by simp
qed

lemma scanned_refines:
  fixes limit :: u32
  assumes data: "data_ur self A s" and inv: "own_inv self A (own_ur self A s)" and user: "0 < us_user s self"
  defines "s' \<equiv> scanned self limit s"
  shows "data_ur self A s' \<and> (own_step self A)\<^sup>*\<^sup>* (own_ur self A s) (own_ur self A s')"
proof -
  obtain c where c: "ur_ctxs (us_w s) self = Some c" "ctx_form c"
    and rs: "refs (us_w s) self = int (us_user s self) + int (length (places self s))"
    by (rule ur_ctxD [OF data inv user])
  let ?w = "us_w s" and ?ops = "drained_ops self limit (us_w s)" and ?w1 = "before_callbacks self limit (us_w s)"
  note d = data_drained [OF data inv user, of limit]
  have lay: "layout self A" using data by (simp add: data_ur_def)
  obtain c' where c': "ur_ctxs ?w1 self = Some c'" "ctx_form c'" "sq_list c' = sq_list c" by (rule scanned_form [OF c(2,1)])
  have pl: "mset (places self s) = mset (map fst ?ops) + mset (places self s')"
    using d(2) c' c(1) pending_of [of ?w1 self] by (simp add: places_def s'_def scanned_def)
  have inflight: "\<exists>x. ur_ops ?w p = Some x \<and> uo_in_progress x = 1" if "p \<in> set (map fst ?ops)" for p
  proof -
    have "p \<in># mset (places self s)" using that pl by simp
    then have "ow_phase (own_ur self A s) p = Some Flight" by (intro in_flight_alive(1) [OF inv]) (simp add: own_ur_def)
    then obtain x where x: "ur_ops ?w p = Some x" "phase_ur x = Flight" by (auto simp: own_ur_def)
    then show ?thesis using ur_opD(5) [OF data inv x(1)] by (auto simp: op_form_def phase_ur_def split: if_splits)
  qed
  have phase: "map_option phase_ur (ur_ops ?w1 p) = (if p \<in> set (map fst ?ops) then Some Done else map_option phase_ur (ur_ops ?w p))" for p
  proof (cases "map_of ?ops p")
    case None
    then have "p \<notin> set (map fst ?ops)" by (simp add: map_of_eq_None_iff)
    with None show ?thesis by (simp add: before_callbacks_frame)
  next
    case (Some r)
    then have "p \<in> set (map fst ?ops)" by (force dest: map_of_SomeD)
    then obtain x where "ur_ops ?w p = Some x" "uo_in_progress x = 1" using inflight by blast
    moreover from this have "phase_ur (completed_op_ur r x) = Done" by (simp add: phase_ur_def)
    ultimately show ?thesis using Some \<open>p \<in> set (map fst ?ops)\<close> by (simp add: before_callbacks_frame)
  qed
  have len: "int (length ?ops) < refs ?w self" using d(3) by (simp add: batch_ok_def)
  have "data_ur self A s'"
    unfolding data_ur_def
  proof (intro conjI allI impI)
    have "filter_mset (\<lambda>e. \<not> snd e) (image_mset (\<lambda>e. (e, False)) M) = image_mset (\<lambda>e. (e, False)) M" for M :: "(ptr \<times> u32) multiset"
      by (induction M) simp_all
    then show "history_ok self s'" using data pl
      by (simp add: data_ur_def history_ok_def) (simp add: s'_def scanned_def multiset.map_comp comp_def)
    fix p y assume y: "ur_ops (us_w s') p = Some y"
    show "op_form self A y"
    proof (cases "map_of ?ops p")
      case None
      then show ?thesis using y data by (auto simp: s'_def scanned_def before_callbacks_frame data_ur_def)
    next
      case (Some r)
      then have "p \<in> set (map fst ?ops)" by (force dest: map_of_SomeD)
      then obtain x where x: "ur_ops ?w p = Some x" "uo_in_progress x = 1" using inflight by blast
      then have "y = completed_op_ur r x" using y Some by (simp add: s'_def scanned_def before_callbacks_frame)
      then show ?thesis using ur_opD(5) [OF data inv x(1)] x(2) by (simp add: op_form_def)
    qed
  qed (use data lay c' len in \<open>simp_all add: s'_def scanned_def before_callbacks_frame data_ur_def\<close>)
  moreover have "own_ur self A s' = (own_ur self A s)\<lparr>
      ow_phase := (\<lambda>p. if p \<in> set (map fst ?ops) then Some Done else ow_phase (own_ur self A s) p),
      ow_refs := (ow_refs (own_ur self A s))(self := ow_refs (own_ur self A s) self - int (length (map fst ?ops))),
      ow_flight := ow_flight (own_ur self A s) - mset (map fst ?ops),
      ow_batch := mset (map fst ?ops) + ow_batch (own_ur self A s)\<rparr>"
    using phase pl by (intro own.equality) (auto simp: own_ur_def s'_def scanned_def before_callbacks_frame(2) fun_eq_iff comp_def)
  moreover have "set (map fst ?ops) \<subseteq> set_mset (ow_flight (own_ur self A s))"
    using pl by (simp add: own_ur_def)
  ultimately show ?thesis
    using own_complete_all [of "own_ur self A s" self "map fst ?ops" A] user d(1) by (simp add: own_ur_def)
qed

subsection \<open>Callbacks and references\<close>

lemma run_callback_frame:
  "ur_ops (run_callback (\<lambda>cb v w. (verdict cb v, w)) cb v w) = ur_ops w"
  "ur_ctxs (run_callback (\<lambda>cb v w. (verdict cb v, w)) cb v w) = ur_ctxs w"
  "refs (run_callback (\<lambda>cb v w. (verdict cb v, w)) cb v w) = refs w"
  "bytes_at (run_callback (\<lambda>cb v w. (verdict cb v, w)) cb v w) = bytes_at w"
  by (simp_all add: run_callback_def rt_simps Let_def)

lemma call_refines:
  fixes verdict :: "ptr \<Rightarrow> pyval \<Rightarrow> bool" and cb :: ptr and v :: pyval
  assumes data: "data_ur self A s" and batch: "us_batch s = ((p, res), False) # rest"
  defines "s' \<equiv> s\<lparr>us_w := run_callback (\<lambda>cb v w. (verdict cb v, w)) cb v (us_w s),
      us_batch := ((p, res), True) # rest, us_called := us_called s @ [p]\<rparr>"
  shows "data_ur self A s' \<and> own_ur self A s' = own_ur self A s"
proof -
  have pl: "places self s' = places self s" by (simp add: s'_def places_def sq_of_def cq_of_def run_callback_frame)
  have "own_ur self A s' = own_ur self A s"
    using batch by (intro own.equality; simp add: own_ur_def pl) (simp_all add: s'_def run_callback_frame cong: if_cong)
  moreover have "data_ur self A s'"
    using data batch by (simp add: data_ur_def history_ok_def pl) (simp add: s'_def run_callback_frame cong: option.case_cong)
  ultimately show ?thesis by simp
qed

text \<open>One reference on an Operation given up, by the backend or by the program.\<close>

lemma decref_op_refines:
  assumes data: "data_ur self A s" and inv: "own_inv self A (own_ur self A s)"
    and x: "ur_ops (us_w s) p = Some x" and idle: "refs (us_w s) p = 1 \<Longrightarrow> phase_ur x \<noteq> Flight"
  shows "data_ur self A (s\<lparr>us_w := decref_op_ur p (us_w s)\<rparr>) \<and>
    own_ur self A (s\<lparr>us_w := decref_op_ur p (us_w s)\<rparr>) = ow_drop p (own_ur self A s) \<and>
    places self (s\<lparr>us_w := decref_op_ur p (us_w s)\<rparr>) = places self s"
proof -
  let ?w' = "decref_op_ur p (us_w s)"
  note p = ur_opD [OF data inv x]
  have "ur_ctxs ?w' = ur_ctxs (us_w s) \<and> bytes_at ?w' = bytes_at (us_w s) \<and>
    ur_ops ?w' = (if refs (us_w s) p = 1 then (ur_ops (us_w s))(p := None) else ur_ops (us_w s)) \<and>
    (\<forall>q\<in>insert self A. refs ?w' q = refs (us_w s) q - (if q = p then 1 else 0))"
  proof (cases "refs (us_w s) p = 1")
    case True
    then have "phase_ur x \<noteq> Flight" by (rule idle)
    then have null: "uo_context x = NULL" and foreign: "uo_callback x \<notin> insert self A" "uo_py_buffer x \<notin> insert self A"
      using p(5) by (auto simp: op_form_def phase_ur_def)
    show ?thesis using decref_op_frame [OF x null] foreign by auto
  qed (simp add: decref_op_alive)
  then have frame: "ur_ctxs ?w' = ur_ctxs (us_w s)" "bytes_at ?w' = bytes_at (us_w s)"
    "ur_ops ?w' = (if refs (us_w s) p = 1 then (ur_ops (us_w s))(p := None) else ur_ops (us_w s))"
    "\<And>q. q \<in> insert self A \<Longrightarrow> refs ?w' q = refs (us_w s) q - (if q = p then 1 else 0)"
    by blast+
  have pl: "places self (s\<lparr>us_w := ?w'\<rparr>) = places self s" by (simp add: places_def sq_of_def cq_of_def frame(1))
  have "own_ur self A (s\<lparr>us_w := ?w'\<rparr>) = ow_drop p (own_ur self A s)"
    using p(1,2) by (intro own.equality) (auto simp: own_ur_def ow_drop_def pl frame(3,4) fun_eq_iff)
  moreover have "data_ur self A (s\<lparr>us_w := ?w'\<rparr>)"
    using data p(1,2) by (auto simp: data_ur_def history_ok_def pl frame split: option.splits if_splits)
  ultimately show ?thesis using pl by simp
qed

lemma release_refines:
  assumes data: "data_ur self A s" and inv: "own_inv self A (own_ur self A s)" and batch: "us_batch s = ((p, res), True) # rest"
  defines "s' \<equiv> s\<lparr>us_w := decref_op_ur p (us_w s), us_batch := rest\<rparr>"
  shows "data_ur self A s' \<and> (own_step self A)\<^sup>*\<^sup>* (own_ur self A s) (own_ur self A s')"
proof -
  let ?s = "s\<lparr>us_w := decref_op_ur p (us_w s)\<rparr>"
  have inb: "p \<in># ow_batch (own_ur self A s)" using batch by (simp add: own_ur_def)
  from in_batch_alive(1) [OF inv this] obtain x where x: "ur_ops (us_w s) p = Some x" "phase_ur x = Done"
    by (auto simp: own_ur_def)
  note d = decref_op_refines [OF data inv x(1)]
  have pl: "places self s' = places self ?s" by (simp add: places_def s'_def)
  have "own_ur self A s' = (ow_drop p (own_ur self A s))\<lparr>ow_batch := ow_batch (own_ur self A s) - {#p#}\<rparr>"
  proof -
    have "own_ur self A s' = (own_ur self A ?s)\<lparr>ow_batch := mset (map (fst \<circ> fst) rest)\<rparr>"
      by (intro own.equality; simp add: own_ur_def pl) (simp_all add: s'_def cong: if_cong)
    then show ?thesis using d x(2) batch by (simp add: own_ur_sel)
  qed
  moreover have "data_ur self A s'"
    using d x(2) batch by (simp add: data_ur_def history_ok_def pl) (simp add: s'_def cong: option.case_cong)
  ultimately show ?thesis using own_step.release [OF inb, of self A] by auto
qed

lemma drop_refines:
  assumes data: "data_ur self A s" and inv: "own_inv self A (own_ur self A s)" and p: "p \<in> A" "0 < us_user s p"
  defines "s' \<equiv> s\<lparr>us_w := decref_op_ur p (us_w s), us_user := (us_user s)(p := us_user s p - 1)\<rparr>"
  shows "data_ur self A s' \<and> (own_step self A)\<^sup>*\<^sup>* (own_ur self A s) (own_ur self A s')"
proof -
  let ?s = "s\<lparr>us_w := decref_op_ur p (us_w s)\<rparr>"
  have acc: "counted True (map_option phase_ur (ur_ops (us_w s) p)) (refs (us_w s) p) (us_user s p)
      (count (mset (places self s)) p) (count (mset (map (fst \<circ> fst) (us_batch s))) p)"
    using own_invD(3) [OF inv, of p] p(1) by (simp add: own_ur_def)
  then obtain x where x: "ur_ops (us_w s) p = Some x" using p(2) by (auto simp: counted_def)
  have "phase_ur x \<noteq> Flight" if "refs (us_w s) p = 1" using acc x p(2) that by (auto simp: counted_def)
  note d = decref_op_refines [OF data inv x this]
  have pl: "places self s' = places self ?s" by (simp add: places_def s'_def)
  have "own_ur self A s' = (ow_drop p (own_ur self A s))\<lparr>ow_user := (ow_user (own_ur self A s))(p := ow_user (own_ur self A s) p - 1)\<rparr>"
  proof -
    have "own_ur self A s' = (own_ur self A ?s)\<lparr>ow_user := (us_user s)(p := us_user s p - 1)\<rparr>"
      by (intro own.equality; simp add: own_ur_def pl) (simp_all add: s'_def cong: if_cong)
    then show ?thesis using d by (simp add: own_ur_sel)
  qed
  moreover have "data_ur self A s'"
    using d by (simp add: data_ur_def history_ok_def pl) (simp add: s'_def cong: option.case_cong)
  ultimately show ?thesis using own_step.drop [OF p(1), of "own_ur self A s" self] p(2) by (auto simp: own_ur_def)
qed

lemma drop_context_refines:
  assumes data: "data_ur self A s" and inv: "own_inv self A (own_ur self A s)" and user: "0 < us_user s self"
  defines "s' \<equiv> s\<lparr>us_w := decref_ctx_ur self (us_w s), us_user := (us_user s)(self := us_user s self - 1)\<rparr>"
  shows "data_ur self A s' \<and> (own_step self A)\<^sup>*\<^sup>* (own_ur self A s) (own_ur self A s')"
proof -
  obtain c where c: "ur_ctxs (us_w s) self = Some c" "ctx_form c"
    and rs: "refs (us_w s) self = int (us_user s self) + int (length (places self s))"
    by (rule ur_ctxD [OF data inv user])
  have "self \<notin> A" using data by (simp add: data_ur_def layout_def)
  have pl: "places self s' = places self s"
  proof (cases "refs (us_w s) self = 1")
    case True
    then have "length (places self s) = 0" using rs user by linarith
    then have "places self s = []" by simp
    then show ?thesis using True by (simp add: places_def s'_def decref_ctx_frame sq_of_def cq_of_def)
  next
    case False
    then show ?thesis by (simp add: places_def s'_def decref_ctx_frame sq_of_def cq_of_def)
  qed
  have "own_ur self A s' = (own_ur self A s)\<lparr>ow_refs := (ow_refs (own_ur self A s))(self := ow_refs (own_ur self A s) self - 1),
      ow_user := (ow_user (own_ur self A s))(self := ow_user (own_ur self A s) self - 1)\<rparr>"
    by (intro own.equality; simp add: own_ur_def pl) (auto simp: s'_def decref_ctx_frame fun_eq_iff)
  moreover have "data_ur self A s'"
    using data \<open>self \<notin> A\<close> c rs user by (simp add: data_ur_def history_ok_def pl) (simp add: s'_def decref_ctx_frame)
  ultimately show ?thesis using own_step.drop_self [of "own_ur self A s" self A] user by (auto simp: own_ur_sel)
qed

lemma share_refines:
  assumes data: "data_ur self A s" and p: "p \<in> insert self A" "0 < us_user s p" and inv: "own_inv self A (own_ur self A s)"
  defines "s' \<equiv> s\<lparr>us_w := Py_INCREF p (us_w s), us_user := (us_user s)(p := us_user s p + 1)\<rparr>"
  shows "data_ur self A s' \<and> (own_step self A)\<^sup>*\<^sup>* (own_ur self A s) (own_ur self A s')"
proof -
  have pl: "places self s' = places self s" by (simp add: places_def s'_def sq_of_def cq_of_def)
  have ctx: "p = self \<Longrightarrow> ur_ctxs (us_w s) self \<noteq> None" using ur_ctxD [OF data inv] p(2) by (metis option.distinct(1))
  have "own_ur self A s' = (own_ur self A s)\<lparr>ow_refs := (ow_refs (own_ur self A s))(p := ow_refs (own_ur self A s) p + 1),
      ow_user := (ow_user (own_ur self A s))(p := ow_user (own_ur self A s) p + 1)\<rparr>"
    using p(1) by (intro own.equality; simp add: own_ur_def pl) (auto simp: s'_def rt_simps fun_eq_iff)
  moreover have "data_ur self A s'"
    using data ctx by (simp add: data_ur_def history_ok_def pl) (auto simp: s'_def rt_simps split: option.splits)
  ultimately show ?thesis using own_step.share [OF p(1), of "own_ur self A s"] p(2) by (auto simp: own_ur_sel)
qed

section \<open>Every step\<close>

lemma ur_step_refines:
  assumes "ur_step self A s s'" and data: "data_ur self A s" and inv: "own_inv self A (own_ur self A s)"
  shows "data_ur self A s' \<and> (own_step self A)\<^sup>*\<^sup>* (own_ur self A s) (own_ur self A s')"
  using assms(1)
proof cases
  case (new_read p parsed bytes r w')
  from read_refines [OF data inv new_read(2-5)] show ?thesis unfolding new_read(1) .
next
  case (new_write p parsed as_string r w')
  from write_refines [OF data inv new_write(2,3,5)] show ?thesis unfolding new_write(1) .
next
  case (new_sync p code parsed_fd r w')
  then show ?thesis using sync_refines [OF data inv] by blast
next
  case (set_callback p callable cb r w')
  from set_callback_refines [OF data inv set_callback(2) _ set_callback(4)] set_callback(3)
  show ?thesis unfolding set_callback(1) by simp
next
  case (submit args r w')
  then show ?thesis using submit_refines [OF data inv] by blast
next
  case (cancel env target r w')
  from cancel_refines [OF data inv cancel(2-4)] show ?thesis unfolding cancel(1) by simp
next
  case (kernel_take c sqe c')
  from kernel_take_refines [OF data kernel_take(2,3)] show ?thesis unfolding kernel_take(1) by simp
next
  case (kernel_post ks sqe ls c res c' d)
  from kernel_post_refines [OF data kernel_post(2-4), of d] show ?thesis unfolding kernel_post(1) by simp
next
  case (scan q limit head batch w')
  then show ?thesis
    using scan_is_scanned(1) [OF data inv scan(2,3,4)] scanned_refines [OF data inv scan(2)] by simp
next
  case (call p res rest verdict)
  from call_refines [OF data call(2)] show ?thesis unfolding call(1) by simp
next
  case (release p res rest)
  then show ?thesis using release_refines [OF data inv] by blast
next
  case (drop p)
  then show ?thesis using drop_refines [OF data inv] by blast
next
  case drop_context
  then show ?thesis using drop_context_refines [OF data inv] by blast
next
  case (share p)
  then show ?thesis using share_refines [OF data _ _ inv] by blast
next
  case (program w')
  then have "ur_ops w' = ur_ops (us_w s)" "ur_ctxs w' = ur_ctxs (us_w s)"
    "\<forall>q\<in>insert self A. refs w' q = refs (us_w s) q \<and> bytes_at w' q = bytes_at (us_w s) q"
    by (simp_all add: program_step_def)
  from quiet [OF this] show ?thesis using data program by simp
qed

lemma setup_loop_fd: "setup_loop ie n table failed = Inl (fd, flags, ps) \<Longrightarrow> 0 \<le> fd"
  by (induction ie n table failed rule: setup_loop.induct) (auto split: if_splits prod.splits)

lemma init_form:
  assumes "rings_new ie" and "AIOContext_init_ur ie parsed c0 = (Ret (), c)"
  shows "ctx_form c" "sq_list c = []" "cq_list c = []"
proof -
  have c: "uc_uring_fd c \<ge> 0 \<and> uc_sq c = Some (ie_sq ie) \<and> uc_sqes c \<noteq> None \<and> uc_cq c = Some (ie_cq ie)"
    using assms(2) unfolding AIOContext_init_ur_def Let_def
    by (auto simp: map_rings_def finish_init_ur_def Let_def split: option.splits prod.splits sum.splits if_splits dest!: setup_loop_fd)
  then show "ctx_form c" "sq_list c = []" "cq_list c = []"
    using assms(1) by (auto simp: ctx_form_def sq_wf_def cq_wf_def rings_new_def sq_list_def cq_list_def cq_entries_def)
qed

lemma ur_start_inv: "ur_start self A s \<Longrightarrow> data_ur self A s \<and> own_inv self A (own_ur self A s)"
proof (induction rule: ur_start.induct)
  case (1 ie parsed c n w)
  note c = init_form [OF 1(2,3)]
  have "self \<notin> A" using 1(1) by (simp add: layout_def)
  then show ?case
    using 1 c by (auto simp: data_ur_def history_ok_def own_inv_def own_ur_def counted_def places_def)
qed

interpretation uring_sys: backend "ur_start self A" "ur_step self A" "own_ur self A" "data_ur self A" self A for self A
  by unfold_locales (simp_all add: ur_start_inv ur_step_refines)

lemma ur_reaches_inv:
  assumes "ur_reaches self A s"
  shows "data_ur self A s" "own_inv self A (own_ur self A s)"
  using assms uring_sys.reachable_owned by (auto simp: ur_reaches_def)

end
