(* ===== verification/Uring_Memory.thy ===== *)
theory Uring_Memory
  imports Uring_Steps
begin

text \<open>
  The buffers the kernel reads and writes. An entry in the submission ring or with the kernel
  is the one \<^verbatim>\<open>submit\<close> made of an operation in flight; the operation holds the bytes object
  that owns the buffer; so the memory is there, and long enough, until the completion is
  drained, whatever the program drops meanwhile.
\<close>

section \<open>What the Operations hold\<close>

lemma holds_simps [simp]:
  "holds None q = 0" "holds (Some x) q = of_bool (q = uo_callback x) + of_bool (q = uo_py_buffer x)"
  by (simp_all add: holds_def)

lemma held_upd:
  assumes "finite A" "p \<in> A" "ur_ops w' = (ur_ops w)(p := v)"
  shows "held A w' q + holds (ur_ops w p) q = held A w q + holds v q"
  using sum_fun_upd [OF assms(1,2), of "\<lambda>x. holds x q" "ur_ops w" v] assms(3) by (simp add: held_def)

lemma held_cong: "(\<And>p. holds (ur_ops w' p) q = holds (ur_ops w p) q) \<Longrightarrow> held A w' q = held A w q"
  by (simp add: held_def)

lemma held_pos:
  assumes "finite A" "p \<in> A" "ur_ops w p = Some x" "q = uo_callback x \<or> q = uo_py_buffer x"
  shows "0 < held A w q"
  using assms by (auto simp: held_def sum.remove)

definition buffer_ok :: "ur_world \<Rightarrow> AIOOperation_ur \<Rightarrow> bool" where
  "buffer_ok w x \<longleftrightarrow> (uo_opcode x \<in> {URING_READ, URING_WRITE} \<longrightarrow>
     uo_py_buffer x \<noteq> NULL \<and> uo_buf x = bytes_at w (uo_py_buffer x) \<and> uo_buf x \<noteq> NULL \<and>
     (uo_done x = 0 \<longrightarrow> (\<exists>n. storage w (uo_py_buffer x) = Some n \<and> unat (uo_buf_size x) \<le> n)))"

definition entry_ok :: "(ptr \<Rightarrow> AIOOperation_ur option) \<Rightarrow> io_uring_sqe \<Rightarrow> bool" where
  "entry_ok ops e \<longleftrightarrow>
     (if sqe_user_data e = CANCEL_USER_DATA then sqe_opcode e = IORING_OP_ASYNC_CANCEL
      else \<exists>x. ops (sqe_user_data e) = Some x \<and> uo_in_progress x = 1 \<and> uo_done x = 0 \<and> e = fst (fill_sqe (sqe_user_data e) x))"

definition refs_ok :: "ptr \<Rightarrow> ptr set \<Rightarrow> ur_world \<Rightarrow> bool" where
  "refs_ok self A w \<longleftrightarrow> (\<forall>q. q \<noteq> NULL \<longrightarrow> q \<notin> insert self A \<longrightarrow> int (held A w q) \<le> refs w q)"

definition mem_ok :: "ptr \<Rightarrow> ptr set \<Rightarrow> ur_sys \<Rightarrow> bool" where
  "mem_ok self A s \<longleftrightarrow> runtime_ok (us_w s) \<and> refs_ok self A (us_w s) \<and>
     (\<forall>p x. ur_ops (us_w s) p = Some x \<longrightarrow> buffer_ok (us_w s) x) \<and>
     (\<forall>e\<in>set (sq_of self (us_w s)) \<union> set (us_kernel s). entry_ok (ur_ops (us_w s)) e)"

lemma mem_okD:
  assumes "mem_ok self A s"
  shows "runtime_ok (us_w s)" "refs_ok self A (us_w s)" "ur_ops (us_w s) p = Some x \<Longrightarrow> buffer_ok (us_w s) x"
    "e \<in> set (sq_of self (us_w s)) \<or> e \<in> set (us_kernel s) \<Longrightarrow> entry_ok (ur_ops (us_w s)) e"
  using assms by (auto simp: mem_ok_def)

text \<open>A foreign object that an Operation holds is alive.\<close>

lemma held_alive:
  assumes data: "data_ur self A s" and inv: "own_inv self A (own_ur self A s)" and mem: "mem_ok self A s"
    and x: "ur_ops (us_w s) p = Some x" and q: "q = uo_callback x \<or> q = uo_py_buffer x" "q \<noteq> NULL"
  shows "0 < refs (us_w s) q" "q \<notin> insert self A"
proof -
  note p = ur_opD [OF data inv x]
  show foreign: "q \<notin> insert self A" using p(5) q(1) by (auto simp: op_form_def)
  have "0 < held A (us_w s) q" using held_pos [OF _ p(1) x q(1)] data by (simp add: data_ur_def layout_def)
  then show "0 < refs (us_w s) q" using mem_okD(2) [OF mem] q(2) foreign by (fastforce simp: refs_ok_def)
qed

section \<open>Giving up references to foreign objects\<close>

text \<open>
  The storage of the objects that are left does not change: an object that dies takes only its own.
\<close>

definition survives :: "ur_world \<Rightarrow> ur_world \<Rightarrow> bool" where
  "survives w w' \<longleftrightarrow> runtime_ok w' \<and> (\<forall>q. 0 < refs w' q \<longrightarrow> bytes_at w' q = bytes_at w q \<and> storage w' q = storage w q)"

lemma runtime_ok_cong:
  "runtime_ok w \<Longrightarrow> (\<And>q. 0 < refs w' q \<Longrightarrow> 0 < refs w q) \<Longrightarrow> bytes_at w' = bytes_at w \<Longrightarrow>
   (\<And>q. 0 < refs w' q \<Longrightarrow> storage w' q = storage w q) \<Longrightarrow> runtime_ok w'"
  unfolding runtime_ok_def by metis

lemma runtime_ok_null:
  "runtime_ok w \<Longrightarrow> (\<And>q. 0 < refs w' q \<Longrightarrow> 0 < refs w q \<or> bytes_at w q = NULL) \<Longrightarrow> bytes_at w' = bytes_at w \<Longrightarrow>
   (\<And>q. storage w' q = storage w q) \<Longrightarrow> runtime_ok w'"
  unfolding runtime_ok_def by metis

lemma xdecref_survives:
  assumes ok: "runtime_ok w" and p: "p \<noteq> NULL \<Longrightarrow> 0 < refs w p"
  shows "survives w (Py_XDECREF p w)"
proof (cases "p = NULL \<or> refs w p \<noteq> 1")
  case True
  then have eq: "Py_XDECREF p w = (if p = NULL then w else w\<lparr>refs := (refs w)(p := refs w p - 1)\<rparr>)"
    by (auto simp: Py_XDECREF_def Py_DECREF_def decref_alive)
  show ?thesis
  proof (cases "p = NULL")
    case True
    then show ?thesis using ok by (simp add: survives_def Py_XDECREF_def)
  next
    case False
    have eq': "Py_XDECREF p w = w\<lparr>refs := (refs w)(p := refs w p - 1)\<rparr>" using False eq by simp
    have "runtime_ok (Py_XDECREF p w)"
      by (rule runtime_ok_cong [OF ok]) (auto simp: eq' storage_def split: if_splits)
    then show ?thesis by (simp add: survives_def eq' storage_def)
  qed
next
  case False
  then have eq: "Py_XDECREF p w = py_dealloc p (w\<lparr>refs := (refs w)(p := 0)\<rparr>)"
    by (simp add: Py_XDECREF_def Py_DECREF_def decref_last)
  have sto: "storage (Py_XDECREF p w) q = storage w q" if "0 < refs w q" "q \<noteq> p" for q
  proof -
    have "bytes_at w p \<noteq> NULL \<Longrightarrow> bytes_at w q \<noteq> bytes_at w p"
      using ok that False unfolding runtime_ok_def by (metis zero_less_one)
    then show ?thesis by (auto simp: eq py_dealloc_def storage_def rt_simps)
  qed
  have fr: "refs (Py_XDECREF p w) = (refs w)(p := 0)" "bytes_at (Py_XDECREF p w) = bytes_at w"
    by (simp_all add: eq py_dealloc_def rt_simps)
  have live: "0 < refs w q \<and> q \<noteq> p" if "0 < refs (Py_XDECREF p w) q" for q using that by (auto simp: fr split: if_splits)
  have "runtime_ok (Py_XDECREF p w)" by (rule runtime_ok_cong [OF ok]) (use live sto fr(2) in auto)
  then show ?thesis using live sto fr(2) by (auto simp: survives_def)
qed

lemma survives_trans: "survives w v \<Longrightarrow> survives v u \<Longrightarrow> (\<And>q. refs u q \<le> refs v q) \<Longrightarrow> survives w u"
  unfolding survives_def by (metis order_less_le_trans)

section \<open>Steps that change only the rings\<close>

lemma buffer_ok_cong:
  "buffer_ok w x \<Longrightarrow> (uo_py_buffer x \<noteq> NULL \<Longrightarrow> bytes_at w' (uo_py_buffer x) = bytes_at w (uo_py_buffer x) \<and>
     storage w' (uo_py_buffer x) = storage w (uo_py_buffer x)) \<Longrightarrow> buffer_ok w' x"
  by (auto simp: buffer_ok_def)

lemma rings_mem:
  assumes mem: "mem_ok self A s" and frame: "ur_ops w' = ur_ops (us_w s)" "refs w' = refs (us_w s)" "bytes_at w' = bytes_at (us_w s)"
    and sto: "\<And>q. storage w' q = storage (us_w s) q"
    and entries: "\<And>e. e \<in> set (sq_of self w') \<or> e \<in> set ks \<Longrightarrow>
      e \<in> set (sq_of self (us_w s)) \<or> e \<in> set (us_kernel s) \<or> (\<exists>p. e = cancel_sqe p)"
  shows "mem_ok self A (s\<lparr>us_w := w', us_kernel := ks\<rparr>)"
proof -
  have "runtime_ok w'" by (rule runtime_ok_cong [OF mem_okD(1) [OF mem]]) (use frame sto in simp_all)
  moreover have "refs_ok self A w'" using mem_okD(2) [OF mem] frame by (simp add: refs_ok_def held_def)
  moreover have "buffer_ok w' x" if "ur_ops w' p = Some x" for p x
    using mem_okD(3) [OF mem, of p x] that frame sto by (auto simp: buffer_ok_def)
  moreover have "entry_ok (ur_ops w') e" if "e \<in> set (sq_of self w') \<or> e \<in> set ks" for e
  proof -
    have "entry_ok ops (cancel_sqe p)" for ops p by (simp add: entry_ok_def cancel_sqe_def)
    then show ?thesis using entries [OF that] mem_okD(4) [OF mem] frame(1) by auto
  qed
  ultimately show ?thesis by (auto simp: mem_ok_def)
qed

lemma kernel_take_mem:
  assumes data: "data_ur self A s" and mem: "mem_ok self A s" and c: "ur_ctxs (us_w s) self = Some c" and take: "consume_sqe c = Some (e, c')"
  shows "mem_ok self A (s\<lparr>us_w := with_ctx self c' (us_w s), us_kernel := us_kernel s @ [e]\<rparr>)"
proof (rule rings_mem [OF mem])
  have "sq_wf c" using data c by (simp add: data_ur_def ctx_form_def)
  from sq.pop_delivered [OF this take] have "sq_list c = e # sq_list c'" by simp
  then show "d \<in> set (sq_of self (with_ctx self c' (us_w s))) \<or> d \<in> set (us_kernel s @ [e]) \<Longrightarrow>
      d \<in> set (sq_of self (us_w s)) \<or> d \<in> set (us_kernel s) \<or> (\<exists>p. d = cancel_sqe p)" for d
    using c by auto
qed (simp_all add: storage_def)

text \<open>The buffer of a pending read.\<close>

lemma fill_sqe_buffer:
  assumes "sqe_opcode (fst (fill_sqe p x)) \<in> {IORING_OP_READ, IORING_OP_WRITE}"
  shows "uo_opcode x \<in> {URING_READ, URING_WRITE}" "sqe_addr (fst (fill_sqe p x)) = uo_buf x"
    "sqe_len (fst (fill_sqe p x)) = ucast (uo_buf_size x)"
  using assms by (auto simp: fill_sqe_def zero_sqe_def Let_def split: if_splits)

lemma read_entry:
  assumes mem: "mem_ok self A s" and e: "e \<in> set (sq_of self (us_w s)) \<or> e \<in> set (us_kernel s)"
    and op: "sqe_opcode e \<in> {IORING_OP_READ, IORING_OP_WRITE}"
  obtains x obj bs where "ur_ops (us_w s) (sqe_user_data e) = Some x" "uo_py_buffer x = obj" "obj \<noteq> NULL"
    "sqe_addr e = bytes_at (us_w s) obj" "sqe_addr e \<noteq> NULL" "mem (us_w s) (sqe_addr e) = Some bs" "unat (sqe_len e) \<le> length bs"
proof -
  define p where "p = sqe_user_data e"
  have ok: "entry_ok (ur_ops (us_w s)) e" by (rule mem_okD(4) [OF mem e])
  then have "sqe_user_data e \<noteq> CANCEL_USER_DATA" using op by (auto simp: entry_ok_def)
  then obtain x where x: "ur_ops (us_w s) p = Some x" "uo_done x = 0" and fill: "e = fst (fill_sqe p x)"
    using ok unfolding p_def by (auto simp: entry_ok_def)
  have code: "uo_opcode x \<in> {URING_READ, URING_WRITE}" and addr: "sqe_addr e = uo_buf x" and len: "sqe_len e = ucast (uo_buf_size x)"
    using fill_sqe_buffer [of p x] op unfolding fill by simp_all
  obtain n where b: "uo_py_buffer x \<noteq> NULL" "uo_buf x = bytes_at (us_w s) (uo_py_buffer x)" "uo_buf x \<noteq> NULL"
    "storage (us_w s) (uo_py_buffer x) = Some n" "unat (uo_buf_size x) \<le> n"
    using mem_okD(3) [OF mem x(1)] code x(2) by (auto simp: buffer_ok_def)
  obtain bs where "mem (us_w s) (uo_buf x) = Some bs" "length bs = n" using b(2,4) by (auto simp: storage_def)
  moreover have "unat (ucast (uo_buf_size x) :: u32) \<le> unat (uo_buf_size x)"
    by (simp add: unsigned_ucast_eq take_bit_nat_less_eq_self)
  ultimately show thesis using that [OF x(1) [unfolded p_def] refl b(1), of bs] b addr len by simp
qed

lemma kernel_post_mem:
  fixes d :: "u8 list"
  assumes data: "data_ur self A s" and mem: "mem_ok self A s" and kernel: "us_kernel s = ks @ e # ls" and c: "ur_ctxs (us_w s) self = Some c"
    and post: "post_cqe \<lparr>cqe_user_data = sqe_user_data e, cqe_res = res\<rparr> c = Some c'"
  shows "mem_ok self A (s\<lparr>us_w := with_ctx self c' (kernel_writes e d (us_w s)), us_kernel := ks @ ls\<rparr>)"
proof (rule rings_mem [OF mem])
  note sq = post_frame [OF post]
  show "f \<in> set (sq_of self (with_ctx self c' (kernel_writes e d (us_w s)))) \<or> f \<in> set (ks @ ls) \<Longrightarrow>
      f \<in> set (sq_of self (us_w s)) \<or> f \<in> set (us_kernel s) \<or> (\<exists>p. f = cancel_sqe p)" for f
    using c kernel sq sq_cong [of c' c] by auto
  show "storage (with_ctx self c' (kernel_writes e d (us_w s))) q = storage (us_w s) q" for q
  proof (cases "sqe_opcode e = IORING_OP_READ")
    case False
    then show ?thesis by (simp add: kernel_writes_def storage_def)
  next
    case True
    then have op: "sqe_opcode e \<in> {IORING_OP_READ, IORING_OP_WRITE}" and mine: "e \<in> set (sq_of self (us_w s)) \<or> e \<in> set (us_kernel s)"
      using kernel by simp_all
    obtain bs where "mem (us_w s) (sqe_addr e) = Some bs" "unat (sqe_len e) \<le> length bs"
      using read_entry [OF mem mine op] by metis
    then show ?thesis using True by (simp add: kernel_writes_def storage_def store_bytes_def)
  qed
qed simp_all

lemma cancel_mem:
  assumes data: "data_ur self A s" and inv: "own_inv self A (own_ur self A s)" and mem: "mem_ok self A s" and user: "0 < us_user s self"
    and env: "\<And>v. snd (snd (ue_enter env 0 1 0 v)) = v" and run: "AIOContext_cancel_ur env self target (us_w s) = (r, w')"
  shows "mem_ok self A (s\<lparr>us_w := w'\<rparr>)"
proof -
  obtain c where c: "ur_ctxs (us_w s) self = Some c" "ctx_form c" by (rule ur_ctxD [OF data inv user])
  then have wf: "sq_wf c" by (simp add: ctx_form_def)
  have "w' = us_w s \<or> (\<exists>p c'. stage_sqe (cancel_sqe p) c = Some c' \<and> w' = with_ctx self c' (us_w s))"
    using run env by (cases target) (auto simp: AIOContext_cancel_ur_def [of _ _ None] cancel_ur_stages [OF c(1) wf] split: option.splits)
  then show ?thesis
  proof (elim disjE exE conjE)
    fix p c' assume stage: "stage_sqe (cancel_sqe p) c = Some c'" and w': "w' = with_ctx self c' (us_w s)"
    note sq = sq.push_accepted [OF wf stage]
    have "mem_ok self A (s\<lparr>us_w := w', us_kernel := us_kernel s\<rparr>)"
      by (rule rings_mem [OF mem]) (use c(1) sq in \<open>auto simp: w' storage_def\<close>)
    then show ?thesis by simp
  qed (use mem in simp)
qed

section \<open>Constructors\<close>

lemma mem_ok_user [simp]: "mem_ok self A (s\<lparr>us_w := w', us_user := u\<rparr>) = mem_ok self A (s\<lparr>us_w := w'\<rparr>)"
  by (simp add: mem_ok_def)

lemma mem_ok_with:
  "mem_ok self A (s\<lparr>us_w := w'\<rparr>) \<longleftrightarrow> runtime_ok w' \<and> refs_ok self A w' \<and> (\<forall>p x. ur_ops w' p = Some x \<longrightarrow> buffer_ok w' x) \<and>
     (\<forall>e\<in>set (sq_of self w') \<union> set (us_kernel s). entry_ok (ur_ops w') e)"
  by (simp add: mem_ok_def)

lemma entry_ok_other:
  "entry_ok ops e \<Longrightarrow> ops p = None \<Longrightarrow> entry_ok (ops(p \<mapsto> x)) e"
  by (auto simp: entry_ok_def split: if_splits)

lemma discarded_mem:
  assumes inv: "own_inv self A (own_ur self A s)" and mem: "mem_ok self A s"
    and p: "p \<in> A" "ur_ops (us_w s) p = None" and gone: "discarded p (us_w s) w'"
  shows "mem_ok self A (s\<lparr>us_w := w'\<rparr>)"
proof -
  have "(ur_ops (us_w s))(p := None) = ur_ops (us_w s)" using p(2) by (simp add: fun_upd_idem)
  moreover have "(refs (us_w s))(p := 0) = refs (us_w s)" using ur_absent [OF inv p] by (simp add: fun_upd_idem)
  ultimately have "mem_ok self A (s\<lparr>us_w := w', us_kernel := us_kernel s\<rparr>)"
    using gone by (intro rings_mem [OF mem]) (auto simp: discarded_def storage_def sq_of_def)
  then show ?thesis by simp
qed

lemma constructed_mem:
  assumes data: "data_ur self A s" and inv: "own_inv self A (own_ur self A s)" and mem: "mem_ok self A s"
    and p: "p \<in> A" "ur_ops (us_w s) p = None" and new: "constructed p x (us_w s) w'"
    and ok: "runtime_ok w'" "buffer_ok w' x"
    and refs: "\<And>q. q \<noteq> NULL \<Longrightarrow> q \<notin> insert self A \<Longrightarrow> refs (us_w s) q + of_bool (q = uo_py_buffer x) \<le> refs w' q"
    and old: "\<And>q. 0 < refs (us_w s) q \<Longrightarrow> q \<notin> insert self A \<Longrightarrow> bytes_at w' q = bytes_at (us_w s) q \<and> storage w' q = storage (us_w s) q"
  shows "mem_ok self A (s\<lparr>us_w := w'\<rparr>)"
  unfolding mem_ok_with
proof (intro conjI allI impI ballI)
  have fin: "finite A" using data by (simp add: data_ur_def layout_def)
  have w': "ur_ops w' = (ur_ops (us_w s))(p \<mapsto> x)" "ur_ctxs w' = ur_ctxs (us_w s)" "uo_callback x = NULL"
    using new by (simp_all add: constructed_def fresh_op_def)
  show "refs_ok self A w'"
    unfolding refs_ok_def
  proof (intro allI impI)
    fix q assume q: "q \<noteq> NULL" "q \<notin> insert self A"
    have "int (held A w' q) = int (held A (us_w s) q) + of_bool (q = uo_py_buffer x)"
      using held_upd [OF fin p(1) w'(1), of q] p(2) w'(3) q(1) by simp
    then show "int (held A w' q) \<le> refs w' q"
      using refs [OF q] mem_okD(2) [OF mem] q unfolding refs_ok_def by fastforce
  qed
  show "buffer_ok w' y" if "ur_ops w' r = Some y" for r y
  proof (cases "r = p")
    case True
    then show ?thesis using that w'(1) ok(2) by simp
  next
    case False
    then have y: "ur_ops (us_w s) r = Some y" using that w'(1) by simp
    then show ?thesis
      using old held_alive [OF data inv mem y] by (intro buffer_ok_cong [OF mem_okD(3) [OF mem y]]) blast
  qed
  show "entry_ok (ur_ops w') e" if "e \<in> set (sq_of self w') \<union> set (us_kernel s)" for e
    using that mem_okD(4) [OF mem, of e] p(2) by (auto simp: w' sq_of_def intro!: entry_ok_other)
qed (rule ok(1))

lemma read_mem:
  assumes data: "data_ur self A s" and inv: "own_inv self A (own_ur self A s)" and mem: "mem_ok self A s"
    and p: "p \<in> A" "ur_ops (us_w s) p = None" and new: "\<And>n fd off. parsed = Some (n, fd, off) \<Longrightarrow> new_bytes self A (us_w s) (unat n) bytes"
    and run: "AIOOperation_read_ur p parsed bytes (us_w s) = (r, w')"
  shows "mem_ok self A (s\<lparr>us_w := w'\<rparr>)"
proof -
  obtain obj block garbage where b: "bytes = (obj, block, garbage)" by (cases bytes)
  note a = addresses [OF data p(1)]
  have "parsed \<noteq> None \<longrightarrow> obj \<noteq> p" using new a(1) p(1) by (fastforce simp: new_bytes_def b)
  from read_effect [OF run [unfolded b] a(1) this] show ?thesis
  proof (elim disjE conjE exE)
    fix x n fd off
    assume "obj \<noteq> NULL" and some: "parsed = Some (n, fd, off)" and c: "constructed p x (us_w s) w'" "uo_py_buffer x = obj" "uo_buf x = block" "uo_buf_size x = n"
      and w': "refs w' = (refs (us_w s))(p := 1, obj := 1)" "bytes_at w' = (bytes_at (us_w s))(obj := block)"
        "mem w' = (mem (us_w s))(block \<mapsto> replicate (unat n) 0 @ drop (unat n) garbage)"
    then have obj: "obj \<notin> insert self A" "refs (us_w s) obj = 0" "block \<noteq> NULL" "mem (us_w s) block = None"
      "length garbage = unat n" "unat n < 2 ^ 63"
      using new [OF some] by (simp_all add: new_bytes_def b)
    then have "obj \<noteq> p" using p(1) by auto
    have other: "bytes_at (us_w s) q \<noteq> block" if "0 < refs (us_w s) q" for q
    proof
      assume eq: "bytes_at (us_w s) q = block"
      then have "storage (us_w s) q \<noteq> None" using mem_okD(1) [OF mem] that obj(3) unfolding runtime_ok_def by blast
      then show False using eq obj(4) by (simp add: storage_def)
    qed
    have sto: "storage w' obj = Some (unat n)" by (simp add: storage_def w' obj(5))
    have old: "q \<noteq> obj \<and> bytes_at w' q = bytes_at (us_w s) q \<and> storage w' q = storage (us_w s) q" if "0 < refs (us_w s) q" for q
      using that obj(2) other [OF that] by (auto simp: storage_def w')
    have live: "q = obj \<or> 0 < refs (us_w s) q \<or> bytes_at w' q = NULL" if "0 < refs w' q" for q
      using that a(2) \<open>obj \<noteq> p\<close> by (auto simp: w' split: if_splits)
    have "runtime_ok w'"
      unfolding runtime_ok_def
    proof (intro conjI allI impI)
      fix q assume "0 < refs w' q \<and> bytes_at w' q \<noteq> NULL"
      then show "\<exists>n < 2 ^ 63. storage w' q = Some n"
        using live [of q] old [of q] sto obj(6) mem_okD(1) [OF mem] unfolding runtime_ok_def by metis
    next
      fix q t assume qt: "0 < refs w' q \<and> 0 < refs w' t \<and> bytes_at w' q \<noteq> NULL \<and> bytes_at w' q = bytes_at w' t"
      have "bytes_at w' obj = block" by (simp add: w')
      then show "q = t"
        using qt live [of q] live [of t] old [of q] old [of t] other mem_okD(1) [OF mem] unfolding runtime_ok_def by metis
    qed
    moreover have "buffer_ok w' x" using \<open>obj \<noteq> NULL\<close> obj(3) sto by (auto simp: buffer_ok_def c w')
    ultimately show ?thesis
      using old obj \<open>obj \<noteq> p\<close> p(1) by (intro constructed_mem [OF data inv mem p c(1)]) (auto simp: c w')
  qed (rule discarded_mem [OF inv mem p])
qed

lemma write_mem:
  assumes data: "data_ur self A s" and inv: "own_inv self A (own_ur self A s)" and mem: "mem_ok self A s"
    and p: "p \<in> A" "ur_ops (us_w s) p = None" and live: "\<And>obj fd off. parsed = Some (obj, fd, off) \<Longrightarrow> obj \<noteq> NULL \<and> 0 < refs (us_w s) obj"
    and run: "AIOOperation_write_ur p parsed as_string (us_w s) = (r, w')"
  shows "mem_ok self A (s\<lparr>us_w := w'\<rparr>)"
proof -
  note a = addresses [OF data p(1)]
  from write_effect [OF run a(1,2)] show ?thesis
  proof (elim disjE conjE exE)
    fix x pb fd off
    assume some: "parsed = Some (pb, fd, off)" and c: "constructed p x (us_w s) w'" "uo_py_buffer x = pb" "bytes_at (us_w s) pb \<noteq> NULL"
      "uo_buf x = bytes_at (us_w s) pb" "uo_buf_size x = of_nat (length (the (mem (us_w s) (bytes_at (us_w s) pb))))"
      and w': "refs w' = (refs (us_w s))(p := 1, pb := refs (us_w s) pb + 1)" "bytes_at w' = bytes_at (us_w s)" "mem w' = mem (us_w s)"
    note pb = live [OF some]
    have sto: "storage w' q = storage (us_w s) q" for q by (simp add: storage_def w')
    obtain n where n: "n < 2 ^ 63" "storage (us_w s) pb = Some n"
      using mem_okD(1) [OF mem] pb c(3) unfolding runtime_ok_def by blast
    then have "uo_buf_size x = of_nat n" using c(5) by (auto simp: storage_def)
    then have size: "unat (uo_buf_size x) = n" using n(1) by (simp add: unsigned_of_nat take_bit_nat_eq_self)
    have "0 < refs w' q \<Longrightarrow> 0 < refs (us_w s) q \<or> bytes_at w' q = NULL" for q
      using pb a(2) by (auto simp: w' split: if_splits)
    then have "runtime_ok w'"
      using mem_okD(1) [OF mem] unfolding runtime_ok_def sto w'(2) by metis
    moreover have "pb \<notin> insert self A" using c(3) a(4) by auto
    moreover have "buffer_ok w' x" using pb c n size by (auto simp: buffer_ok_def w' sto)
    ultimately show ?thesis
      using p(1) by (intro constructed_mem [OF data inv mem p c(1)]) (auto simp: c(2) w' sto)
  qed (rule discarded_mem [OF inv mem p])
qed

lemma sync_mem:
  assumes data: "data_ur self A s" and inv: "own_inv self A (own_ur self A s)" and mem: "mem_ok self A s"
    and p: "p \<in> A" "ur_ops (us_w s) p = None" and code: "code \<in> {URING_FSYNC, URING_FDSYNC}"
    and run: "AIOOperation_sync_ur code p parsed (us_w s) = (r, w')"
  shows "mem_ok self A (s\<lparr>us_w := w'\<rparr>)"
proof -
  note a = addresses [OF data p(1)]
  from sync_effect [OF run a(1) code] show ?thesis
  proof (elim disjE conjE exE)
    fix x
    assume c: "constructed p x (us_w s) w'" "uo_py_buffer x = NULL" "uo_opcode x = code"
      and w': "refs w' = (refs (us_w s))(p := 1)" "bytes_at w' = bytes_at (us_w s)" "mem w' = mem (us_w s)"
    have sto: "storage w' q = storage (us_w s) q" for q by (simp add: storage_def w')
    have "0 < refs w' q \<Longrightarrow> 0 < refs (us_w s) q \<or> bytes_at w' q = NULL" for q
      using a(2) by (auto simp: w' split: if_splits)
    then have "runtime_ok w'"
      using mem_okD(1) [OF mem] unfolding runtime_ok_def sto w'(2) by metis
    moreover have "buffer_ok w' x" using code by (auto simp: buffer_ok_def c)
    ultimately show ?thesis
      using p(1) by (intro constructed_mem [OF data inv mem p c(1)]) (auto simp: c(2) w' sto)
  qed (rule discarded_mem [OF inv mem p])
qed

section \<open>Submitting and draining\<close>

lemma update_mem:
  assumes data: "data_ur self A s" and inv: "own_inv self A (own_ur self A s)" and mem: "mem_ok self A s"
    and ok: "runtime_ok w'" and refs: "\<And>q. q \<notin> insert self A \<Longrightarrow> refs (us_w s) q \<le> refs w' q"
    and keep: "\<And>q. bytes_at w' q = bytes_at (us_w s) q \<and> storage w' q = storage (us_w s) q"
    and same: "\<And>r. holds (ur_ops w' r) = holds (ur_ops (us_w s) r)"
    and bufs: "\<And>r y. ur_ops w' r = Some y \<Longrightarrow> \<exists>x. ur_ops (us_w s) r = Some x \<and> (buffer_ok (us_w s) x \<longrightarrow> buffer_ok (us_w s) y)"
    and entries: "\<And>e. e \<in> set (sq_of self w') \<union> set (us_kernel s) \<Longrightarrow> entry_ok (ur_ops w') e"
  shows "mem_ok self A (s\<lparr>us_w := w'\<rparr>)"
  unfolding mem_ok_with
proof (intro conjI allI impI ballI)
  have "held A w' = held A (us_w s)" using same by (simp add: held_def fun_eq_iff)
  then show "refs_ok self A w'" using mem_okD(2) [OF mem] refs unfolding refs_ok_def by (metis order_trans)
  show "buffer_ok w' y" if y: "ur_ops w' r = Some y" for r y
  proof -
    obtain x where "ur_ops (us_w s) r = Some x" "buffer_ok (us_w s) x \<longrightarrow> buffer_ok (us_w s) y" using bufs [OF y] by blast
    then have "buffer_ok (us_w s) y" using mem_okD(3) [OF mem] by blast
    then show ?thesis using keep by (rule buffer_ok_cong)
  qed
qed (use ok entries in auto)

lemma mem_ok_history [simp]:
  "mem_ok self A (s\<lparr>us_accepted := x\<rparr>) = mem_ok self A s"
  "mem_ok self A (s\<lparr>us_w := w', us_accepted := x\<rparr>) = mem_ok self A (s\<lparr>us_w := w'\<rparr>)"
  "mem_ok self A (s\<lparr>us_accepted := x, us_w := w'\<rparr>) = mem_ok self A (s\<lparr>us_w := w'\<rparr>)"
  by (simp_all add: mem_ok_def)

lemma claim_mem:
  assumes data: "data_ur self A s" and inv: "own_inv self A (own_ur self A s)" and mem: "mem_ok self A s" and user: "0 < us_user s self"
    and free: "free_ur (us_w s) p" and room: "ring_full self (us_w s) = None"
  shows "mem_ok self A (s\<lparr>us_w := claim_ur self p (us_w s)\<rparr>)"
proof -
  let ?w' = "claim_ur self p (us_w s)"
  obtain c where c: "ur_ctxs (us_w s) self = Some c"
    and rs: "refs (us_w s) self = int (us_user s self) + int (length (places self s))"
    by (rule ur_ctxD [OF data inv user])
  obtain x where x: "ur_ops (us_w s) p = Some x" "uo_in_progress x = 0" using free by (rule free_urE)
  note p = ur_opD [OF data inv x(1)]
  have undone: "uo_done x = 0" using p(5) x(2) by (auto simp: op_form_def)
  let ?x = "x\<lparr>uo_in_progress := 1, uo_context := self\<rparr>"
  have w': "ur_ops ?w' = (ur_ops (us_w s))(p \<mapsto> ?x)" "refs ?w' = (refs (us_w s))(p := refs (us_w s) p + 1, self := refs (us_w s) self + 1)"
    "bytes_at ?w' = bytes_at (us_w s)" "mem ?w' = mem (us_w s)"
    using x(1) by (simp_all add: claim_ur_def op_ur_def)
  have sq: "sq_of self ?w' = sq_of self (us_w s) @ [fst (fill_sqe p x)]"
  proof -
    note step = claim_ur_step(1,2) [OF data_ready [OF data inv user] free room]
    obtain c' where "ur_ctxs ?w' self = Some c'" using step(1) by (auto simp: ready_ur_def)
    then show ?thesis using step(2) c x(1) by (simp add: ctx_ur_def op_ur_def)
  qed
  show ?thesis
  proof (rule update_mem [OF data inv mem])
    show "runtime_ok ?w'"
      by (rule runtime_ok_cong [OF mem_okD(1) [OF mem]])
        (use p(6) rs user in \<open>auto simp: w' storage_def split: if_splits\<close>)
    show "refs (us_w s) q \<le> refs ?w' q" for q by (simp add: w')
    show "bytes_at ?w' q = bytes_at (us_w s) q \<and> storage ?w' q = storage (us_w s) q" for q by (simp add: w' storage_def)
    show "holds (ur_ops ?w' r) = holds (ur_ops (us_w s) r)" for r using x(1) by (auto simp: w' fun_eq_iff)
    show "\<exists>x. ur_ops (us_w s) r = Some x \<and> (buffer_ok (us_w s) x \<longrightarrow> buffer_ok (us_w s) y)" if "ur_ops ?w' r = Some y" for r y
      using that x(1) by (auto simp: w' buffer_ok_def split: if_splits)
    show "entry_ok (ur_ops ?w') e" if e: "e \<in> set (sq_of self ?w') \<union> set (us_kernel s)" for e
    proof (cases "e = fst (fill_sqe p x)")
      case True
      then show ?thesis using p(4) undone by (simp add: entry_ok_def w')
    next
      case False
      then have "entry_ok (ur_ops (us_w s)) e" using e sq mem_okD(4) [OF mem, of e] by auto
      then show ?thesis using x by (auto simp: entry_ok_def w' split: if_splits)
    qed
  qed
qed

lemma submit_mem:
  assumes data: "data_ur self A s" and inv: "own_inv self A (own_ur self A s)" and mem: "mem_ok self A s" and user: "0 < us_user s self"
    and run: "AIOContext_submit_ur self args (us_w s) = (r, w')"
  shows "mem_ok self A (s\<lparr>us_w := w'\<rparr>)"
proof -
  obtain c where c: "ur_ctxs (us_w s) self = Some c" "ctx_form c" "ctx_ur (us_w s) self = c"
    by (rule ur_ctxD [OF data inv user])
  then have fd: "uc_uring_fd (ctx_ur (us_w s) self) \<ge> 0" by (simp add: ctx_form_def)
  show ?thesis
  proof (cases "\<exists>ps. args = Some ps \<and> (\<forall>p\<in>set ps. ur_ops (us_w s) p \<noteq> None)")
    case False
    then have "w' = us_w s" using run fd wrong_type_None [of "ur_ops (us_w s)" 0]
      by (auto simp: AIOContext_submit_ur_def split: option.splits if_splits)
    then show ?thesis using mem by simp
  next
    case True
    then obtain ps where ps: "args = Some ps" "\<forall>p\<in>set ps. ur_ops (us_w s) p \<noteq> None" by blast
    obtain r' cs v where loop: "claim_loop free_ur (ring_full self) (claim_ur self) ps (us_w s) = (r', cs, v)"
      and v: "w' = v"
      using submit_ur_loop [OF data_ready [OF data inv user] fd ps(2)] ps(1) run by (metis snd_conv)
    define P where "P w \<longleftrightarrow> (\<exists>acc. let t = s\<lparr>us_w := w, us_accepted := acc\<rparr> in
        data_ur self A t \<and> own_inv self A (own_ur self A t) \<and> mem_ok self A t)" for w
    have "P v"
    proof (rule claim_loop_keeps [OF loop])
      have "s\<lparr>us_w := us_w s, us_accepted := us_accepted s\<rparr> = s" by simp
      then show "P (us_w s)" using data inv mem unfolding P_def Let_def by metis
      fix w p assume "P w" and free: "free_ur w p" "ring_full self w = None"
      then obtain acc where t: "data_ur self A (s\<lparr>us_w := w, us_accepted := acc\<rparr>)"
        "own_inv self A (own_ur self A (s\<lparr>us_w := w, us_accepted := acc\<rparr>))" "mem_ok self A (s\<lparr>us_w := w, us_accepted := acc\<rparr>)"
        by (auto simp: P_def Let_def)
      show "P (claim_ur self p w)"
        unfolding P_def Let_def
        using claim_refines [OF t(1,2), of p] claim_mem [OF t, of p] own_inv_steps [OF _ t(2)] free user
        by (intro exI [of _ "acc @ [p]"]) simp
    qed
    then show ?thesis by (auto simp: P_def Let_def v)
  qed
qed

lemma scanned_mem:
  assumes data: "data_ur self A s" and inv: "own_inv self A (own_ur self A s)" and mem: "mem_ok self A s" and user: "0 < us_user s self"
  shows "mem_ok self A (s\<lparr>us_w := before_callbacks self limit (us_w s)\<rparr>)"
proof (rule update_mem [OF data inv mem])
  let ?w = "us_w s" and ?w1 = "before_callbacks self limit (us_w s)" and ?ops = "drained_ops self limit (us_w s)"
  obtain c where c: "ur_ctxs ?w self = Some c" "ctx_form c" by (rule ur_ctxD [OF data inv user])
  obtain c' where c': "ur_ctxs ?w1 self = Some c'" "sq_list c' = sq_list c" by (rule scanned_form [OF c(2,1)])
  note d = data_drained [OF data inv user, of limit] and fr = before_callbacks_frame [of self limit ?w]
  have sto: "storage ?w1 q = storage ?w q" for q by (simp add: storage_def fr)
  show "runtime_ok ?w1"
    by (rule runtime_ok_cong [OF mem_okD(1) [OF mem]]) (use d(3) in \<open>auto simp: fr sto batch_ok_def split: if_splits\<close>)
  show "refs ?w q \<le> refs ?w1 q" if "q \<notin> insert self A" for q using that by (simp add: fr)
  show "bytes_at ?w1 q = bytes_at ?w q \<and> storage ?w1 q = storage ?w q" for q by (simp add: fr sto)
  show "holds (ur_ops ?w1 r) = holds (ur_ops ?w r)" for r
    by (cases "ur_ops ?w r") (auto simp: fr fun_eq_iff split: option.split)
  show "\<exists>x. ur_ops ?w r = Some x \<and> (buffer_ok ?w x \<longrightarrow> buffer_ok ?w y)" if "ur_ops ?w1 r = Some y" for r y
    using that by (auto simp: fr buffer_ok_def split: option.splits)
  show "entry_ok (ur_ops ?w1) e" if e: "e \<in> set (sq_of self ?w1) \<union> set (us_kernel s)" for e
  proof (cases "sqe_user_data e = CANCEL_USER_DATA")
    case True
    then show ?thesis using e c c' mem_okD(4) [OF mem, of e] by (auto simp: entry_ok_def)
  next
    case False
    have "sqe_user_data e \<in> set (requested (sq_of self ?w) @ requested (us_kernel s) @ posted (cq_pending self ?w1))"
      using e False c c' by (auto simp: requested_def)
    then have "sqe_user_data e \<notin> set (map fst ?ops)"
      using d(2) distinct_places [OF inv] by (metis distinct_append disjoint_iff mset_append mset_eq_imp_distinct_iff)
    then have "ur_ops ?w1 (sqe_user_data e) = ur_ops ?w (sqe_user_data e)"
      by (simp add: fr map_of_eq_None_iff [THEN iffD2])
    then show ?thesis using e c c' mem_okD(4) [OF mem, of e] by (auto simp: entry_ok_def)
  qed
qed

section \<open>Callbacks and references\<close>

lemma set_callback_mem:
  assumes data: "data_ur self A s" and inv: "own_inv self A (own_ur self A s)" and mem: "mem_ok self A s"
    and x: "ur_ops (us_w s) p \<noteq> None" and cb: "callable \<Longrightarrow> cb \<notin> insert self A \<and> 0 < refs (us_w s) cb"
    and run: "AIOOperation_set_callback_ur p cb callable (us_w s) = (r, w')"
  shows "mem_ok self A (s\<lparr>us_w := w'\<rparr>)"
proof (cases callable)
  case False
  then have "w' = us_w s" using run by (simp add: AIOOperation_set_callback_ur_def)
  then show ?thesis using mem by simp
next
  case True
  from x obtain x where x: "ur_ops (us_w s) p = Some x" by auto
  note p = ur_opD [OF data inv x]
  have fin: "finite A" using data by (simp add: data_ur_def layout_def)
  let ?x = "x\<lparr>uo_callback := cb\<rparr>"
  define v where "v = upd_op_ur p (\<lambda>x. x\<lparr>uo_callback := cb\<rparr>) (Py_INCREF cb (us_w s))"
  have v: "ur_ops v = (ur_ops (us_w s))(p \<mapsto> ?x)" "ur_ctxs v = ur_ctxs (us_w s)" "refs v = (refs (us_w s))(cb := refs (us_w s) cb + 1)"
    "bytes_at v = bytes_at (us_w s)" "mem v = mem (us_w s)"
    using x by (simp_all add: v_def rt_simps)
  have w': "w' = Py_XDECREF (uo_callback x) v"
    using run True x by (simp add: AIOOperation_set_callback_ur_def v_def op_ur_def)
  have "runtime_ok v"
    by (rule runtime_ok_cong [OF mem_okD(1) [OF mem]]) (use cb [OF True] in \<open>auto simp: v storage_def split: if_splits\<close>)
  moreover have "uo_callback x \<noteq> NULL \<Longrightarrow> 0 < refs v (uo_callback x)"
    using held_alive(1) [OF data inv mem x] cb [OF True] by (auto simp: v)
  ultimately have surv: "survives v w'" unfolding w' by (rule xdecref_survives)
  have rw: "refs w' q = refs (us_w s) q + of_bool (q = cb) - of_bool (q = uo_callback x \<and> q \<noteq> NULL)" for q
    by (simp add: w' py_xdecref_frame v)
  have refs: "refs_ok self A w'"
    unfolding refs_ok_def
  proof (intro allI impI)
    fix q assume q: "q \<noteq> NULL" "q \<notin> insert self A"
    have "held A w' q + of_bool (q = uo_callback x) = held A (us_w s) q + of_bool (q = cb)"
      using held_upd [OF fin p(1), of w' "us_w s" "Some ?x" q] x by (simp add: w' v)
    then have "int (held A w' q) = int (held A (us_w s) q) + of_bool (q = cb) - of_bool (q = uo_callback x)"
      by (cases "q = cb"; cases "q = uo_callback x") simp_all
    then show "int (held A w' q) \<le> refs w' q"
      using mem_okD(2) [OF mem] q unfolding refs_ok_def rw by fastforce
  qed
  show ?thesis
    unfolding mem_ok_with
  proof (intro conjI allI impI ballI)
    show "runtime_ok w'" using surv by (simp add: survives_def)
    show "buffer_ok w' y" if y: "ur_ops w' r = Some y" for r y
    proof -
      have "buffer_ok (us_w s) ?x" if "buffer_ok (us_w s) x" using that by (auto simp: buffer_ok_def)
      then have yo: "buffer_ok (us_w s) y"
        using y mem_okD(3) [OF mem] x by (auto simp: w' v split: if_splits)
      have "0 < refs w' (uo_py_buffer y)" if "uo_py_buffer y \<noteq> NULL"
      proof -
        obtain z where z: "ur_ops (us_w s) r = Some z" "uo_py_buffer z = uo_py_buffer y"
          using y x by (auto simp: w' v split: if_splits)
        note r = ur_opD(1,5) [OF data inv z(1)]
        have "0 < held A w' (uo_py_buffer y)" using held_pos [OF fin r(1) y] by blast
        moreover have "uo_py_buffer y \<notin> insert self A" using r(2) z(2) by (simp add: op_form_def)
        ultimately show ?thesis using refs that unfolding refs_ok_def by fastforce
      qed
      then show ?thesis using surv by (intro buffer_ok_cong [OF yo]) (auto simp: survives_def v storage_def)
    qed
    show "entry_ok (ur_ops w') e" if "e \<in> set (sq_of self w') \<union> set (us_kernel s)" for e
    proof -
      have "sq_of self w' = sq_of self (us_w s)" by (simp add: sq_of_def w' v)
      then have "entry_ok (ur_ops (us_w s)) e" using that mem_okD(4) [OF mem, of e] by auto
      moreover have "fill_sqe q ?x = fill_sqe q x" for q by (simp add: fill_sqe_def Let_def)
      ultimately show ?thesis using x by (auto simp: entry_ok_def w' v split: if_splits)
    qed
  qed (rule refs)
qed

lemma call_mem:
  fixes verdict :: "ptr \<Rightarrow> pyval \<Rightarrow> bool"
  assumes data: "data_ur self A s" and inv: "own_inv self A (own_ur self A s)" and mem: "mem_ok self A s"
    and batch: "us_batch s = ((p, res), False) # rest"
  shows "mem_ok self A (s\<lparr>us_w := run_callback (\<lambda>cb v w. (verdict cb v, w)) (uo_callback (op_ur (us_w s) p)) v (us_w s)\<rparr>)"
proof -
  have "p \<in># ow_batch (own_ur self A s)" using batch by (simp add: own_ur_sel)
  from in_batch_alive(1) [OF inv this] obtain x where x: "ur_ops (us_w s) p = Some x" by (auto simp: own_ur_def)
  let ?w' = "run_callback (\<lambda>cb v w. (verdict cb v, w)) (uo_callback (op_ur (us_w s) p)) v (us_w s)"
  have "uo_callback (op_ur (us_w s) p) \<noteq> NULL \<Longrightarrow> 0 < refs (us_w s) (uo_callback (op_ur (us_w s) p))"
    using held_alive(1) [OF data inv mem x] x by (simp add: op_ur_def)
  from run_callback_closed [OF this] have w': "?w' = (us_w s)\<lparr>trace := trace (us_w s) @
      callback_events verdict (uo_callback (op_ur (us_w s) p)) v\<rparr>" by blast
  have "mem_ok self A (s\<lparr>us_w := ?w', us_kernel := us_kernel s\<rparr>)"
    unfolding w' by (rule rings_mem [OF mem]) (auto simp: storage_def sq_of_def)
  then show ?thesis by simp
qed

text \<open>The death of an Operation gives up its callback and its buffer, nothing else.\<close>

lemma py_xdecref_mem:
  "mem (Py_XDECREF p w) = (if p \<noteq> NULL \<and> refs w p = 1 \<and> bytes_at w p \<noteq> NULL then (mem w)(bytes_at w p := None) else mem w)"
  by (simp add: Py_XDECREF_def Py_DECREF_def decref_with_def py_dealloc_def rt_simps Let_def)

text \<open>Two states that agree on references, bytes objects and memory.\<close>

definition same_rt :: "ur_world \<Rightarrow> ur_world \<Rightarrow> bool" where
  "same_rt v w \<longleftrightarrow> refs v = refs w \<and> bytes_at v = bytes_at w \<and> mem v = mem w"

lemma same_rt_steps:
  "same_rt w w" "same_rt v w \<Longrightarrow> same_rt (emit e v) w" "same_rt v w \<Longrightarrow> same_rt (upd_op_ur p f v) w"
  "same_rt v w \<Longrightarrow> same_rt (v\<lparr>ur_ops := o'\<rparr>) w" "same_rt v w \<Longrightarrow> same_rt (Py_XDECREF q v) (Py_XDECREF q w)"
  by (simp_all add: same_rt_def rt_simps fun_eq_iff py_xdecref_frame py_xdecref_mem)

lemma survives_cong:
  assumes "survives w v" and same: "same_rt v' v"
  shows "survives w v'"
proof -
  have eq: "refs v' = refs v" "bytes_at v' = bytes_at v" "mem v' = mem v" using same by (simp_all add: same_rt_def)
  show ?thesis using assms(1) unfolding survives_def runtime_ok_def storage_def eq .
qed

lemma clear_op_eq:
  assumes "ur_ops w p = Some x" and "uo_context x = NULL"
  shows "AIOOperation_clear_ur p w = Py_XDECREF (uo_py_buffer x) (upd_op_ur p (\<lambda>x. x\<lparr>uo_py_buffer := NULL\<rparr>)
    (upd_op_ur p (\<lambda>x. x\<lparr>uo_context := NULL\<rparr>) (Py_XDECREF (uo_callback x) (upd_op_ur p (\<lambda>x. x\<lparr>uo_callback := NULL\<rparr>) w))))"
  using assms by (simp add: AIOOperation_clear_ur_def clear_context_ur_def op_ur_def Let_def)

lemma decref_survives:
  assumes ok: "runtime_ok w" and x: "ur_ops w p = Some x" "uo_context x = NULL" and p: "bytes_at w p = NULL" "0 < refs w p"
    and live: "\<And>q. q \<noteq> NULL \<Longrightarrow> int (holds (Some x) q) \<le> refs w q" and ne: "p \<noteq> uo_callback x" "p \<noteq> uo_py_buffer x"
  shows "survives w (decref_op_ur p w)"
proof (cases "refs w p = 1")
  case False
  have "runtime_ok (w\<lparr>refs := (refs w)(p := refs w p - 1)\<rparr>)"
    by (rule runtime_ok_cong [OF ok]) (use p in \<open>auto simp: storage_def split: if_splits\<close>)
  then show ?thesis using False by (simp add: decref_op_alive survives_def storage_def)
next
  case True
  let ?v = "w\<lparr>refs := (refs w)(p := 0)\<rparr>" and ?cb = "uo_callback x" and ?pb = "uo_py_buffer x"
  let ?u = "Py_XDECREF ?cb ?v"
  have "runtime_ok ?v" by (rule runtime_ok_cong [OF ok]) (auto simp: storage_def split: if_splits)
  moreover have "?cb \<noteq> NULL \<Longrightarrow> 0 < refs ?v ?cb" using live [of ?cb] ne by (auto simp: of_bool_def split: if_splits)
  ultimately have one: "survives ?v ?u" by (rule xdecref_survives)
  have "?pb \<noteq> NULL \<Longrightarrow> 0 < refs ?u ?pb"
    using live [of ?pb] ne by (cases "?cb = ?pb") (auto simp: py_xdecref_frame)
  then have two: "survives ?u (Py_XDECREF ?pb ?u)" using one by (intro xdecref_survives) (auto simp: survives_def)
  have "survives ?v (Py_XDECREF ?pb ?u)"
    by (rule survives_trans [OF one two]) (simp add: py_xdecref_frame)
  then have "survives w (Py_XDECREF ?pb ?u)"
    by (auto simp: survives_def storage_def)
  moreover have "same_rt (decref_op_ur p w) (Py_XDECREF ?pb ?u)"
  proof -
    define v where "v = (if uo_weakreflist (op_ur ?v p) \<noteq> NULL then emit (Ev_ClearWeakRefs p) ?v else ?v)"
    have v: "same_rt v ?v" "ur_ops v p = Some x" using x(1) by (simp_all add: v_def same_rt_steps)
    have "decref_op_ur p w = AIOOperation_dealloc_ur p ?v" using True by (simp add: decref_op_ur_def decref_last)
    also have "\<dots> = emit (Ev_Dealloc p) ((AIOOperation_clear_ur p v)\<lparr>ur_ops := (ur_ops (AIOOperation_clear_ur p v))(p := None)\<rparr>)"
      by (simp add: AIOOperation_dealloc_ur_def v_def Let_def)
    finally show ?thesis unfolding clear_op_eq [OF v(2) x(2)] using v(1) by (simp only: same_rt_steps)
  qed
  ultimately show ?thesis by (rule survives_cong)
qed

lemma decref_op_mem:
  assumes data: "data_ur self A s" and inv: "own_inv self A (own_ur self A s)" and mem: "mem_ok self A s"
    and x: "ur_ops (us_w s) p = Some x" and idle: "refs (us_w s) p = 1 \<Longrightarrow> phase_ur x \<noteq> Flight"
  shows "mem_ok self A (s\<lparr>us_w := decref_op_ur p (us_w s)\<rparr>)"
proof (cases "refs (us_w s) p = 1")
  case False
  note p = ur_opD [OF data inv x]
  have eq: "decref_op_ur p (us_w s) = (us_w s)\<lparr>refs := (refs (us_w s))(p := refs (us_w s) p - 1)\<rparr>" by (rule decref_op_alive [OF False])
  show ?thesis
    unfolding eq
  proof (rule update_mem [OF data inv mem])
    show "runtime_ok ((us_w s)\<lparr>refs := (refs (us_w s))(p := refs (us_w s) p - 1)\<rparr>)"
      by (rule runtime_ok_cong [OF mem_okD(1) [OF mem]]) (use p(6) in \<open>auto simp: storage_def split: if_splits\<close>)
  qed (use mem_okD(4) [OF mem] p(1) in \<open>auto simp: storage_def sq_of_def\<close>)
next
  case True
  note p = ur_opD [OF data inv x]
  have fin: "finite A" using data by (simp add: data_ur_def layout_def)
  have form: "uo_context x = NULL" "uo_callback x \<notin> insert self A" "uo_py_buffer x \<notin> insert self A" "phase_ur x \<noteq> Flight"
    using p(5) idle [OF True] by (auto simp: op_form_def phase_ur_def)
  let ?w' = "decref_op_ur p (us_w s)"
  note d = decref_op_frame [OF x form(1)]
  have ops: "ur_ops ?w' = (ur_ops (us_w s))(p := None)" using d(1) True by simp
  have held: "held A ?w' q + holds (Some x) q = held A (us_w s) q" for q
    using held_upd [OF fin p(1) ops, of q] x by simp
  have foreign: "holds (Some x) q = 0" if "q \<in> insert self A" for q using form that by auto
  have live: "int (holds (Some x) q) \<le> refs (us_w s) q" if "q \<noteq> NULL" for q
  proof (cases "q \<in> insert self A")
    case True
    then show ?thesis using foreign own_invD(3) [OF inv, of q] own_invD(2) [OF inv]
      by (cases "q = self") (auto simp: own_ur_def counted_def)
  next
    case False
    then have "int (held A (us_w s) q) \<le> refs (us_w s) q" using mem_okD(2) [OF mem] that unfolding refs_ok_def by blast
    then show ?thesis using held [of q] by linarith
  qed
  have surv: "survives (us_w s) ?w'"
    using form p(1) by (intro decref_survives [OF mem_okD(1) [OF mem] x form(1) p(8,6) live]) auto
  have refs: "refs_ok self A ?w'"
    unfolding refs_ok_def
  proof (intro allI impI)
    fix q assume q: "q \<noteq> NULL" "q \<notin> insert self A"
    then have "refs ?w' q = refs (us_w s) q - int (holds (Some x) q)" using d(4) [of q] True p(1) by auto
    moreover have "int (held A (us_w s) q) \<le> refs (us_w s) q" using mem_okD(2) [OF mem] q unfolding refs_ok_def by blast
    ultimately show "int (held A ?w' q) \<le> refs ?w' q" using held [of q] by linarith
  qed
  show ?thesis
    unfolding mem_ok_with
  proof (intro conjI allI impI ballI)
    show "runtime_ok ?w'" using surv by (simp add: survives_def)
    show "buffer_ok ?w' y" if y: "ur_ops ?w' r = Some y" for r y
    proof -
      have old: "ur_ops (us_w s) r = Some y" using y ops by (auto split: if_splits)
      note r = ur_opD(1,5) [OF data inv old]
      have "0 < refs ?w' (uo_py_buffer y)" if "uo_py_buffer y \<noteq> NULL"
        using held_pos [OF fin r(1) y, of "uo_py_buffer y"] refs r(2) that unfolding refs_ok_def op_form_def by fastforce
      then show ?thesis using surv by (intro buffer_ok_cong [OF mem_okD(3) [OF mem old]]) (auto simp: survives_def)
    qed
    show "entry_ok (ur_ops ?w') e" if e: "e \<in> set (sq_of self ?w') \<union> set (us_kernel s)" for e
    proof -
      have ok: "entry_ok (ur_ops (us_w s)) e" using e mem_okD(4) [OF mem, of e] d(2) by (auto simp: sq_of_def)
      have "sqe_user_data e \<noteq> CANCEL_USER_DATA \<Longrightarrow> sqe_user_data e \<noteq> p"
      proof
        assume "sqe_user_data e \<noteq> CANCEL_USER_DATA" "sqe_user_data e = p"
        then have "phase_ur x = Flight" using ok x by (auto simp: entry_ok_def phase_ur_def)
        then show False using form(4) by simp
      qed
      then show ?thesis using ok ops by (auto simp: entry_ok_def)
    qed
  qed (rule refs)
qed

lemma quiet_mem:
  assumes data: "data_ur self A s" and inv: "own_inv self A (own_ur self A s)" and mem: "mem_ok self A s"
    and "runtime_ok w'" "ur_ops w' = ur_ops (us_w s)" "set (sq_of self w') \<subseteq> set (sq_of self (us_w s))" "refs_ok self A w'"
    and keep: "\<And>q. q \<noteq> NULL \<Longrightarrow> 0 < held A (us_w s) q \<Longrightarrow> bytes_at w' q = bytes_at (us_w s) q \<and> storage w' q = storage (us_w s) q"
  shows "mem_ok self A (s\<lparr>us_w := w'\<rparr>)"
  unfolding mem_ok_with
proof (intro conjI allI impI ballI)
  show "buffer_ok w' x" if "ur_ops w' p = Some x" for p x
  proof -
    have x: "ur_ops (us_w s) p = Some x" using that assms(5) by simp
    have "finite A" using data by (simp add: data_ur_def layout_def)
    from held_pos [OF this ur_opD(1) [OF data inv x] x, of "uo_py_buffer x"] keep
    show ?thesis by (intro buffer_ok_cong [OF mem_okD(3) [OF mem x]]) blast
  qed
  show "entry_ok (ur_ops w') e" if "e \<in> set (sq_of self w') \<union> set (us_kernel s)" for e
    using that assms(5,6) mem_okD(4) [OF mem, of e] by auto
qed (use assms in auto)

lemma drop_context_mem:
  assumes data: "data_ur self A s" and inv: "own_inv self A (own_ur self A s)" and mem: "mem_ok self A s" and user: "0 < us_user s self"
  shows "mem_ok self A (s\<lparr>us_w := decref_ctx_ur self (us_w s)\<rparr>)"
proof (rule quiet_mem [OF data inv mem])
  have sto: "storage (decref_ctx_ur self (us_w s)) q = storage (us_w s) q" for q by (simp add: storage_def decref_ctx_frame)
  show "runtime_ok (decref_ctx_ur self (us_w s))"
    by (rule runtime_ok_cong [OF mem_okD(1) [OF mem]]) (auto simp: decref_ctx_frame sto split: if_splits)
  show "set (sq_of self (decref_ctx_ur self (us_w s))) \<subseteq> set (sq_of self (us_w s))"
    by (simp add: sq_of_def decref_ctx_frame)
  show "refs_ok self A (decref_ctx_ur self (us_w s))"
    using mem_okD(2) [OF mem] by (auto simp: refs_ok_def decref_ctx_frame held_def)
qed (simp_all add: decref_ctx_frame storage_def)

lemma share_mem:
  assumes data: "data_ur self A s" and inv: "own_inv self A (own_ur self A s)" and mem: "mem_ok self A s"
    and p: "p \<in> insert self A"
  shows "mem_ok self A (s\<lparr>us_w := Py_INCREF p (us_w s)\<rparr>)"
proof (rule quiet_mem [OF data inv mem])
  have null: "bytes_at (us_w s) p = NULL" using data p by (auto simp: data_ur_def)
  have "0 < refs (Py_INCREF p (us_w s)) q \<Longrightarrow> 0 < refs (us_w s) q \<or> bytes_at (us_w s) q = NULL" for q
    using null by (auto simp: rt_simps split: if_splits)
  then show "runtime_ok (Py_INCREF p (us_w s))"
    using mem_okD(1) [OF mem] unfolding runtime_ok_def storage_def incref_frame by metis
  show "refs_ok self A (Py_INCREF p (us_w s))"
    using mem_okD(2) [OF mem] p by (auto simp: refs_ok_def rt_simps held_def)
qed (simp_all add: rt_simps storage_def sq_of_def)

lemma program_mem:
  assumes data: "data_ur self A s" and inv: "own_inv self A (own_ur self A s)" and mem: "mem_ok self A s"
    and "program_step self A (us_w s) w'"
  shows "mem_ok self A (s\<lparr>us_w := w'\<rparr>)"
  using assms(4) by (intro quiet_mem [OF data inv mem]) (auto simp: program_step_def refs_ok_def held_def sq_of_def)

section \<open>Every step\<close>

lemma mem_ok_ghost [simp]:
  "mem_ok self A (s\<lparr>us_batch := b\<rparr>) = mem_ok self A s" "mem_ok self A (s\<lparr>us_completed := x\<rparr>) = mem_ok self A s"
  "mem_ok self A (s\<lparr>us_called := x\<rparr>) = mem_ok self A s" "mem_ok self A (s\<lparr>us_user := u\<rparr>) = mem_ok self A s"
  by (simp_all add: mem_ok_def)

lemma ur_step_mem:
  assumes "ur_step self A s s'" and data: "data_ur self A s" and inv: "own_inv self A (own_ur self A s)" and mem: "mem_ok self A s"
  shows "mem_ok self A s'"
  using assms(1)
proof cases
  case (new_read p parsed bytes r w')
  from read_mem [OF data inv mem new_read(2-5)] show ?thesis by (simp add: new_read(1))
next
  case (new_write p parsed as_string r w')
  from write_mem [OF data inv mem new_write(2-5)] show ?thesis by (simp add: new_write(1))
next
  case (new_sync p code parsed_fd r w')
  from sync_mem [OF data inv mem new_sync(2-5)] show ?thesis by (simp add: new_sync(1))
next
  case (set_callback p callable cb r w')
  from set_callback_mem [OF data inv mem set_callback(2-4)] show ?thesis by (simp add: set_callback(1))
next
  case (submit args r w')
  from submit_mem [OF data inv mem submit(2,3)] show ?thesis by (simp add: submit(1))
next
  case (cancel env target r w')
  from cancel_mem [OF data inv mem cancel(2-4)] show ?thesis by (simp add: cancel(1))
next
  case (kernel_take c sqe c')
  from kernel_take_mem [OF data mem kernel_take(2,3)] show ?thesis by (simp add: kernel_take(1))
next
  case (kernel_post ks sqe ls c res c' d)
  from kernel_post_mem [OF data mem kernel_post(2-4), of d] show ?thesis by (simp add: kernel_post(1))
next
  case (scan q limit head batch w')
  from scanned_mem [OF data inv mem scan(2)] show ?thesis
    unfolding scan(1) scan_is_scanned(1) [OF data inv scan(2,3,4)] scanned_def by simp
next
  case (call p res rest verdict)
  from call_mem [OF data inv mem call(2)] show ?thesis by (simp add: call(1))
next
  case (release p res rest)
  have "p \<in># ow_batch (own_ur self A s)" using release(2) by (simp add: own_ur_sel)
  from in_batch_alive(1) [OF inv this] obtain x where "ur_ops (us_w s) p = Some x" "phase_ur x = Done"
    by (auto simp: own_ur_def)
  from decref_op_mem [OF data inv mem this(1)] this(2) show ?thesis by (simp add: release(1))
next
  case (drop p)
  have acc: "counted True (map_option phase_ur (ur_ops (us_w s) p)) (refs (us_w s) p) (us_user s p)
      (count (mset (places self s)) p) (count (mset (map (fst \<circ> fst) (us_batch s))) p)"
    using own_invD(3) [OF inv, of p] drop(2) by (simp add: own_ur_def)
  then obtain x where x: "ur_ops (us_w s) p = Some x" using drop(3) by (auto simp: counted_def)
  have "phase_ur x \<noteq> Flight" if "refs (us_w s) p = 1" using acc x drop(3) that by (auto simp: counted_def)
  from decref_op_mem [OF data inv mem x this] show ?thesis by (simp add: drop(1))
next
  case drop_context
  from drop_context_mem [OF data inv mem drop_context(2)] show ?thesis by (simp add: drop_context(1))
next
  case (share p)
  from share_mem [OF data inv mem share(2)] show ?thesis by (simp add: share(1))
next
  case (program w')
  from program_mem [OF data inv mem program(2)] show ?thesis by (simp add: program(1))
qed

lemma ur_start_mem: "ur_start self A s \<Longrightarrow> mem_ok self A s"
proof (induction rule: ur_start.induct)
  case (1 ie parsed c n w)
  let ?w = "w\<lparr>refs := (refs w)(self := int n), ur_ops := Map.empty, ur_ctxs := [self \<mapsto> c]\<rparr>"
  have "0 < refs ?w q \<Longrightarrow> 0 < refs w q \<or> bytes_at w q = NULL" for q using 1(7) by (auto split: if_splits)
  then have "runtime_ok ?w" by (intro runtime_ok_null [OF 1(8)]) (simp_all add: storage_def)
  then show ?case using 1 init_form(2) [OF 1(2,3)] by (auto simp: mem_ok_def refs_ok_def held_def sq_of_def)
qed

lemma ur_reaches_mem:
  assumes "ur_reaches self A s"
  shows "mem_ok self A s"
proof -
  obtain s0 where start: "ur_start self A s0" and run: "(ur_step self A)\<^sup>*\<^sup>* s0 s" using assms by (auto simp: ur_reaches_def)
  from run show ?thesis
  proof (induction rule: rtranclp_induct)
    case base
    show ?case by (rule ur_start_mem [OF start])
  next
    case (step t u)
    then show ?case using ur_step_mem uring_sys.reachable_owned [OF start] by blast
  qed
qed

end
