(* ===== verification/Uring_Claims.thy ===== *)
theory Uring_Claims
  imports Uring_Submit
begin

text \<open>
  Further properties of the io_uring backend: the submission ring under any interleaving,
  handing entries to the kernel, cancelling, waiting with a deadline, the results of reads,
  a Context that is not initialised, and what initialisation opens and deallocation closes.
\<close>

section \<open>The submission ring\<close>

text \<open>
  C18. The submission ring refines a bounded queue. Whatever the interleaving of staging an
  entry and of the kernel taking the oldest, across the wrap of the 32-bit counters and with
  or without the index array, no entry is lost, duplicated or reordered, and the ring never
  holds more than its capacity.
\<close>

theorem ur_ring_fifo:
  assumes "sq_wf c" and "fifo_run stage_sqe consume_sqe ops c = (acc, del, c')"
  shows "sq_wf c' \<and> sq_list c @ acc = del @ sq_list c' \<and> length (sq_list c') \<le> sq_capacity c"
  using sq.run_conserves [OF assms] sq.run_bounded [OF assms] by simp

theorem ur_ring_fifo_witness:
  "\<exists>acc del c'. fifo_run stage_sqe consume_sqe [Push (cancel_sqe 2), Push (cancel_sqe 3), Pop, Push zero_sqe] ex_ctx_ur =
     (acc, del, c') \<and> acc = del @ sq_list c' \<and> length (sq_list c') \<le> 4"
proof -
  obtain acc del c' where run: "fifo_run stage_sqe consume_sqe [Push (cancel_sqe 2), Push (cancel_sqe 3), Pop, Push zero_sqe] ex_ctx_ur =
     (acc, del, c')" by (metis prod_cases3)
  from ur_ring_fifo [OF ex_ctx_wf(1) run] run show ?thesis by (simp add: ex_ctx_wf)
qed

section \<open>Handing entries to the kernel\<close>

lemma flush_loop_done [simp]: "flush_loop env n 0 w = Some (None, w)"
  by (subst flush_loop.simps) simp

text \<open>
  A kernel that makes progress: every call takes at least one of the entries it is offered,
  the oldest first, or fails and takes none.
\<close>

definition takes_or_fails :: "ur_env \<Rightarrow> ptr \<Rightarrow> bool" where
  "takes_or_fails env self \<longleftrightarrow> (\<forall>n m w. 0 < m \<and> ur_ctxs w self \<noteq> None \<longrightarrow>
     (\<exists>ret e w'. ue_enter env n m 0 w = (ret, e, w') \<and> ur_ctxs w' self \<noteq> None \<and>
        (ret < 0 \<and> sq_list (ctx_ur w' self) = sq_list (ctx_ur w self) \<or>
         0 < ret \<and> ret \<le> uint m \<and> sq_list (ctx_ur w' self) = drop (nat ret) (sq_list (ctx_ur w self)))))"

text \<open>
  \<open>hands_over env self n m w ds n' m' w'\<close>: the calls \<open>n\<close>, \<open>n + 1\<close>, \dots, before \<open>n'\<close> of
  \<^verbatim>\<open>io_uring_enter\<close>, one after the other from the state \<open>w\<close> to the state \<open>w'\<close>, each
  offering all that is pending, took the batches \<open>ds\<close> out of the ring, of \<open>m\<close> entries in the
  beginning and \<open>m'\<close> in the end.
\<close>

inductive hands_over :: "ur_env \<Rightarrow> ptr \<Rightarrow> nat \<Rightarrow> u32 \<Rightarrow> ur_world \<Rightarrow> io_uring_sqe list list
    \<Rightarrow> nat \<Rightarrow> u32 \<Rightarrow> ur_world \<Rightarrow> bool" for env self where
  no_call: "hands_over env self n m w [] n m w"
| call: "m \<noteq> 0 \<Longrightarrow> ue_enter env n m 0 w = (int (length d), e, w1) \<Longrightarrow> d \<noteq> [] \<Longrightarrow>
    sq_list (ctx_ur w self) = d @ sq_list (ctx_ur w1 self) \<Longrightarrow>
    hands_over env self (Suc n) (m - of_nat (length d)) w1 ds n' m' w' \<Longrightarrow>
    hands_over env self n m w (d # ds) n' m' w'"

lemma hands_over_list:
  "hands_over env self n m w ds n' m' w' \<Longrightarrow>
     sq_list (ctx_ur w self) = concat ds @ sq_list (ctx_ur w' self)"
  by (induction rule: hands_over.induct) simp_all

lemma flush_loop_step:
  "remaining \<noteq> 0 \<Longrightarrow> ue_enter env n remaining 0 w = (ret, e, w1) \<Longrightarrow> flush_loop env n remaining w =
     (if ret < 0 then Some (Some (PyErr_SetFromErrno PyExc_SystemError e), w1)
      else flush_loop env (Suc n) (remaining - word_of_int ret) w1)"
  by (subst flush_loop.simps) simp

text \<open>How the loop ends: everything taken, or a call that failed.\<close>

definition flush_ends :: "ur_env \<Rightarrow> nat \<Rightarrow> u32 \<Rightarrow> ur_world \<Rightarrow> (pyexc option \<times> ur_world) option \<Rightarrow> bool" where
  "flush_ends env n m w r \<longleftrightarrow> (if m = 0 then r = Some (None, w)
     else \<exists>ret e w1. ue_enter env n m 0 w = (ret, e, w1) \<and> ret < 0 \<and>
            r = Some (Some (PyErr_SetFromErrno PyExc_SystemError e), w1))"

lemma flush_loop_progress:
  assumes kernel: "takes_or_fails env self" and "ur_ctxs w self \<noteq> None"
    and "length (sq_list (ctx_ur w self)) = unat remaining"
  shows "\<exists>ds n' m' w'. hands_over env self n remaining w ds n' m' w' \<and>
     length (sq_list (ctx_ur w' self)) = unat m' \<and> flush_ends env n' m' w' (flush_loop env n remaining w)"
  using assms(2,3)
proof (induction "unat remaining" arbitrary: n remaining w rule: less_induct)
  case less
  show ?case
  proof (cases "remaining = 0")
    case True
    then have "flush_ends env n remaining w (flush_loop env n remaining w)" by (simp add: flush_ends_def)
    then show ?thesis using less.prems(2) no_call by blast
  next
    case False
    then have "0 < remaining" by (simp add: word_gt_0)
    with kernel less.prems(1) obtain ret e w1 where call: "ue_enter env n remaining 0 w = (ret, e, w1)"
      and alive: "ur_ctxs w1 self \<noteq> None"
      and took: "ret < 0 \<or> 0 < ret \<and> ret \<le> uint remaining \<and>
        sq_list (ctx_ur w1 self) = drop (nat ret) (sq_list (ctx_ur w self))"
      unfolding takes_or_fails_def by blast
    note loop = flush_loop_step [OF False call]
    show ?thesis
    proof (cases "ret < 0")
      case True
      then have "flush_ends env n remaining w (flush_loop env n remaining w)"
        using False call by (simp add: flush_ends_def loop)
      then show ?thesis using less.prems(2) no_call by blast
    next
      case neg: False
      define d where "d = take (nat ret) (sq_list (ctx_ur w self))"
      have pos: "0 < ret" "ret \<le> uint remaining"
        and list: "sq_list (ctx_ur w1 self) = drop (nat ret) (sq_list (ctx_ur w self))"
        using took neg by simp_all
      have "nat ret \<le> unat remaining" using pos(2) by (simp only: unat_eq_nat_uint nat_mono)
      then have len: "length d = nat ret" using less.prems(2) by (simp add: d_def)
      have "unat (of_nat (nat ret) :: u32) = nat ret"
        using \<open>nat ret \<le> unat remaining\<close> unat_lt32 [of remaining]
        by (simp only: unsigned_of_nat) (simp add: take_bit_nat_eq_self)
      moreover from this have "(of_nat (nat ret) :: u32) \<le> remaining"
        using \<open>nat ret \<le> unat remaining\<close> by (simp only: word_le_nat_alt)
      ultimately have dec: "unat (remaining - of_nat (nat ret)) = unat remaining - nat ret"
        by (simp only: unat_sub)
      have word: "(word_of_int ret :: u32) = of_nat (nat ret)" by (rule of_nat_nat [symmetric]) (use pos(1) in simp)
      have "length (sq_list (ctx_ur w1 self)) = unat (remaining - of_nat (nat ret))"
        unfolding dec using list less.prems(2) by simp
      moreover have "unat (remaining - of_nat (nat ret)) < unat remaining"
        unfolding dec using pos(1) \<open>nat ret \<le> unat remaining\<close> by simp
      ultimately obtain ds n' m' w' where ds: "hands_over env self (Suc n) (remaining - of_nat (nat ret)) w1 ds n' m' w'"
        and rest: "length (sq_list (ctx_ur w' self)) = unat m'"
        and ends: "flush_ends env n' m' w' (flush_loop env (Suc n) (remaining - of_nat (nat ret)) w1)"
        using less.hyps alive by blast
      have "d \<noteq> []" using len pos(1) by auto
      moreover have "ue_enter env n remaining 0 w = (int (length d), e, w1)" using call pos(1) by (simp add: len)
      moreover have "sq_list (ctx_ur w self) = d @ sq_list (ctx_ur w1 self)" by (simp add: list d_def)
      ultimately have "hands_over env self n remaining w (d # ds) n' m' w'"
        using ds by (intro hands_over.call [OF False]) (simp_all only: len not_False_eq_True)
      moreover have "flush_ends env n' m' w' (flush_loop env n remaining w)"
        using ends neg by (simp only: loop word if_False)
      ultimately show ?thesis using rest by blast
    qed
  qed
qed

text \<open>
  C19. \<^verbatim>\<open>Context.flush\<close> of a Context without a polling thread (\<open>uc_sqpoll = 0\<close>) always ends, if
  every \<^verbatim>\<open>io_uring_enter\<close> takes at least one of the entries it is offered, oldest first, or
  fails. An empty ring needs no call. Otherwise successive calls hand over batches \<open>ds\<close>; the
  batches one after the other, followed by what is left in the ring, are the entries that
  were pending, in their order. Either nothing is left, however few entries the kernel took
  each time, and the drain begins in the state that the last call left; or a call failed, its
  error is raised and the entries not yet handed over are still in the ring. (What callbacks
  submit during the drain is pending again afterwards. With a polling thread \<^verbatim>\<open>flush\<close> only
  wakes it, and the thread takes the entries by itself.)
\<close>

theorem ur_flush_hands_over_all:
  assumes "ur_ctxs w self = Some c" and "uc_uring_fd c \<ge> 0" and "uc_sqpoll c = 0" and "uc_sq c = Some q"
    and "takes_or_fails env self"
  shows "\<exists>ds n m w'. hands_over env self 0 (sq_tail q - sq_head q) w ds n m w' \<and>
     sq_list c = concat ds @ sq_list (ctx_ur w' self) \<and>
     (if sq_list c = [] then AIOContext_flush_ur env self w = Some (Ret (PyLong 0), w)
      else sq_list (ctx_ur w' self) = [] \<and>
          AIOContext_flush_ur env self w = Some (drain_result (uring_drain_cq env self UINT32_MAX w')) \<or>
        (\<exists>ret e w''. ue_enter env n m 0 w' = (ret, e, w'') \<and> ret < 0 \<and>
          AIOContext_flush_ur env self w = Some (Raise (PyErr_SetFromErrno PyExc_SystemError e), w'')))"
proof -
  let ?m = "sq_tail q - sq_head q"
  have ctx: "ctx_ur w self = c" by (simp add: ctx_ur_def assms(1))
  have len: "length (sq_list (ctx_ur w self)) = unat ?m" using sq_list_length [OF assms(4)] ctx by simp
  obtain ds n m w' where over: "hands_over env self 0 ?m w ds n m w'"
    and left: "length (sq_list (ctx_ur w' self)) = unat m" and ends: "flush_ends env n m w' (flush_loop env 0 ?m w)"
    using flush_loop_progress [OF assms(5) _ len] assms(1) by blast
  have list: "sq_list c = concat ds @ sq_list (ctx_ur w' self)" using hands_over_list [OF over] ctx by simp
  have empty: "sq_list c = [] \<longleftrightarrow> ?m = 0" using len ctx by (metis length_0_conv unat_eq_0)
  have flush: "AIOContext_flush_ur env self w = (if ?m = 0 then Some (Ret (PyLong 0), w)
      else (case flush_loop env 0 ?m w of None \<Rightarrow> None
         | Some (Some e, w) \<Rightarrow> Some (Raise e, w)
         | Some (None, w) \<Rightarrow> Some (drain_result (uring_drain_cq env self UINT32_MAX w))))"
    using assms(2-4) by (simp add: AIOContext_flush_ur_def ctx)
  show ?thesis
  proof (cases "m = 0")
    case True
    then have "sq_list (ctx_ur w' self) = []" and "flush_loop env 0 ?m w = Some (None, w')"
      using left ends by (simp_all add: flush_ends_def)
    then show ?thesis unfolding flush empty using list [unfolded empty]
      by (intro exI [of _ ds] exI [of _ n] exI [of _ m] exI [of _ w'] conjI over) simp_all
  next
    case False
    then obtain ret e w'' where "ue_enter env n m 0 w' = (ret, e, w'')" "ret < 0"
      and "flush_loop env 0 ?m w = Some (Some (PyErr_SetFromErrno PyExc_SystemError e), w'')"
      using ends by (auto simp: flush_ends_def)
    then show ?thesis unfolding flush empty using list
      by (intro exI [of _ ds] exI [of _ n] exI [of _ m] exI [of _ w'] conjI over) simp_all
  qed
qed

text \<open>An example kernel that takes one entry per call, and a ring with one pending.\<close>

definition take_one :: "ur_world \<Rightarrow> ur_world" where
  "take_one = upd_ctx_ur 1 (\<lambda>c. case consume_sqe c of None \<Rightarrow> c | Some (_, c') \<Rightarrow> c')"

definition ex_kernel :: ur_env where
  "ex_kernel = ex_env_ur\<lparr>ue_enter := (\<lambda>_ m _ w. (1, 0, take_one w))\<rparr>"

definition ex_pending :: ur_world where
  "ex_pending = upd_ctx_ur 1 (\<lambda>c. the (stage_sqe (cancel_sqe 9) c)) ex_new"

lemma ex_kernel_takes: "takes_or_fails ex_kernel 1"
  unfolding takes_or_fails_def
proof (intro allI impI)
  fix n :: nat and m :: u32 and w :: ur_world
  assume m: "0 < m \<and> ur_ctxs w 1 \<noteq> None"
  then obtain c where c: "ur_ctxs w 1 = Some c" by blast
  let ?c = "case consume_sqe c of None \<Rightarrow> c | Some (_, c') \<Rightarrow> c'"
  have "sq_list ?c = drop 1 (sq_list c)"
  proof (cases "uc_sq c")
    case None
    then show ?thesis by (simp add: consume_sqe_def sq_list_def)
  next
    case (Some q)
    show ?thesis
    proof (cases "sq_head q = sq_tail q")
      case True
      then show ?thesis using Some by (simp add: consume_sqe_def sq_list_def)
    next
      case False
      then show ?thesis using sq_list_consume [OF Some False] Some by (simp add: consume_sqe_def)
    qed
  qed
  moreover have "ur_ctxs (take_one w) 1 = Some ?c" using c by (simp add: take_one_def)
  moreover have "1 \<le> uint m" using m by (simp add: word_less_def int_one_le_iff_zero_less)
  ultimately show "\<exists>ret e w'. ue_enter ex_kernel n m 0 w = (ret, e, w') \<and> ur_ctxs w' 1 \<noteq> None \<and>
      (ret < 0 \<and> sq_list (ctx_ur w' 1) = sq_list (ctx_ur w 1) \<or>
       0 < ret \<and> ret \<le> uint m \<and> sq_list (ctx_ur w' 1) = drop (nat ret) (sq_list (ctx_ur w 1)))"
    using c by (intro exI [of _ 1] exI [of _ 0] exI [of _ "take_one w"]) (simp add: ex_kernel_def ctx_ur_def)
qed

lemma ex_pending_ctx:
  obtains c q where "ur_ctxs ex_pending 1 = Some c" "sq_wf c" "sq_list c = [cancel_sqe 9]" "sq_capacity c = 4"
    "uc_uring_fd c = 7" "uc_sqpoll c = 0" "uc_sq c = Some q"
proof -
  have room: "\<not> sq_tail ex_sq - sq_head ex_sq \<ge> sq_ring_entries ex_sq" and q: "uc_sq ex_ctx_ur = Some ex_sq"
    by (simp_all add: ex_sq_def ex_ctx_ur_def)
  from stage_closed [OF ex_ctx_wf(1) q room, of "cancel_sqe 9"] obtain c where c: "stage_sqe (cancel_sqe 9) ex_ctx_ur = Some c"
    "sq_wf c" "sq_list c = [cancel_sqe 9]" "sq_capacity c = 4" "c\<lparr>uc_sq := uc_sq ex_ctx_ur, uc_sqes := uc_sqes ex_ctx_ur\<rparr> = ex_ctx_ur"
    by (auto simp: ex_ctx_wf)
  have "uc_uring_fd c = uc_uring_fd ex_ctx_ur" "uc_sqpoll c = uc_sqpoll ex_ctx_ur"
    using arg_cong [OF c(5), of uc_uring_fd] arg_cong [OF c(5), of uc_sqpoll] by simp_all
  moreover obtain q' where "uc_sq c = Some q'" using c(2) by (auto simp: sq_wf_def)
  ultimately show thesis
    using c by (intro that [of c q']) (simp_all add: ex_pending_def ex_new_ctx, simp_all add: ex_ctx_ur_def new_ctx_ur_def)
qed

theorem ur_flush_hands_over_all_witness:
  "\<exists>ds n m k w'. hands_over ex_kernel 1 0 k ex_pending ds n m w' \<and> concat ds = [cancel_sqe 9] \<and>
     sq_list (ctx_ur w' 1) = [] \<and> AIOContext_flush_ur ex_kernel 1 ex_pending =
     Some (drain_result (uring_drain_cq ex_kernel 1 UINT32_MAX w'))"
proof -
  obtain c q where c: "ur_ctxs ex_pending 1 = Some c" "sq_list c = [cancel_sqe 9]" "uc_uring_fd c = 7" "uc_sqpoll c = 0" "uc_sq c = Some q"
    by (rule ex_pending_ctx)
  have fd: "0 \<le> uc_uring_fd c" and ne: "sq_list c \<noteq> []" using c(2,3) by simp_all
  have never: "ue_enter ex_kernel n m 0 w' = (ret, e, w'') \<Longrightarrow> \<not> ret < 0" for n m w' ret e w''
    by (simp add: ex_kernel_def)
  from ur_flush_hands_over_all [OF c(1) fd c(4,5) ex_kernel_takes] obtain ds n m w' where
    "hands_over ex_kernel 1 0 (sq_tail q - sq_head q) ex_pending ds n m w'"
    and "sq_list c = concat ds @ sq_list (ctx_ur w' 1)" and "sq_list (ctx_ur w' 1) = []"
    and "AIOContext_flush_ur ex_kernel 1 ex_pending = Some (drain_result (uring_drain_cq ex_kernel 1 UINT32_MAX w'))"
    unfolding if_not_P [OF ne] by (elim exE conjE disjE) (auto dest: never)
  then show ?thesis using c(2) by (metis append_Nil2)
qed

text \<open>
  Without that progress \<^verbatim>\<open>flush\<close> hangs: while the kernel answers every call with 0, the
  loop does not end, and the interpreter lock is not released in it.
\<close>

theorem ur_flush_stuck:
  assumes "ur_ctxs w self = Some c" and "uc_uring_fd c \<ge> 0" and "uc_sqpoll c = 0" and "uc_sq c = Some q"
    and "sq_list c \<noteq> []" and "\<And>n m w. fst (ue_enter env n m 0 w) = 0"
  shows "AIOContext_flush_ur env self w = None"
proof -
  have stuck: "flush_loop e n remaining v = Some y \<Longrightarrow> remaining = 0 \<or> e \<noteq> env" for e n remaining v y
  proof (erule flush_loop.raw_induct [where P = "\<lambda>e n remaining v y. remaining = 0 \<or> e \<noteq> env", rotated])
    fix loop e n v y and remaining :: u32
    assume ih: "\<And>e n remaining v y. loop e n remaining v = Some y \<Longrightarrow> remaining = 0 \<or> e \<noteq> env"
      and run: "(if remaining = 0 then Some (None, v)
         else let (ret, errno, w) = ue_enter e n remaining 0 v in
           if ret < 0 then Some (Some (PyErr_SetFromErrno PyExc_SystemError errno), w)
           else loop e (Suc n) (remaining - word_of_int ret) w) = Some y"
    obtain err v' where "ue_enter env n remaining 0 v = (0, err, v')" using assms(6) by (metis prod.collapse)
    then have "loop env (Suc n) remaining v' = Some y" if "remaining \<noteq> 0" "e = env" using run that by simp
    then show "remaining = 0 \<or> e \<noteq> env" using ih by blast
  qed
  have ctx: "ctx_ur w self = c" by (simp add: ctx_ur_def assms(1))
  have "sq_tail q - sq_head q \<noteq> 0" using sq_list_length [OF assms(4)] assms(5) by auto
  then have "flush_loop env 0 (sq_tail q - sq_head q) w = None" using stuck by (metis option.exhaust)
  then show ?thesis using assms(2-4) \<open>sq_tail q - sq_head q \<noteq> 0\<close> by (simp add: AIOContext_flush_ur_def ctx)
qed

theorem ur_flush_stuck_witness:
  "AIOContext_flush_ur (ex_env_ur\<lparr>ue_enter := (\<lambda>_ _ _ w. (0, 0, w))\<rparr>) 1 ex_pending = None"
proof -
  obtain c q where c: "ur_ctxs ex_pending 1 = Some c" "sq_list c = [cancel_sqe 9]" "uc_uring_fd c = 7" "uc_sqpoll c = 0" "uc_sq c = Some q"
    by (rule ex_pending_ctx)
  then show ?thesis using ur_flush_stuck [OF c(1) _ c(4,5)] by simp
qed

section \<open>Cancelling\<close>

text \<open>
  \<^verbatim>\<open>Context.cancel\<close> on a ring with room stages its entry at the end, behind whatever
  \<^verbatim>\<open>submit\<close> left pending, and lets the kernel take one entry: the oldest. So the request
  reaches the kernel in this call only if nothing else was pending; otherwise it stays in
  the ring and an earlier operation is started instead. It returns 0 in every case, also
  when the system call failed.
\<close>

theorem ur_cancel_submits_oldest:
  assumes "ur_ctxs w self = Some c" and "sq_wf c" and "length (sq_list c) < sq_capacity c"
    and "\<And>v. ue_enter env 0 1 0 v = (ret, errno, if ret = 1 then upd_ctx_ur self (\<lambda>c. snd (the (consume_sqe c))) v else v)"
  shows "\<exists>w' taken. AIOContext_cancel_ur env self (Some op) w = (Ret (PyLong 0), w') \<and>
     taken @ sq_list (ctx_ur w' self) = sq_list c @ [cancel_sqe op] \<and> length taken = (if ret = 1 then 1 else 0) \<and>
     (sq_list c \<noteq> [] \<longrightarrow> last (sq_list (ctx_ur w' self)) = cancel_sqe op \<and> sq_list (ctx_ur w' self) \<noteq> [])"
proof -
  obtain c1 where c1: "stage_sqe (cancel_sqe op) c = Some c1"
    using sq.push_refused [OF assms(2), of "cancel_sqe op"] assms(3) by auto
  have wf1: "sq_wf c1" and list1: "sq_list c1 = sq_list c @ [cancel_sqe op]"
    using sq.push_accepted [OF assms(2) c1] by simp_all
  let ?v = "w\<lparr>ur_ctxs := (ur_ctxs w)(self \<mapsto> c1)\<rparr>"
  have run: "AIOContext_cancel_ur env self (Some op) w =
      (Ret (PyLong 0), if ret = 1 then upd_ctx_ur self (\<lambda>c. snd (the (consume_sqe c))) ?v else ?v)"
    by (simp add: cancel_ur_stages [OF assms(1,2)] c1 assms(4))
  show ?thesis
  proof (cases "ret = 1")
    case False
    then show ?thesis using run list1
      by (intro exI [of _ ?v] exI [of _ "[] :: io_uring_sqe list"]) (simp add: ctx_ur_def)
  next
    case True
    obtain s c2 where c2: "consume_sqe c1 = Some (s, c2)" using sq.pop_nothing [OF wf1] list1 by force
    have list: "sq_list c1 = s # sq_list c2" using sq.pop_delivered [OF wf1 c2] by simp
    let ?w' = "upd_ctx_ur self (\<lambda>c. snd (the (consume_sqe c))) ?v"
    have "sq_list (ctx_ur ?w' self) = sq_list c2" by (simp add: ctx_ur_def c2)
    moreover have "sq_list c2 = tl (sq_list c) @ [cancel_sqe op]" if "sq_list c \<noteq> []"
      using that list list1 by (cases "sq_list c") auto
    ultimately show ?thesis using run True list1 list
      by (intro exI [of _ ?w'] exI [of _ "[s]"]) auto
  qed
qed

theorem ur_cancel_submits_oldest_witness:
  "\<exists>w'. AIOContext_cancel_ur (ex_env_ur\<lparr>ue_enter := (\<lambda>_ _ _ v. (1, 0, upd_ctx_ur 1 (\<lambda>c. snd (the (consume_sqe c))) v))\<rparr>) 1 (Some 2) ex_pending =
     (Ret (PyLong 0), w') \<and> sq_list (ctx_ur w' 1) = [cancel_sqe 2]"
proof -
  obtain c q where c: "ur_ctxs ex_pending 1 = Some c" "sq_wf c" "sq_list c = [cancel_sqe 9]" "sq_capacity c = 4"
    by (rule ex_pending_ctx)
  let ?env = "ex_env_ur\<lparr>ue_enter := (\<lambda>_ _ _ v. (1, 0, upd_ctx_ur 1 (\<lambda>c. snd (the (consume_sqe c))) v))\<rparr>"
  have "ue_enter ?env 0 1 0 v = (1, 0, if (1::int) = 1 then upd_ctx_ur 1 (\<lambda>c. snd (the (consume_sqe c))) v else v)" for v
    by simp
  from ur_cancel_submits_oldest [OF c(1,2) _ this] c obtain w' taken where
    "AIOContext_cancel_ur ?env 1 (Some 2) ex_pending = (Ret (PyLong 0), w')"
    "taken @ sq_list (ctx_ur w' 1) = [cancel_sqe 9, cancel_sqe 2]" "length taken = 1"
    by (simp only: append.simps list.size if_True) fastforce
  then show ?thesis by (cases taken) auto
qed

section \<open>A Context that is not initialised\<close>

text \<open>
  On a Context whose \<^verbatim>\<open>__init__\<close> has not run, \<^verbatim>\<open>submit\<close> and \<^verbatim>\<open>flush\<close> raise, but \<^verbatim>\<open>cancel\<close>
  and \<^verbatim>\<open>process_events\<close> with default arguments read through a null pointer. Deallocating it
  closes and unmaps nothing.
\<close>

theorem ur_uninitialised:
  assumes "ur_ctxs w self = Some new_ctx_ur"
  shows "AIOContext_submit_ur self args w = (Raise (PyErr_SetString PyExc_RuntimeError ''context not initialized''), w) \<and>
     AIOContext_flush_ur env self w = Some (Raise (PyErr_SetString PyExc_RuntimeError ''context not initialized''), w) \<and>
     AIOContext_cancel_ur env self (Some op) w = (Crash, w) \<and>
     AIOContext_process_events_ur env self (Some (0, 0, 0)) w = Some (Crash, w) \<and>
     trace (AIOContext_dealloc_ur self w) = trace w @ [Ev_Dealloc self]"
  using assms by (simp add: AIOContext_submit_ur_def AIOContext_flush_ur_def AIOContext_cancel_ur_def
      AIOContext_process_events_ur_def AIOContext_dealloc_ur_def uring_drain_cq_def drain_result_def ctx_ur_def
      new_ctx_ur_def rt_simps)

theorem ur_uninitialised_witness:
  "fst (AIOContext_cancel_ur ex_env_ur 7 (Some 2) (AIOContext_new_ur 7 ex_new)) = Crash"
proof -
  have "ur_ctxs (AIOContext_new_ur 7 ex_new) 7 = Some new_ctx_ur" by (simp add: AIOContext_new_ur_def)
  from ur_uninitialised [OF this] show ?thesis by simp
qed

section \<open>Waiting\<close>

lemma wait_loop_ends:
  assumes "remaining_ms d (ue_now env (Suc N)) \<le> 0" and "n \<le> N"
  shows "\<exists>r. wait_loop env self k (Some d) n w = Some r"
  using assms(2)
proof (induction "N - n" arbitrary: n w rule: less_induct)
  case less
  obtain ret errno w1 where enter: "ue_enter env n 0 IORING_ENTER_GETEVENTS w = (ret, errno, w1)" by (metis prod_cases3)
  have last: "poll_timeout_ms (Some d) (ue_now env (Suc n)) = None" if "n = N"
    using assms(1) that by (simp add: poll_timeout_ms_def)
  have again: "\<exists>r. wait_loop env self k (Some d) (Suc n) w' = Some r" if "n \<noteq> N" for w'
    using less.prems that by (intro less.hyps) simp_all
  show ?case
  proof (cases "poll_timeout_ms (Some d) (ue_now env (Suc n))")
    case None
    then show ?thesis by (subst wait_loop.simps) (simp add: enter split: option.split)
  next
    case (Some ms)
    obtain pret perrno w2 where poll: "ue_poll env n ms w1 = (pret, perrno, w2)" by (metis prod_cases3)
    have "n \<noteq> N" using last Some by auto
    then obtain r where "wait_loop env self k (Some d) (Suc n) w2 = Some r" using again by blast
    then show ?thesis by (subst wait_loop.simps) (simp add: enter Some poll split: option.split)
  qed
qed

text \<open>
  C20. \<^verbatim>\<open>process_events\<close> with a positive timeout returns, whatever the kernel does, if the
  monotonic clock reaches the deadline: at the latest in the iteration whose clock reading
  is past it. Interrupted system calls and wakeups without completions only repeat the loop.
\<close>

theorem ur_wait_bounded:
  assumes "tv > 0" and "remaining_ms (fst (ue_now env 0) + tv, snd (ue_now env 0)) (ue_now env (Suc N)) \<le> 0"
  shows "AIOContext_process_events_ur env self (Some (m, k, tv)) w \<noteq> None"
proof -
  obtain r w' where "wait_loop env self k (Some (fst (ue_now env 0) + tv, snd (ue_now env 0))) 0 w = Some (r, w')"
    using wait_loop_ends [OF assms(2), of 0 self k w] by auto
  then show ?thesis
    using assms(1) by (cases r) (simp_all add: AIOContext_process_events_ur_def Let_def)
qed

theorem ur_wait_bounded_witness:
  "AIOContext_process_events_ur (ex_env_ur\<lparr>ue_now := (\<lambda>n. (int n, 0))\<rparr>) 1 (Some (8, 4, 2)) ex_ur \<noteq> None"
proof -
  have "remaining_ms (fst (0 :: int, 0 :: int) + 2, 0) (int (Suc 1), 0) \<le> 0" by (simp add: remaining_ms_def c_div_def)
  then show ?thesis using ur_wait_bounded [of 2 "ex_env_ur\<lparr>ue_now := (\<lambda>n. (int n, 0))\<rparr>" 1] by simp
qed

text \<open>
  The timeout handed to \<^verbatim>\<open>poll\<close> is a positive int, so it never means to wait for ever
  while there is a deadline; it is within a millisecond of the time left, or the largest
  int when more is left than fits. The loop gives up when less than a millisecond is left.
\<close>

theorem ur_poll_timeout:
  fixes d now :: "int \<times> int"
  defines "left \<equiv> (fst d - fst now) * 1000000000 + (snd d - snd now)"
  shows "case poll_timeout_ms (Some d) now of None \<Rightarrow> left < 1000000
     | Some t \<Rightarrow> 0 < t \<and> t \<le> 2147483647 \<and> t * 1000000 < left + 1000000 \<and>
         (t = 2147483647 \<or> left < (t + 1) * 1000000)"
proof -
  have "\<bar>(snd d - snd now) - c_div (snd d - snd now) 1000000 * 1000000\<bar> < 1000000" by (rule c_div_bounds) simp
  then have "\<bar>left - remaining_ms d now * 1000000\<bar> < 1000000"
    by (simp add: left_def remaining_ms_def algebra_simps)
  then show ?thesis by (auto simp: poll_timeout_ms_def Let_def abs_less_iff)
qed

section \<open>Results\<close>

text \<open>
  C21. Results round trip of a read. When the kernel has written \<open>data\<close> at the start of the
  buffer and the completion entry says so, \<^verbatim>\<open>get_value\<close> afterwards gives exactly \<open>data\<close>: the
  bytes object made by \<^verbatim>\<open>read\<close> itself, without a copy, if the whole buffer was filled, and
  a copy of the prefix otherwise. When the entry carries an error number it raises that
  error, and before completion it raises because the operation is in flight.
\<close>

theorem ur_read_result:
  assumes "ur_ops w p = Some x" and "uo_context x = self" and "self \<noteq> NULL" and "1 < refs w self"
    and "uo_in_progress x = 1" and "uo_done x = 0" and "uo_error x = 0" and "uo_opcode x = URING_READ"
    and "uo_py_buffer x = obj" and "obj \<noteq> NULL" and "bytes_at w obj = uo_buf x"
    and "mem w (uo_buf x) = Some (data @ rest)" and "length data < 2 ^ 31" and "length (data @ rest) < 2 ^ 63"
    and "0 < e" and "e < 2 ^ 31"
  shows "fst (AIOOperation_get_value_ur p w) =
       Raise (PyErr_SetString PyExc_RuntimeError ''get_value() is not available while the operation is in flight'') \<and>
     (let w' = complete_cqe p (of_nat (length data)) w; v = fst (AIOOperation_get_value_ur p w') in
        if rest = [] then v = Ret (PyObj obj) \<and> stored obj w' = data else v = Ret (PyBytes data)) \<and>
     fst (AIOOperation_get_value_ur p (complete_cqe p (- of_nat e) w)) = Raise (PyErr_Format PyExc_SystemError ''strerror'' [int e])"
proof (intro conjI)
  note closed = complete_cqe_closed [OF assms(1-4)]
  show "fst (AIOOperation_get_value_ur p w) =
       Raise (PyErr_SetString PyExc_RuntimeError ''get_value() is not available while the operation is in flight'')"
    using assms(1,5,6) by (simp add: AIOOperation_get_value_ur_def op_ur_def)
  define w' where "w' = complete_cqe p (of_nat (length data)) w"
  have op: "op_ur w' p = completed_op_ur (of_nat (length data)) x" by (simp add: w'_def closed op_ur_def)
  have mem: "mem w' = mem w" "bytes_at w' = bytes_at w" by (simp_all add: w'_def closed)
  have st: "stored obj w' = data @ rest" using assms(11,12) by (simp add: stored_def mem)
  have res: "sint (of_nat (length data) :: u32) = int (length data)"
    using assms(13) by (simp add: signed_of_nat signed_take_bit_int_eq_self)
  have size: "uo_buf_size (completed_op_ur (of_nat (length data)) x) = of_nat (length data)"
    using assms(8) res by (simp add: scast_eq)
  have u64: "unat (of_nat (length data) :: u64) = length data" "sint (of_nat (length data) :: u64) = int (length data)"
    using assms(14) by (simp_all add: signed_of_nat signed_take_bit_int_eq_self unsigned_of_nat take_bit_nat_eq_self)
  have tot: "unat (of_nat (length (data @ rest)) :: u64) = length (data @ rest)"
    using assms(14) by (simp add: unsigned_of_nat take_bit_nat_eq_self del: of_nat_add length_append)
  have "(of_nat (length data) :: u64) = of_nat (length (data @ rest)) \<longleftrightarrow> length data = length (data @ rest)"
    using u64(1) tot by metis
  then have full: "(of_nat (length data) :: u64) = of_nat (length (data @ rest)) \<longleftrightarrow> rest = []" by simp
  show "let w' = complete_cqe p (of_nat (length data)) w; v = fst (AIOOperation_get_value_ur p w') in
        if rest = [] then v = Ret (PyObj obj) \<and> stored obj w' = data else v = Ret (PyBytes data)"
    unfolding w'_def [symmetric]
    using assms(5,7-10,12) st size u64 full res
    by (auto simp: AIOOperation_get_value_ur_def op mem PyBytes_FromStringAndSize_def simp del: of_nat_add)
  have neg: "sint (- of_nat e :: u32) < 0" using assms(15,16) sint_neg_of_nat [of e] by simp
  have pos: "sint (of_nat e :: u32) = int e" using assms(16) by (simp add: signed_of_nat signed_take_bit_int_eq_self)
  then have "(of_nat e :: u32) \<noteq> 0" using assms(15) by auto
  then show "fst (AIOOperation_get_value_ur p (complete_cqe p (- of_nat e) w)) = Raise (PyErr_Format PyExc_SystemError ''strerror'' [int e])"
    using assms(5) neg pos by (simp add: AIOOperation_get_value_ur_def closed op_ur_def)
qed

theorem ur_read_result_witness:
  "fst (AIOOperation_get_value_ur 2 (complete_cqe 2 2 ex_ur)) = Ret (PyBytes [7, 8])"
proof -
  have "ur_ops ex_ur 2 = Some (ex_flight (ex_op_ur URING_READ 5))" by (simp add: ex_ur_def)
  from ur_read_result [OF this, where self = 1 and obj = 4 and data = "[7, 8]" and rest = "[0]" and e = 5]
  show ?thesis by (simp add: ex_flight_def ex_op_ur_def zero_op_ur_def ex_ur_def)
qed

section \<open>Initialisation and deallocation\<close>

text \<open>
  What \<^verbatim>\<open>Context.__init__\<close> obtains from the system, read off the answers alone: the eventfd,
  the ring if one of the flag combinations is accepted, and the mappings up to the first
  that fails; each as the call that releases it.
\<close>

definition opened_ur :: "init_env_ur \<Rightarrow> (u32 \<times> bool) option \<Rightarrow> event list" where
  "opened_ur ie parsed =
     (case parsed of None \<Rightarrow> []
      | Some (n, sqpoll) \<Rightarrow>
          if fst (ie_eventfd ie) < 0 then []
          else Ev_Close (fst (ie_eventfd ie)) #
            (case setup_loop ie ((if n = 0 then 32 else n) + 1) (flag_table sqpoll) (- 1, 0) of Inr _ \<Rightarrow> []
             | Inl (fd, flags, ps) \<Rightarrow>
                 let sq = sq_size (flags AND IORING_SETUP_NO_SQARRAY \<noteq> 0) ps; cq = cq_size ps;
                     single = ip_features ps AND IORING_FEAT_SINGLE_MMAP \<noteq> 0;
                     sizes = (if single then [(0, if sq > cq then sq else cq)] else [(0, sq), (1, cq)]) @
                       [(2, ucast (ip_sq_entries ps) * 64)]
                 in Ev_Close fd # map (\<lambda>(i, n). Ev_Munmap (fst (ie_mmap ie i n)) n)
                      (takeWhile (\<lambda>(i, n). fst (ie_mmap ie i n) \<noteq> MAP_FAILED) sizes)))"

lemma setup_loop_Inl: "setup_loop ie n table failed = Inl (fd, flags, ps) \<Longrightarrow> fd \<ge> 0"
  by (induction ie n table failed rule: setup_loop.induct) (auto simp: Let_def split: prod.splits if_splits)

lemma setup_loop_Inr: "setup_loop ie n table failed = Inr (fd, e) \<Longrightarrow> fst failed < 0 \<Longrightarrow> fd < 0"
  by (induction ie n table failed rule: setup_loop.induct) (auto simp: Let_def split: prod.splits if_splits)

definition closes_ur :: "AIOContext_ur \<Rightarrow> event list" where
  "closes_ur c =
     (if uc_sq_ring_ptr c \<noteq> MAP_FAILED \<and> uc_sq_ring_ptr c \<noteq> NULL
        then [Ev_Munmap (uc_sq_ring_ptr c) (uc_sq_ring_size c)] else []) @
     (if uc_sqes_ptr c \<noteq> MAP_FAILED \<and> uc_sqes_ptr c \<noteq> NULL then [Ev_Munmap (uc_sqes_ptr c) (uc_sqes_size c)] else []) @
     (if uc_cq_ring_ptr c \<noteq> MAP_FAILED \<and> uc_cq_ring_ptr c \<noteq> NULL \<and> uc_cq_ring_ptr c \<noteq> uc_sq_ring_ptr c
        then [Ev_Munmap (uc_cq_ring_ptr c) (uc_cq_ring_size c)] else []) @
     (if uc_uring_fd c \<ge> 0 then [Ev_Close (uc_uring_fd c)] else []) @
     (if uc_eventfd_fd c \<ge> 0 then [Ev_Close (uc_eventfd_fd c)] else [])"

lemma dealloc_closes:
  assumes "ur_ctxs w self = Some c" "uc_weakreflist c = NULL"
  shows "trace (AIOContext_dealloc_ur self w) = trace w @ closes_ur c @ [Ev_Dealloc self]"
  using assms by (simp add: AIOContext_dealloc_ur_def closes_ur_def ctx_ur_def rt_simps Let_def)

lemma finish_init_closes:
  assumes "uc_sqes_ptr c = MAP_FAILED" and "\<And>i n. fst (ie_mmap ie i n) \<noteq> NULL"
  shows "mset (closes_ur (snd (finish_init_ur ie ps c))) = mset (closes_ur c) +
      (let n = ucast (ip_sq_entries ps) * 64 in
       if fst (ie_mmap ie 2 n) = MAP_FAILED then {#} else {#Ev_Munmap (fst (ie_mmap ie 2 n)) n#})"
    and "uc_weakreflist (snd (finish_init_ur ie ps c)) = uc_weakreflist c"
  using assms by (simp_all add: finish_init_ur_def closes_ur_def split_beta Let_def)

lemma map_rings_closes:
  assumes "uc_sq_ring_ptr c = MAP_FAILED" "uc_cq_ring_ptr c = MAP_FAILED" and "\<And>i n. fst (ie_mmap ie i n) \<noteq> NULL"
    and "\<And>m n. fst (ie_mmap ie 1 n) = fst (ie_mmap ie 0 m) \<Longrightarrow> fst (ie_mmap ie 1 n) = MAP_FAILED"
    and "sizes = (let sq = sq_size (uc_no_sqarray c \<noteq> 0) ps; cq = cq_size ps in
        if ip_features ps AND IORING_FEAT_SINGLE_MMAP \<noteq> 0 then [(0, if sq > cq then sq else cq)] else [(0, sq), (1, cq)])"
    and "ok = (\<lambda>(i, n). fst (ie_mmap ie i n) \<noteq> MAP_FAILED)"
  shows "mset (closes_ur (snd (map_rings ie ps c))) = mset (closes_ur c) +
      mset (map (\<lambda>(i, n). Ev_Munmap (fst (ie_mmap ie i n)) n) (takeWhile ok sizes))"
    and "fst (map_rings ie ps c) = Ret () \<longleftrightarrow> (\<forall>x\<in>set sizes. ok x)"
    and "uc_weakreflist (snd (map_rings ie ps c)) = uc_weakreflist c" "uc_sqes_ptr (snd (map_rings ie ps c)) = uc_sqes_ptr c"
proof -
  let ?sq = "sq_size (uc_no_sqarray c \<noteq> 0) ps" and ?cq = "cq_size ps"
  have "(mset (closes_ur (snd (map_rings ie ps c))) = mset (closes_ur c) +
        mset (map (\<lambda>(i, n). Ev_Munmap (fst (ie_mmap ie i n)) n) (takeWhile ok sizes))) \<and>
      (fst (map_rings ie ps c) = Ret () \<longleftrightarrow> (\<forall>x\<in>set sizes. ok x))"
  proof (cases "ip_features ps AND IORING_FEAT_SINGLE_MMAP \<noteq> 0")
    case True
    define n where "n = (if ?sq > ?cq then ?sq else ?cq)"
    have "sizes = [(0, n)]" using assms(5) True by (simp add: n_def Let_def)
    moreover have "map_rings ie ps c = (let c = c\<lparr>uc_sq_ring_size := n, uc_sq_ring_ptr := fst (ie_mmap ie 0 n)\<rparr> in
        if fst (ie_mmap ie 0 n) = MAP_FAILED then (errno_error (snd (ie_mmap ie 0 n)), c)
        else (Ret (), c\<lparr>uc_cq_ring_ptr := fst (ie_mmap ie 0 n), uc_cq_ring_size := 0\<rparr>))"
      using True by (simp add: map_rings_def n_def split_beta Let_def)
    ultimately show ?thesis
      using assms(1-3) by (cases "fst (ie_mmap ie 0 n) = MAP_FAILED") (simp_all add: closes_ur_def assms(6))
  next
    case False
    have "sizes = [(0, ?sq), (1, ?cq)]" using assms(5) False by (simp add: Let_def)
    then show ?thesis
      using False assms(1-4)
      by (cases "fst (ie_mmap ie 0 ?sq) = MAP_FAILED"; cases "fst (ie_mmap ie 1 ?cq) = MAP_FAILED")
        (auto simp: map_rings_def closes_ur_def assms(6) split_beta Let_def)
  qed
  then show "mset (closes_ur (snd (map_rings ie ps c))) = mset (closes_ur c) +
        mset (map (\<lambda>(i, n). Ev_Munmap (fst (ie_mmap ie i n)) n) (takeWhile ok sizes))"
    and "fst (map_rings ie ps c) = Ret () \<longleftrightarrow> (\<forall>x\<in>set sizes. ok x)"
    by simp_all
  show "uc_weakreflist (snd (map_rings ie ps c)) = uc_weakreflist c" "uc_sqes_ptr (snd (map_rings ie ps c)) = uc_sqes_ptr c"
    by (simp_all add: map_rings_def split_beta Let_def)
qed

text \<open>
  C22. Nothing leaks and nothing is released twice: on every path through \<^verbatim>\<open>Context.__init__\<close>,
  successful or not, with one mapping for both rings or two, and whichever flags the kernel
  accepts, deallocating the Context afterwards closes and unmaps exactly what was opened,
  each once, with the size it was mapped with.
\<close>

theorem ur_init_releases:
  fixes w :: ur_world
  assumes "\<And>i n. fst (ie_mmap ie i n) \<noteq> NULL" and "\<And>m n. fst (ie_mmap ie 1 n) = fst (ie_mmap ie 0 m) \<Longrightarrow> fst (ie_mmap ie 1 n) = MAP_FAILED"
  shows "\<exists>evs. trace (AIOContext_dealloc_ur 1 (w\<lparr>ur_ctxs := (ur_ctxs w)(1 \<mapsto> snd (AIOContext_init_ur ie parsed new_ctx_ur))\<rparr>)) =
      trace w @ evs @ [Ev_Dealloc 1] \<and> mset evs = mset (opened_ur ie parsed)"
proof -
  let ?c = "snd (AIOContext_init_ur ie parsed new_ctx_ur)"
  have main: "mset (closes_ur ?c) = mset (opened_ur ie parsed) \<and> uc_weakreflist ?c = NULL"
  proof (cases parsed)
    case None
    then show ?thesis by (simp add: AIOContext_init_ur_def opened_ur_def closes_ur_def new_ctx_ur_def)
  next
    case (Some np)
    obtain n sqpoll where np: "np = (n, sqpoll)" by (cases np)
    obtain efd e where efd: "ie_eventfd ie = (efd, e)" by (cases "ie_eventfd ie")
    define size where "size = (if n = 0 then 32 else n)"
    have init0: "AIOContext_init_ur ie parsed new_ctx_ur =
        (let c = new_ctx_ur\<lparr>uc_max_requests := size, uc_eventfd_fd := efd\<rparr> in
         if efd < 0 then (errno_error e, c)
         else case setup_loop ie (size + 1) (flag_table sqpoll) (- 1, 0) of
             Inr (fd, errno) \<Rightarrow> (errno_error errno, c\<lparr>uc_uring_fd := fd\<rparr>)
           | Inl (fd, flags, ps) \<Rightarrow>
               let c = c\<lparr>uc_uring_fd := fd,
                     uc_no_sqarray := (if flags AND IORING_SETUP_NO_SQARRAY \<noteq> 0 then 1 else 0),
                     uc_sqpoll := (if flags AND IORING_SETUP_SQPOLL \<noteq> 0 then 1 else 0)\<rparr>;
                   (r, c) = map_rings ie ps c in
               if r \<noteq> Ret () then (r, c) else finish_init_ur ie ps c)"
      unfolding AIOContext_init_ur_def Some np efd size_def
      by (simp add: Let_def split_beta cong: if_cong sum.case_cong)
    have opened0: "opened_ur ie parsed = (if efd < 0 then [] else Ev_Close efd #
        (case setup_loop ie (size + 1) (flag_table sqpoll) (- 1, 0) of Inr _ \<Rightarrow> []
             | Inl (fd, flags, ps) \<Rightarrow>
                 let sq = sq_size (flags AND IORING_SETUP_NO_SQARRAY \<noteq> 0) ps; cq = cq_size ps;
                     single = ip_features ps AND IORING_FEAT_SINGLE_MMAP \<noteq> 0;
                     sizes = (if single then [(0, if sq > cq then sq else cq)] else [(0, sq), (1, cq)]) @
                       [(2, ucast (ip_sq_entries ps) * 64)]
                 in Ev_Close fd # map (\<lambda>(i, n). Ev_Munmap (fst (ie_mmap ie i n)) n)
                      (takeWhile (\<lambda>(i, n). fst (ie_mmap ie i n) \<noteq> MAP_FAILED) sizes)))"
      unfolding opened_ur_def Some np efd size_def by simp
    show ?thesis
    proof (cases "efd < 0")
      case True
      then show ?thesis unfolding init0 opened0 by (simp add: closes_ur_def new_ctx_ur_def)
    next
      case opened: False
      show ?thesis
      proof (cases "setup_loop ie (size + 1) (flag_table sqpoll) (- 1, 0)")
        case (Inr fe)
        obtain fd er where fe: "fe = (fd, er)" by (cases fe)
        have "fd < 0" using setup_loop_Inr [of ie "size + 1" "flag_table sqpoll" "(- 1, 0)" fd er] Inr fe by simp
        then show ?thesis
          unfolding init0 opened0 Inr fe using opened by (simp add: closes_ur_def new_ctx_ur_def)
      next
        case (Inl t)
        obtain fd flags ps where t: "t = (fd, flags, ps)" by (cases t)
        have fd: "fd \<ge> 0" using Inl t setup_loop_Inl by blast
        define c0 where "c0 = new_ctx_ur\<lparr>uc_max_requests := size, uc_eventfd_fd := efd, uc_uring_fd := fd,
            uc_no_sqarray := (if flags AND IORING_SETUP_NO_SQARRAY \<noteq> 0 then 1 else 0),
            uc_sqpoll := (if flags AND IORING_SETUP_SQPOLL \<noteq> 0 then 1 else 0)\<rparr>"
        have c0: "uc_sq_ring_ptr c0 = MAP_FAILED" "uc_cq_ring_ptr c0 = MAP_FAILED" "uc_sqes_ptr c0 = MAP_FAILED"
          "uc_weakreflist c0 = NULL" "uc_no_sqarray c0 \<noteq> 0 \<longleftrightarrow> flags AND IORING_SETUP_NO_SQARRAY \<noteq> 0"
          "closes_ur c0 = [Ev_Close fd, Ev_Close efd]"
          using fd opened by (simp_all add: c0_def closes_ur_def new_ctx_ur_def)
        define sizes :: "(nat \<times> u64) list" where "sizes = (let sq = sq_size (uc_no_sqarray c0 \<noteq> 0) ps; cq = cq_size ps in
          if ip_features ps AND IORING_FEAT_SINGLE_MMAP \<noteq> 0 then [(0, if sq > cq then sq else cq)] else [(0, sq), (1, cq)])"
        define ok where "ok = (\<lambda>(i, n). fst (ie_mmap ie i n) \<noteq> MAP_FAILED)"
        define last where "last = (2 :: nat, ucast (ip_sq_entries ps) * 64 :: u64)"
        note rings = map_rings_closes [OF c0(1,2) assms sizes_def ok_def]
        have init: "?c = (if fst (map_rings ie ps c0) \<noteq> Ret () then snd (map_rings ie ps c0)
            else snd (finish_init_ur ie ps (snd (map_rings ie ps c0))))"
          unfolding init0 Inl t using opened by (simp add: c0_def split_beta Let_def)
        define release where "release = (\<lambda>(i, n). Ev_Munmap (fst (ie_mmap ie i n)) n)"
        have spec: "mset (opened_ur ie parsed) = {#Ev_Close efd, Ev_Close fd#} + mset (map release (takeWhile ok (sizes @ [last])))"
          unfolding opened0 Inl t using opened by (simp add: sizes_def ok_def last_def release_def c0(5) Let_def)
        have ringed: "mset (closes_ur (snd (map_rings ie ps c0))) = {#Ev_Close efd, Ev_Close fd#} + mset (map release (takeWhile ok sizes))"
          using rings(1) c0(6) by (simp add: release_def)
        show ?thesis
        proof (cases "\<forall>x\<in>set sizes. ok x")
          case True
          then have ret: "fst (map_rings ie ps c0) = Ret ()" and all: "takeWhile ok sizes = sizes"
            using rings(2) by (simp_all add: takeWhile_eq_all_conv)
          note ringed' = ringed [unfolded all]
          have okl: "ok last \<longleftrightarrow> fst (ie_mmap ie 2 (ucast (ip_sq_entries ps) * 64)) \<noteq> MAP_FAILED"
            "release last = Ev_Munmap (fst (ie_mmap ie 2 (ucast (ip_sq_entries ps) * 64))) (ucast (ip_sq_entries ps) * 64)"
            by (simp_all add: ok_def last_def release_def)
          have "takeWhile ok (sizes @ [last]) = sizes @ (if ok last then [last] else [])"
            using True by simp
          moreover have "uc_sqes_ptr (snd (map_rings ie ps c0)) = MAP_FAILED" using rings(4) c0(3) by simp
          note fin = finish_init_closes [OF this assms(1), of ps]
          have "mset (closes_ur ?c) = {#Ev_Close efd, Ev_Close fd#} + mset (map release sizes) +
              (if ok last then {#release last#} else {#})"
            using fin(1) okl by (simp add: init ret ringed' Let_def)
          moreover have "uc_weakreflist ?c = NULL" using fin(2) rings(3) c0(4) by (simp add: init ret)
          ultimately show ?thesis using spec by simp
        next
          case False
          then have "fst (map_rings ie ps c0) \<noteq> Ret ()" using rings(2) by simp
          moreover have "takeWhile ok (sizes @ [last]) = takeWhile ok sizes"
            using False by (auto intro: takeWhile_append1)
          ultimately show ?thesis using spec ringed rings(3) c0(4) by (simp add: init)
        qed
      qed
    qed
  qed
  let ?w = "w\<lparr>ur_ctxs := (ur_ctxs w)(1 \<mapsto> ?c)\<rparr>"
  have "trace (AIOContext_dealloc_ur 1 ?w) = trace w @ closes_ur ?c @ [Ev_Dealloc 1]"
    using dealloc_closes [of ?w 1 ?c] main by simp
  then show ?thesis using main by blast
qed

text \<open>A kernel that knows neither flag nor the single mapping, and fails to map the entries.\<close>

definition ex_init :: init_env_ur where
  "ex_init = \<lparr>ie_eventfd = (8, 0),
     ie_setup = (\<lambda>_ flags. if flags = 0 then (7, 0, \<lparr>ip_features = 0, ip_sq_entries = 4, ip_cq_entries = 8,
         ip_sq_off_flags = 16, ip_sq_off_array = 64, ip_cq_off_cqes = 64\<rparr>)
       else (- 1, 22, \<lparr>ip_features = 0, ip_sq_entries = 0, ip_cq_entries = 0, ip_sq_off_flags = 0,
         ip_sq_off_array = 0, ip_cq_off_cqes = 0\<rparr>)),
     ie_mmap = (\<lambda>i _. if i = 0 then (4096, 0) else if i = 1 then (8192, 0) else (MAP_FAILED, 12)),
     ie_sq = ex_sq, ie_cq = ex_cq, ie_sqes = (\<lambda>_. zero_sqe), ie_register = (0, 0), ie_einval = 22, ie_eperm = 1\<rparr>"

theorem ur_init_releases_witness:
  "\<exists>evs. trace (AIOContext_dealloc_ur 1 (ex_ur\<lparr>ur_ctxs := (ur_ctxs ex_ur)(1 \<mapsto> snd (AIOContext_init_ur ex_init (Some (0, False)) new_ctx_ur))\<rparr>)) =
      evs @ [Ev_Dealloc 1] \<and> mset evs = {#Ev_Close 8, Ev_Close 7, Ev_Munmap 4096 80, Ev_Munmap 8192 192#}"
proof -
  have "opened_ur ex_init (Some (0, False)) = [Ev_Close 8, Ev_Close 7, Ev_Munmap 4096 80, Ev_Munmap 8192 192]"
    by (simp add: opened_ur_def ex_init_def flag_table_def IORING_SETUP_NO_SQARRAY_def sq_size_def cq_size_def MAP_FAILED_def Let_def)
  moreover have "fst (ie_mmap ex_init i n) \<noteq> NULL" for i n by (simp add: ex_init_def MAP_FAILED_def)
  moreover have "fst (ie_mmap ex_init 1 n) = fst (ie_mmap ex_init 0 m) \<Longrightarrow> fst (ie_mmap ex_init 1 n) = MAP_FAILED" for m n
    by (simp add: ex_init_def)
  ultimately show ?thesis
    using ur_init_releases [of ex_init ex_ur "Some (0, False)"] by (simp add: ex_ur_fields)
qed

end
