(* ===== verification/Uring_Life.thy ===== *)
theory Uring_Life
  imports Uring_Memory Uring_Claims
begin

text \<open>
  The life of operations in the io_uring system: where an operation in flight is, who
  keeps it alive, that a drain is safe whatever happened before, and that everything
  accepted can complete.
\<close>

section \<open>Draining, as a run of the system\<close>

lemma finish_op_looks:
  "ue_call env = (\<lambda>cb v w. (verdict cb v, w)) \<Longrightarrow> finish_op_ur env (p, res) w =
     decref_op_ur p (run_callback (\<lambda>cb v w. (verdict cb v, w)) (uo_callback (op_ur w p)) (PyLong (sint res)) w)"
  by (simp add: finish_op_ur_def)

text \<open>The second phase of a drain: each completed operation is called back and released, in order.\<close>

lemma finish_batch_runs:
  assumes "data_ur self A s" and "own_inv self A (own_ur self A s)"
    and "ue_call env = (\<lambda>cb v w. (verdict cb v, w))" and "us_batch s = map (\<lambda>e. (e, False)) es @ rest"
  shows "\<exists>w'. finish_batch env es (us_w s) = Some w' \<and>
    (ur_step self A)\<^sup>*\<^sup>* s (s\<lparr>us_w := w', us_batch := rest, us_called := us_called s @ map fst es\<rparr>)"
  using assms
proof (induction es arbitrary: s)
  case Nil
  then have "s\<lparr>us_w := us_w s, us_batch := rest, us_called := us_called s @ map fst []\<rparr> = s"
    by (intro ur_sys.equality) simp_all
  then show ?case by (intro exI [of _ "us_w s"]) simp
next
  case (Cons e es)
  obtain p res where e: "e = (p, res)" by (cases e)
  let ?w1 = "run_callback (\<lambda>cb v w. (verdict cb v, w)) (uo_callback (op_ur (us_w s) p)) (PyLong (sint res)) (us_w s)"
  let ?rest = "map (\<lambda>e. (e, False)) es @ rest"
  let ?s1 = "s\<lparr>us_w := ?w1, us_batch := ((p, res), True) # ?rest, us_called := us_called s @ [p]\<rparr>"
  let ?s2 = "?s1\<lparr>us_w := decref_op_ur p ?w1, us_batch := ?rest\<rparr>"
  have b: "us_batch s = ((p, res), False) # ?rest" using Cons.prems(4) by (simp add: e)
  then have "p \<in># ow_batch (own_ur self A s)" by (simp add: own_ur_sel)
  from in_batch_alive(1) [OF Cons.prems(2) this] have live: "ur_ops (us_w s) p \<noteq> None" by (auto simp: own_ur_def)
  have step1: "ur_step self A s ?s1" by (rule ur_step.call [OF b])
  have step2: "ur_step self A ?s1 ?s2" using ur_step.release [of ?s1 p res ?rest self A] by simp
  have run: "(ur_step self A)\<^sup>*\<^sup>* s ?s2" using step1 step2 by (meson converse_rtranclp_into_rtranclp rtranclp.rtrancl_refl)
  note inv = uring_sys.run_refines [OF run Cons.prems(1,2)]
  have "\<exists>w'. finish_batch env es (us_w ?s2) = Some w' \<and>
    (ur_step self A)\<^sup>*\<^sup>* ?s2 (?s2\<lparr>us_w := w', us_batch := rest, us_called := us_called ?s2 @ map fst es\<rparr>)"
    using inv by (intro Cons.IH Cons.prems(3)) simp_all
  then obtain w' where w': "finish_batch env es (us_w ?s2) = Some w'"
    "(ur_step self A)\<^sup>*\<^sup>* ?s2 (?s2\<lparr>us_w := w', us_batch := rest, us_called := us_called ?s2 @ map fst es\<rparr>)"
    by blast
  have "finish_batch env (e # es) (us_w s) = Some w'"
    using live w'(1) finish_op_looks [OF Cons.prems(3)] by (simp add: e)
  moreover have "(ur_step self A)\<^sup>*\<^sup>* s (s\<lparr>us_w := w', us_batch := rest, us_called := us_called s @ map fst (e # es)\<rparr>)"
    using run w'(2) by (simp add: e)
  ultimately show ?case by blast
qed

text \<open>A whole drain.\<close>

definition drained_sys :: "ptr \<Rightarrow> u32 \<Rightarrow> ur_world \<Rightarrow> ur_sys \<Rightarrow> ur_sys" where
  "drained_sys self limit w' s = s\<lparr>us_w := w', us_completed := us_completed s @ map fst (drained_ops self limit (us_w s)),
     us_called := us_called s @ map fst (drained_ops self limit (us_w s))\<rparr>"

lemma scan_runs:
  assumes data: "data_ur self A s" and inv: "own_inv self A (own_ur self A s)" and user: "0 < us_user s self"
  shows "ur_step self A s (scanned self limit s)"
proof -
  obtain c where c: "ctx_ur (us_w s) self = c" "ctx_form c" by (rule ur_ctxD [OF data inv user])
  then obtain q where q: "uc_cq (ctx_ur (us_w s) self) = Some q" by (auto simp: ctx_form_def cq_wf_def)
  from scan_is_scanned(2) [OF data inv user q, of limit] obtain head batch w' where
    scan: "scan_cq q (cq_head q) (cq_tail q) limit 0 [] (us_w s) = Some (head, batch, w')" by auto
  from ur_step.scan [OF user q scan, of A] scan_is_scanned(1) [OF data inv user q scan] show ?thesis by simp
qed

lemma drain_runs:
  assumes data: "data_ur self A s" and inv: "own_inv self A (own_ur self A s)" and user: "0 < us_user s self"
    and mem: "ue_memory env" and call: "ue_call env = (\<lambda>cb v w. (verdict cb v, w))"
  shows "\<exists>w'. uring_drain_cq env self limit (us_w s) = (Ret (sint (of_nat (length (drained_ops self limit (us_w s))) :: u32)), w') \<and>
    (ur_step self A)\<^sup>*\<^sup>* s (drained_sys self limit w' s)"
proof -
  let ?s = "scanned self limit s" and ?ops = "drained_ops self limit (us_w s)"
  note step = scan_runs [OF data inv user, of limit]
  have "data_ur self A ?s" "own_inv self A (own_ur self A ?s)"
    using uring_sys.run_refines [OF r_into_rtranclp [of "ur_step self A", OF step] data inv] by simp_all
  from finish_batch_runs [OF this call, of ?ops "us_batch s"] obtain w' where
    fin: "finish_batch env ?ops (us_w ?s) = Some w'"
    and run: "(ur_step self A)\<^sup>*\<^sup>* ?s (?s\<lparr>us_w := w', us_batch := us_batch s, us_called := us_called ?s @ map fst ?ops\<rparr>)"
    by (auto simp: scanned_def)
  obtain c where c: "ur_ctxs (us_w s) self = Some c" "ctx_form c" by (rule ur_ctxD [OF data inv user])
  then obtain q where q: "uc_cq c = Some q" by (auto simp: ctx_form_def cq_wf_def)
  have "uring_drain_cq env self limit (us_w s) = (Ret (sint (of_nat (length ?ops) :: u32)), w')"
    using drain_two_phases [OF c(1) q mem data_drained(3) [OF data inv user, of limit]] fin by (simp add: scanned_def)
  moreover have "?s\<lparr>us_w := w', us_batch := us_batch s, us_called := us_called ?s @ map fst ?ops\<rparr> = drained_sys self limit w' s"
    by (simp add: scanned_def drained_sys_def)
  ultimately show ?thesis using step run by (metis converse_rtranclp_into_rtranclp)
qed

section \<open>What the kernel can do\<close>

text \<open>Take the oldest entry, and post a completion when there is room.\<close>

lemma kernel_can_take:
  assumes data: "data_ur self A s" and inv: "own_inv self A (own_ur self A s)" and user: "0 < us_user s self"
    and sq: "sq_of self (us_w s) = e # es"
  shows "\<exists>s'. ur_step self A s s' \<and> sq_of self (us_w s') = es \<and> us_kernel s' = us_kernel s @ [e] \<and>
    us_user s' = us_user s \<and> us_accepted s' = us_accepted s \<and> cq_of self (us_w s') = cq_of self (us_w s)"
proof -
  obtain c where c: "ur_ctxs (us_w s) self = Some c" "ctx_form c" by (rule ur_ctxD [OF data inv user])
  then have wf: "sq_wf c" by (simp add: ctx_form_def)
  have "consume_sqe c \<noteq> None" using sq.pop_nothing [OF wf] sq c(1) by simp
  then obtain f c' where take: "consume_sqe c = Some (f, c')" by auto
  have "sq_list c = f # sq_list c'" using sq.pop_delivered [OF wf take] by simp
  then have "f = e" "sq_list c' = es" using sq c(1) by simp_all
  then show ?thesis
    using ur_step.kernel_take [OF c(1) take, of A] c(1) consume_frame [OF take] cq_cong [of c' c]
    by (intro exI conjI) (assumption | simp)+
qed

lemma kernel_can_post:
  assumes data: "data_ur self A s" and inv: "own_inv self A (own_ur self A s)" and user: "0 < us_user s self"
    and kernel: "us_kernel s = e # ls" and empty: "cq_of self (us_w s) = []"
  shows "\<exists>s'. ur_step self A s s' \<and> sq_of self (us_w s') = sq_of self (us_w s) \<and> us_kernel s' = ls \<and>
    us_user s' = us_user s \<and> us_accepted s' = us_accepted s \<and>
    cq_of self (us_w s') = [\<lparr>cqe_user_data = sqe_user_data e, cqe_res = res\<rparr>]"
proof -
  obtain c where c: "ur_ctxs (us_w s) self = Some c" "ctx_form c" by (rule ur_ctxD [OF data inv user])
  then have wf: "cq_wf c" by (simp add: ctx_form_def)
  let ?e = "\<lparr>cqe_user_data = sqe_user_data e, cqe_res = res\<rparr>"
  have "cq_list c = []" using empty c(1) by simp
  moreover have "0 < cq_capacity c" using wf by (auto simp: cq_wf_def cq_capacity_def)
  ultimately have "post_cqe ?e c \<noteq> None" using cq.push_refused [OF wf, of ?e] by simp
  then obtain c' where post: "post_cqe ?e c = Some c'" by auto
  note push = cq.push_accepted [OF wf post]
  have "us_kernel s = [] @ e # ls" using kernel by simp
  from ur_step.kernel_post [OF this c(1) post, of A "[]"]
  show ?thesis
    using c(1) push post_frame [OF post] sq_cong [of c' c] \<open>cq_list c = []\<close>
    by (intro exI conjI) (assumption | simp)+
qed

section \<open>An example: one read\<close>

text \<open>
  A kernel that grants everything, a Context at address 1, and a read of three bytes at
  address 2 that was submitted; then the state in which its completion is in the ring.
\<close>

definition ex_boot :: init_env_ur where
  "ex_boot = ex_init\<lparr>ie_mmap := (\<lambda>i _. (4096 * of_nat (Suc i), 0)), ie_cq := ex_cq\<lparr>cq_tail := cq_head ex_cq\<rparr>\<rparr>"

definition ex_world :: ur_world where
  "ex_world = \<lparr>refs = (\<lambda>_. 0), mem = Map.empty, bytes_at = (\<lambda>_. NULL), trace = [], ur_ops = Map.empty, ur_ctxs = Map.empty\<rparr>"

lemma ex_boots: "fst (AIOContext_init_ur ex_boot (Some (3, False)) new_ctx_ur) = Ret ()"
  by (simp add: AIOContext_init_ur_def ex_boot_def ex_init_def flag_table_def map_rings_def finish_init_ur_def
      IORING_SETUP_NO_SQARRAY_def IORING_FEAT_SINGLE_MMAP_def MAP_FAILED_def Let_def)

lemma ex_started:
  obtains s where "ur_start 1 {2} s" "us_user s = (\<lambda>_. 0)(1 := 1)" "us_accepted s = []" "us_kernel s = []" "us_batch s = []"
    "ur_ops (us_w s) = Map.empty" "sq_of 1 (us_w s) = []" "cq_of 1 (us_w s) = []" "mem (us_w s) = Map.empty" "refs (us_w s) = (\<lambda>_. 0)(1 := 1)"
proof -
  obtain c where init: "AIOContext_init_ur ex_boot (Some (3, False)) new_ctx_ur = (Ret (), c)"
    using ex_boots by (metis prod.collapse)
  have new: "rings_new ex_boot"
    by (auto simp: rings_new_def ex_boot_def ex_init_def ex_sq_def ex_cq_def mask_eq_exp_minus_1 intro!: exI [of _ 2])
  have lay: "layout 1 {2}" by (simp add: layout_def CANCEL_USER_DATA_def)
  from ur_start.intros [OF lay new init, of 1 ex_world]
  show thesis
    by (rule that) (use init_form(2,3) [OF new init] in \<open>simp_all add: ex_world_def runtime_ok_def\<close>)
qed

lemma ex_submitted:
  obtains s e where "ur_reaches 1 {2} s" "0 < us_user s 1" "us_accepted s = [2]" "us_kernel s = []" "us_batch s = []"
    "sq_of 1 (us_w s) = [e]" "sqe_user_data e = 2" "sqe_opcode e = IORING_OP_READ" "cq_of 1 (us_w s) = []"
proof -
  obtain s0 where s0: "ur_start 1 {2} s0" "us_user s0 = (\<lambda>_. 0)(1 := 1)" "us_accepted s0 = []" "us_kernel s0 = []" "us_batch s0 = []"
    "ur_ops (us_w s0) = Map.empty" "sq_of 1 (us_w s0) = []" "cq_of 1 (us_w s0) = []" "mem (us_w s0) = Map.empty" "refs (us_w s0) = (\<lambda>_. 0)(1 := 1)"
    by (rule ex_started)
  let ?read = "AIOOperation_read_ur 2 (Some (3, 5, None)) (4, 6, [0, 0, 0]) (us_w s0)"
  define s1 where "s1 = s0\<lparr>us_w := snd ?read, us_user := given (fst ?read) 2 (us_user s0)\<rparr>"
  have x: "fst ?read = Ret (PyObj 2)" "\<exists>x. ur_ops (snd ?read) = [2 \<mapsto> x] \<and> uo_in_progress x = 0 \<and> uo_opcode x = URING_READ"
    "ur_ctxs (snd ?read) = ur_ctxs (us_w s0)"
    using s0(6) by (auto simp: AIOOperation_read_ur_def op_ur_def zero_op_ur_def Let_def)
  have step1: "ur_step 1 {2} s0 s1"
    unfolding s1_def by (rule ur_step.new_read [where bytes = "(4, 6, [0, 0, 0])" and parsed = "Some (3, 5, None)"])
      (use s0 in \<open>auto simp: new_bytes_def\<close>)
  note inv1 = uring_sys.reachable_owned [OF s0(1) r_into_rtranclp [of "ur_step 1 {2}", OF step1]]
  then have data: "data_ur 1 {2} s1" and inv: "own_inv 1 {2} (own_ur 1 {2} s1)" by simp_all
  have user: "0 < us_user s1 1" using s0(2) x(1) by (simp add: s1_def)
  obtain c where c: "ur_ctxs (us_w s1) 1 = Some c" "ctx_form c" "ctx_ur (us_w s1) 1 = c" by (rule ur_ctxD [OF data inv user])
  obtain y where y: "ur_ops (us_w s1) = [2 \<mapsto> y]" "uo_in_progress y = 0" "uo_opcode y = URING_READ"
    using x(2) by (auto simp: s1_def)
  have sq1: "sq_of 1 (us_w s1) = []" "cq_of 1 (us_w s1) = []" using s0(7,8) x(3) by (simp_all add: sq_of_def cq_of_def s1_def)
  have cap: "sq_capacity c \<noteq> 0"
    using c(2) by (auto simp: ctx_form_def sq_wf_def sq_capacity_def unat_power)
  have free: "free_ur (us_w s1) 2" using y by (simp add: free_ur_def)
  have room: "ring_full 1 (us_w s1) = None" using sq1 c cap by (simp add: ring_full_def)
  have fd: "uc_uring_fd (ctx_ur (us_w s1) 1) \<ge> 0" using c by (simp add: ctx_form_def)
  let ?w2 = "claim_ur 1 2 (us_w s1)"
  have loop: "claim_loop free_ur (ring_full 1) (claim_ur 1) [2] (us_w s1) = (None, [2], ?w2)" using free room by simp
  obtain r where sub: "AIOContext_submit_ur 1 (Some [2]) (us_w s1) = (r, ?w2)"
    using submit_ur_loop [OF data_ready [OF data inv user] fd, of "[2]"] loop y(1) by auto
  note claimed = claim_ur_step(1,2) [OF data_ready [OF data inv user] free room]
  obtain c2 where c2: "ur_ctxs ?w2 1 = Some c2" using claimed(1) by (auto simp: ready_ur_def)
  let ?e = "request_ur (us_w s1) 2"
  have sq2: "sq_of 1 ?w2 = [?e]" using claimed(2) c c2 sq1 by (simp add: ctx_ur_def)
  have cq2: "cq_of 1 ?w2 = []"
  proof -
    have "stage_sqe ?e c = Some c2" using c2 by (simp add: claim_ur_def c(3))
    then show ?thesis using stage_frame cq_cong [of c2 c] sq1(2) c c2 by (metis ring_of_ctx(2))
  qed
  define s2 where "s2 = s1\<lparr>us_w := ?w2, us_accepted := us_accepted s1 @ requested (drop (length (sq_of 1 (us_w s1))) (sq_of 1 ?w2))\<rparr>"
  have "ur_step 1 {2} s1 s2" unfolding s2_def by (rule ur_step.submit [OF user sub])
  then have reach: "ur_reaches 1 {2} s2" using s0(1) step1 unfolding ur_reaches_def
    by (meson converse_rtranclp_into_rtranclp rtranclp.rtrancl_refl)
  have "sqe_opcode ?e = IORING_OP_READ" using y by (simp add: fill_sqe_def op_ur_def Let_def)
  then show thesis
    by (intro that [OF reach, of ?e]) (use sq1 sq2 cq2 s0 user in \<open>simp_all add: s2_def s1_def CANCEL_USER_DATA_def\<close>)
qed

lemma ex_posted:
  obtains s where "ur_reaches 1 {2} s" "0 < us_user s 1" "us_accepted s = [2]" "sq_of 1 (us_w s) = []" "us_kernel s = []"
    "cq_of 1 (us_w s) = [\<lparr>cqe_user_data = 2, cqe_res = 3\<rparr>]"
proof -
  obtain s e where s: "ur_reaches 1 {2} s" "0 < us_user s 1" "us_accepted s = [2]" "us_kernel s = []" "sq_of 1 (us_w s) = [e]"
    "sqe_user_data e = 2" "cq_of 1 (us_w s) = []" by (rule ex_submitted)
  obtain t where t: "ur_step 1 {2} s t" "sq_of 1 (us_w t) = []" "us_kernel t = [e]" "us_user t = us_user s" "us_accepted t = [2]"
    "cq_of 1 (us_w t) = []"
    using kernel_can_take [OF ur_reaches_inv [OF s(1)] s(2,5)] s by auto
  have rt: "ur_reaches 1 {2} t" using s(1) t(1) unfolding ur_reaches_def by (meson rtranclp.rtrancl_into_rtrancl)
  have "0 < us_user t 1" using s(2) t(4) by simp
  from kernel_can_post [OF ur_reaches_inv [OF rt] this t(3,6), of 3]
  obtain u where u: "ur_step 1 {2} t u" "sq_of 1 (us_w u) = []" "us_kernel u = []" "us_user u = us_user t" "us_accepted u = [2]"
    "cq_of 1 (us_w u) = [\<lparr>cqe_user_data = 2, cqe_res = 3\<rparr>]"
    using t s(6) by auto
  have "ur_reaches 1 {2} u" using rt u(1) unfolding ur_reaches_def by (meson rtranclp.rtrancl_into_rtrancl)
  then show thesis by (rule that) (use u s(2) t(4) in simp_all)
qed

section \<open>The protocol of references\<close>

text \<open>
  C23. The io_uring backend refines the ownership protocol. Every run of the system, with
  its rings, its kernel, its callbacks and its deallocations, is under the mapping \<open>own_ur\<close> a
  run of the protocol, and in every state on the way the accounts of the protocol balance.
\<close>

theorem ur_refines_protocol:
  assumes "ur_start self A s" and "(ur_step self A)\<^sup>*\<^sup>* s s'"
  shows "(own_step self A)\<^sup>*\<^sup>* (own_ur self A s) (own_ur self A s') \<and> own_inv self A (own_ur self A s')"
  using uring_sys.reachable_owned [OF assms] by blast

theorem ur_refines_protocol_witness:
  "\<exists>s s'. us_accepted s' = [2] \<and> (ur_step 1 {2})\<^sup>*\<^sup>* s s' \<and> (own_step 1 {2})\<^sup>*\<^sup>* (own_ur 1 {2} s) (own_ur 1 {2} s')"
proof -
  obtain s' where s': "ur_reaches 1 {2} s'" "us_accepted s' = [2]" by (rule ex_posted)
  then obtain s where "ur_start 1 {2} s" "(ur_step 1 {2})\<^sup>*\<^sup>* s s'" by (auto simp: ur_reaches_def)
  with s'(2) ur_refines_protocol [OF this] show ?thesis by blast
qed

section \<open>Draining is safe\<close>

text \<open>
  C24. A drain is safe in every state a program can reach, whatever was submitted, cancelled,
  dropped or completed before, also from inside the callback of another drain: with memory
  for its batch it does not crash, returns the number of completed operations it found, and
  its effect is a run of the system that completes exactly these operations, calls their
  callbacks in that order and leaves the batches of outer drains as they were.
\<close>

theorem ur_drain_safe:
  assumes "ur_reaches self A s" and "0 < us_user s self" and "ue_memory env"
    and "ue_call env = (\<lambda>cb v w. (verdict cb v, w))"
  shows "\<exists>w'. uring_drain_cq env self limit (us_w s) = (Ret (sint (of_nat (length (drained_ops self limit (us_w s))) :: u32)), w') \<and>
    (ur_step self A)\<^sup>*\<^sup>* s (s\<lparr>us_w := w', us_completed := us_completed s @ map fst (drained_ops self limit (us_w s)),
       us_called := us_called s @ map fst (drained_ops self limit (us_w s))\<rparr>)"
  using drain_runs [OF ur_reaches_inv [OF assms(1)] assms(2-4)] unfolding drained_sys_def .

theorem ur_drain_safe_witness:
  "\<exists>(s :: ur_sys) w'. us_accepted s = [2] \<and> uring_drain_cq ex_env_ur 1 8 (us_w s) = (Ret 1, w')"
proof -
  obtain s where s: "ur_reaches 1 {2} s" "0 < us_user s 1" "us_accepted s = [2]"
    and cq: "cq_of 1 (us_w s) = [\<lparr>cqe_user_data = 2, cqe_res = 3\<rparr>]" by (rule ex_posted)
  have env: "ue_memory ex_env_ur" "ue_call ex_env_ur = (\<lambda>cb v w. ((\<lambda>cb v. v = PyLong 2) cb v, w))" by (simp_all add: ex_env_ur_def)
  have "ur_ctxs (us_w s) 1 \<noteq> None" using cq by (auto simp: cq_of_def split: option.splits)
  then have "drained_ops 1 8 (us_w s) = [(2, 3)]"
    by (simp add: drained_ops_def drained_def pending_of cq CANCEL_USER_DATA_def)
  then have "\<exists>w'. uring_drain_cq ex_env_ur 1 8 (us_w s) = (Ret 1, w')" using ur_drain_safe [OF s(1,2) env, of 8] by auto
  then show ?thesis using s(3) by blast
qed

section \<open>Where an operation is, and what keeps it alive\<close>

text \<open>
  C25. Every operation in flight is in exactly one place: among the entries of the submission
  ring, among those the kernel has taken, or in the completion ring; and nothing else is
  in these places but cancellations. Nothing is lost or completed twice: what was ever
  accepted is what was completed together with what is in these places, and what was
  completed is what was called back together with what waits for its callback. The Context
  has one reference for each, apart from those of the program, and exists as long as one is
  left: it cannot be deallocated under an operation in flight.
\<close>

theorem ur_places:
  assumes "ur_reaches self A s"
  shows "distinct (places self s) \<and>
    set (places self s) = {p. \<exists>x. ur_ops (us_w s) p = Some x \<and> uo_in_progress x = 1 \<and> uo_done x = 0} \<and>
    mset (us_accepted s) = mset (us_completed s) + mset (places self s) \<and>
    mset (us_completed s) = mset (us_called s) + mset (map (fst \<circ> fst) (filter (\<lambda>e. \<not> snd e) (us_batch s))) \<and>
    refs (us_w s) self = int (us_user s self) + int (length (places self s)) \<and>
    (ur_ctxs (us_w s) self = None \<longleftrightarrow> refs (us_w s) self = 0)"
proof (intro conjI)
  note inv = ur_reaches_inv [OF assms]
  show "distinct (places self s)" by (rule distinct_places [OF inv(2)])
  show "set (places self s) = {p. \<exists>x. ur_ops (us_w s) p = Some x \<and> uo_in_progress x = 1 \<and> uo_done x = 0}"
  proof (intro set_eqI)
    fix p
    show "p \<in> set (places self s) \<longleftrightarrow> p \<in> {p. \<exists>x. ur_ops (us_w s) p = Some x \<and> uo_in_progress x = 1 \<and> uo_done x = 0}"
    proof (cases "ur_ops (us_w s) p")
      case None
      then show ?thesis using in_flight_alive(1) [OF inv(2), of p] by (auto simp: own_ur_def)
    next
      case (Some x)
      have "phase_ur x = Flight \<longleftrightarrow> uo_in_progress x = 1 \<and> uo_done x = 0"
        using ur_opD(5) [OF inv Some] by (auto simp: op_form_def phase_ur_def)
      then show ?thesis using ur_opD(7) [OF inv Some] Some by simp
    qed
  qed
  show "refs (us_w s) self = int (us_user s self) + int (length (places self s))"
    using own_invD(2) [OF inv(2)] by (simp add: own_ur_def)
  show "ur_ctxs (us_w s) self = None \<longleftrightarrow> refs (us_w s) self = 0"
    using inv(1) by (auto simp: data_ur_def split: option.splits)
qed (use ur_reaches_inv(1) [OF assms] in \<open>simp_all add: data_ur_def history_ok_def\<close>)

theorem ur_places_witness:
  "\<exists>s. us_accepted s = [2] \<and> places 1 s = [2] \<and> us_completed s = [] \<and> refs (us_w s) 1 = int (us_user s 1) + 1"
proof -
  obtain s where s: "ur_reaches 1 {2} s" "us_accepted s = [2]" "sq_of 1 (us_w s) = []" "us_kernel s = []"
    "cq_of 1 (us_w s) = [\<lparr>cqe_user_data = 2, cqe_res = 3\<rparr>]" by (rule ex_posted)
  have pl: "places 1 s = [2]" using s(3-5) by (simp add: places_def CANCEL_USER_DATA_def)
  from ur_places [OF s(1)] have "mset (us_accepted s) = mset (us_completed s) + mset (places 1 s)"
    and r: "refs (us_w s) 1 = int (us_user s 1) + int (length (places 1 s))" by blast+
  then have "us_completed s = []" using pl s(2) by simp
  then show ?thesis using pl r s(2) by auto
qed

text \<open>
  C26. The type of an Operation. At any time it is in one of three states: never submitted,
  without a Context; in flight, holding its Context; or completed, without a Context again.
  Its callback and its buffer are never Operations or the Context. And its references are
  exactly those of the program, one of the backend while it is in flight, and one while
  its callback is outstanding; it exists as long as one is left and no longer.
\<close>

theorem ur_ops_typed:
  assumes "ur_reaches self A s" and "p \<in> A"
  shows "refs (us_w s) p = int (us_user s p) + (if p \<in> set (places self s) then 1 else 0) +
      (if p \<in> fst ` fst ` set (us_batch s) then 1 else 0) \<and>
    (case ur_ops (us_w s) p of None \<Rightarrow> refs (us_w s) p = 0
     | Some x \<Rightarrow> 0 < refs (us_w s) p \<and>
         ((uo_in_progress x, uo_context x, uo_done x) = (0, NULL, 0) \<and> p \<notin> set (places self s) \<and> p \<notin> fst ` fst ` set (us_batch s) \<or>
          (uo_in_progress x, uo_context x, uo_done x) = (1, self, 0) \<and> p \<in> set (places self s) \<or>
          (uo_in_progress x, uo_context x, uo_done x) = (1, NULL, 1) \<and> p \<notin> set (places self s)) \<and>
         uo_callback x \<notin> insert self A \<and> uo_py_buffer x \<notin> insert self A \<and>
         uo_opcode x \<in> {URING_READ, URING_WRITE, URING_FSYNC, URING_FDSYNC})"
proof -
  note inv = ur_reaches_inv [OF assms(1)]
  define B where "B = map (fst \<circ> fst) (us_batch s)"
  have acc: "counted True (map_option phase_ur (ur_ops (us_w s) p)) (refs (us_w s) p) (us_user s p)
      (count (mset (places self s)) p) (count (mset B) p)"
    using own_invD(3) [OF inv(2), of p] assms(2) by (simp add: own_ur_def B_def)
  have set_b: "p \<in> fst ` fst ` set (us_batch s) \<longleftrightarrow> p \<in> set B" by (auto simp: image_iff B_def)
  have one: "count (mset xs) p = (if p \<in> set xs then 1 else 0)" if "count (mset xs) p \<le> 1" for xs :: "ptr list"
  proof (cases "p \<in> set xs")
    case True
    then have "0 < count (mset xs) p" by simp
    then have "count (mset xs) p = 1" using that by linarith
    then show ?thesis using True by simp
  qed simp
  have ones: "count (mset (places self s)) p = (if p \<in> set (places self s) then 1 else 0)"
    "count (mset B) p = (if p \<in> set B then 1 else 0)"
    by (rule one; use acc in \<open>auto simp: counted_def simp del: count_mset_0_iff split: if_splits\<close>)+
  show ?thesis
  proof (cases "ur_ops (us_w s) p")
    case None
    then show ?thesis using acc ones unfolding set_b by (simp add: counted_def)
  next
    case (Some x)
    have "p \<in> set B \<Longrightarrow> phase_ur x = Done" using in_batch_alive(1) [OF inv(2), of p] Some by (simp add: own_ur_def B_def)
    then show ?thesis
      using acc ones ur_opD(5-7) [OF inv Some] Some unfolding set_b
      by (auto simp: counted_def op_form_def phase_ur_def split: if_splits)
  qed
qed

theorem ur_ops_typed_witness:
  "\<exists>(s :: ur_sys) x. us_accepted s = [2] \<and> ur_ops (us_w s) 2 = Some x \<and> uo_context x = 1 \<and> uo_done x = 0 \<and> 0 < refs (us_w s) 2"
proof -
  obtain s where s: "ur_reaches 1 {2} s" "us_accepted s = [2]" "sq_of 1 (us_w s) = []" "us_kernel s = []"
    "cq_of 1 (us_w s) = [\<lparr>cqe_user_data = 2, cqe_res = 3\<rparr>]" by (rule ex_posted)
  have "2 \<in> set (places 1 s)" using s(3-5) by (simp add: places_def CANCEL_USER_DATA_def)
  moreover from this obtain x where x: "ur_ops (us_w s) 2 = Some x"
    using in_flight_alive(1) [OF ur_reaches_inv(2) [OF s(1)], of 2] by (auto simp: own_ur_def)
  ultimately have "uo_context x = 1 \<and> uo_done x = 0 \<and> 0 < refs (us_w s) 2"
    using ur_ops_typed [OF s(1), of 2] by (simp split: if_splits)
  then show ?thesis using s(2) x by blast
qed

section \<open>The memory the kernel uses\<close>

text \<open>
  C27. The kernel never reads or writes memory that is gone. Every read or write in the
  submission ring or with the kernel is the entry of an operation that is still in flight
  and still says the same; the bytes object of this operation is alive, the address of the
  entry is its storage, and the length of the entry does not go beyond it, whatever
  references the program has dropped in the meantime.
\<close>

theorem ur_kernel_memory:
  assumes "ur_reaches self A s" and "e \<in> set (sq_of self (us_w s)) \<union> set (us_kernel s)"
    and "sqe_opcode e \<in> {IORING_OP_READ, IORING_OP_WRITE}"
  shows "\<exists>x bs. ur_ops (us_w s) (sqe_user_data e) = Some x \<and> uo_in_progress x = 1 \<and> uo_done x = 0 \<and>
    e = request_ur (us_w s) (sqe_user_data e) \<and> 0 < refs (us_w s) (uo_py_buffer x) \<and>
    sqe_addr e = bytes_at (us_w s) (uo_py_buffer x) \<and> mem (us_w s) (sqe_addr e) = Some bs \<and> unat (sqe_len e) \<le> length bs"
proof -
  note inv = ur_reaches_inv [OF assms(1)] and mem = ur_reaches_mem [OF assms(1)]
  have e: "e \<in> set (sq_of self (us_w s)) \<or> e \<in> set (us_kernel s)" using assms(2) by simp
  obtain x bs where x: "ur_ops (us_w s) (sqe_user_data e) = Some x" "uo_py_buffer x \<noteq> NULL"
    and b: "sqe_addr e = bytes_at (us_w s) (uo_py_buffer x)" "mem (us_w s) (sqe_addr e) = Some bs" "unat (sqe_len e) \<le> length bs"
    using read_entry [OF mem e assms(3)] by metis
  have "entry_ok (ur_ops (us_w s)) e" by (rule mem_okD(4) [OF mem e])
  moreover have "sqe_user_data e \<noteq> CANCEL_USER_DATA" using ur_opD(4) [OF inv x(1)] .
  ultimately have "uo_in_progress x = 1" "uo_done x = 0" "e = request_ur (us_w s) (sqe_user_data e)"
    using x(1) by (simp_all add: entry_ok_def op_ur_def)
  moreover have "0 < refs (us_w s) (uo_py_buffer x)" using held_alive(1) [OF inv mem x(1)] x(2) by blast
  ultimately show ?thesis using x b by blast
qed

theorem ur_kernel_memory_witness:
  "\<exists>(s :: ur_sys) e bs. us_accepted s = [2] \<and> sqe_opcode e = IORING_OP_READ \<and> sq_of 1 (us_w s) = [e] \<and>
     mem (us_w s) (sqe_addr e) = Some bs \<and> unat (sqe_len e) \<le> length bs"
proof -
  obtain s e where s: "ur_reaches 1 {2} s" "us_accepted s = [2]" "sq_of 1 (us_w s) = [e]" "sqe_opcode e = IORING_OP_READ"
    by (rule ex_submitted)
  then have "e \<in> set (sq_of 1 (us_w s)) \<union> set (us_kernel s)" "sqe_opcode e \<in> {IORING_OP_READ, IORING_OP_WRITE}" by simp_all
  from ur_kernel_memory [OF s(1) this] obtain bs where "mem (us_w s) (sqe_addr e) = Some bs" "unat (sqe_len e) \<le> length bs"
    by blast
  then show ?thesis using s(2-4) by metis
qed

section \<open>Everything accepted can complete\<close>

text \<open>What a run that only finishes work leaves as it is.\<close>

definition same_work :: "ptr \<Rightarrow> ur_sys \<Rightarrow> ur_sys \<Rightarrow> bool" where
  "same_work self s s' \<longleftrightarrow> sq_of self (us_w s') = sq_of self (us_w s) \<and> us_kernel s' = us_kernel s \<and>
     us_user s' = us_user s \<and> us_accepted s' = us_accepted s"

lemma finish_all_runs:
  assumes "data_ur self A s" and "own_inv self A (own_ur self A s)"
  shows "\<exists>s'. (ur_step self A)\<^sup>*\<^sup>* s s' \<and> us_batch s' = [] \<and> same_work self s s' \<and> cq_of self (us_w s') = cq_of self (us_w s)"
  using assms
proof (induction "us_batch s" arbitrary: s)
  case Nil
  then show ?case by (intro exI [of _ s]) (simp add: same_work_def)
next
  case (Cons b rest)
  obtain p res called where b: "b = ((p, res), called)" by (metis prod.exhaust)
  define w1 where "w1 = (if called then us_w s else run_callback (\<lambda>cb v w. (True, w)) (uo_callback (op_ur (us_w s) p)) (PyLong (sint res)) (us_w s))"
  define s1 where "s1 = s\<lparr>us_w := w1, us_batch := ((p, res), True) # rest, us_called := us_called s @ (if called then [] else [p])\<rparr>"
  have batch: "us_batch s = ((p, res), called) # rest" using Cons.hyps(2) b by simp
  have run1: "(ur_step self A)\<^sup>*\<^sup>* s s1"
  proof (cases called)
    case True
    then have "s1 = s" using batch by (intro ur_sys.equality) (simp_all add: s1_def w1_def)
    then show ?thesis by simp
  next
    case False
    then show ?thesis using ur_step.call [of s p res rest self A "\<lambda>_ _. True"] batch by (auto simp: s1_def w1_def)
  qed
  note inv1 = uring_sys.run_refines [OF run1 Cons.prems]
  define s2 where "s2 = s1\<lparr>us_w := decref_op_ur p w1, us_batch := rest\<rparr>"
  have step2: "ur_step self A s1 s2" using ur_step.release [of s1 p res rest self A] by (simp add: s1_def s2_def)
  have run2: "(ur_step self A)\<^sup>*\<^sup>* s s2" using run1 step2 by (rule rtranclp.rtrancl_into_rtrancl)
  note inv2 = uring_sys.run_refines [OF run2 Cons.prems]
  have "ur_ctxs (us_w s2) = ur_ctxs (us_w s)"
  proof -
    have "p \<in># ow_batch (own_ur self A s1)" by (simp add: own_ur_sel s1_def)
    from in_batch_alive(1) [OF _ this] inv1 obtain x where x: "ur_ops (us_w s1) p = Some x" "phase_ur x = Done"
      by (auto simp: own_ur_def)
    then have "uo_context x = NULL" using ur_opD(5) [OF _ _ x(1)] inv1 by (auto simp: op_form_def phase_ur_def split: if_splits)
    then have "ur_ctxs (decref_op_ur p w1) = ur_ctxs w1" using decref_op_frame(2) [of w1 p x] x(1) by (simp add: s1_def)
    then show ?thesis by (simp add: s2_def w1_def run_callback_frame)
  qed
  then have same: "same_work self s s2" "cq_of self (us_w s2) = cq_of self (us_w s)"
    by (simp_all add: same_work_def sq_of_def cq_of_def s2_def s1_def)
  have "rest = us_batch s2" by (simp add: s2_def)
  then obtain s' where "(ur_step self A)\<^sup>*\<^sup>* s2 s'" "us_batch s' = []" "same_work self s2 s'" "cq_of self (us_w s') = cq_of self (us_w s2)"
    using Cons.hyps(1) [of s2] inv2 by blast
  then show ?case using run2 same by (intro exI [of _ s']) (auto simp: same_work_def intro: rtranclp_trans)
qed

lemma settle_runs:
  assumes data: "data_ur self A s" and inv: "own_inv self A (own_ur self A s)" and user: "0 < us_user s self"
  shows "\<exists>s'. (ur_step self A)\<^sup>*\<^sup>* s s' \<and> us_batch s' = [] \<and> same_work self s s' \<and> cq_of self (us_w s') = []"
proof -
  let ?s = "scanned self (- 1) s"
  obtain c where c: "ur_ctxs (us_w s) self = Some c" "ctx_form c" by (rule ur_ctxD [OF data inv user])
  then obtain q where q: "uc_cq c = Some q" by (auto simp: ctx_form_def cq_wf_def)
  obtain c' where c': "ur_ctxs (before_callbacks self (- 1) (us_w s)) self = Some c'" "sq_list c' = sq_list c"
    by (rule scanned_form [OF c(2,1)])
  have "length (cq_pending self (us_w s)) < 2 ^ 32"
    using c(1) q unat_lt32 by (simp add: cq_pending_def ctx_ur_def cq_entries_def)
  then have "length (cq_pending self (us_w s)) \<le> unat (- 1 :: u32)"
    by (simp add: unsigned_minus_1_eq_mask mask_eq_exp_minus_1)
  then have "drained self (- 1) (us_w s) = cq_pending self (us_w s)" by (simp add: drained_def consumed_all)
  then have empty: "cq_of self (us_w ?s) = []"
    using pending_before_callbacks [OF c(1) q, of "- 1"] pending_of [of "us_w ?s" self] c' by (simp add: scanned_def)
  note step = scan_runs [OF data inv user, of "- 1"]
  have "data_ur self A ?s" "own_inv self A (own_ur self A ?s)"
    using uring_sys.run_refines [OF r_into_rtranclp [of "ur_step self A", OF step] data inv] by simp_all
  from finish_all_runs [OF this] obtain s' where s': "(ur_step self A)\<^sup>*\<^sup>* ?s s'" "us_batch s' = []" "same_work self ?s s'"
    "cq_of self (us_w s') = cq_of self (us_w ?s)" by blast
  have "same_work self s ?s" using c c' by (simp add: same_work_def scanned_def)
  then show ?thesis using s' step empty
    by (intro exI [of _ s']) (auto simp: same_work_def intro: converse_rtranclp_into_rtranclp)
qed

text \<open>
  C28. Nothing accepted can get stuck. From every state a program can reach, as long as it
  still holds the Context, there is a run in which only the kernel works and the program
  drains, at the end of which every operation ever accepted has been completed and called
  back, and nothing is left in the rings, with the kernel or in a batch.
\<close>

theorem ur_all_complete:
  assumes "ur_reaches self A s" and "0 < us_user s self"
  shows "\<exists>s'. (ur_step self A)\<^sup>*\<^sup>* s s' \<and> places self s' = [] \<and> us_batch s' = [] \<and> us_accepted s' = us_accepted s \<and>
    mset (us_called s') = mset (us_accepted s) \<and> refs (us_w s') self = int (us_user s self)"
proof -
  have "\<exists>s'. (ur_step self A)\<^sup>*\<^sup>* s s' \<and> places self s' = [] \<and> us_batch s' = [] \<and> us_accepted s' = us_accepted s \<and> us_user s' = us_user s"
    if "data_ur self A s" "own_inv self A (own_ur self A s)" "0 < us_user s self" for s
    using that
  proof (induction "2 * length (sq_of self (us_w s)) + length (us_kernel s)" arbitrary: s rule: less_induct)
    case less
    obtain t where t: "(ur_step self A)\<^sup>*\<^sup>* s t" "us_batch t = []" "same_work self s t" "cq_of self (us_w t) = []"
      using settle_runs [OF less.prems] by blast
    note inv = uring_sys.run_refines [OF t(1) less.prems(1,2)]
    have user: "0 < us_user t self" using less.prems(3) t(3) by (simp add: same_work_def)
    show ?case
    proof (cases "us_kernel t")
      case (Cons e ls)
      obtain u where u: "ur_step self A t u" "sq_of self (us_w u) = sq_of self (us_w t)" "us_kernel u = ls"
        "us_user u = us_user t" "us_accepted u = us_accepted t"
        using kernel_can_post [OF _ _ user Cons t(4)] inv by blast
      have run: "(ur_step self A)\<^sup>*\<^sup>* s u" using t(1) u(1) by (rule rtranclp.rtrancl_into_rtrancl)
      note inv' = uring_sys.run_refines [OF run less.prems(1,2)]
      have "us_kernel s = e # ls" "sq_of self (us_w t) = sq_of self (us_w s)" using t(3) Cons by (simp_all add: same_work_def)
      then have small: "2 * length (sq_of self (us_w u)) + length (us_kernel u) < 2 * length (sq_of self (us_w s)) + length (us_kernel s)"
        using u(2,3) by simp
      obtain s' where "(ur_step self A)\<^sup>*\<^sup>* u s'" "places self s' = []" "us_batch s' = []" "us_accepted s' = us_accepted u" "us_user s' = us_user u"
        using less.hyps [of u, OF small] inv' u user by auto
      then show ?thesis using run u t(3) by (intro exI [of _ s']) (auto simp: same_work_def intro: rtranclp_trans)
    next
      case Nil
      show ?thesis
      proof (cases "sq_of self (us_w t)")
        case (Cons e es)
        obtain u where u: "ur_step self A t u" "sq_of self (us_w u) = es" "us_kernel u = us_kernel t @ [e]"
          "us_user u = us_user t" "us_accepted u = us_accepted t"
          using kernel_can_take [OF _ _ user Cons] inv by blast
        have run: "(ur_step self A)\<^sup>*\<^sup>* s u" using t(1) u(1) by (rule rtranclp.rtrancl_into_rtrancl)
        note inv' = uring_sys.run_refines [OF run less.prems(1,2)]
        have "us_kernel s = []" "sq_of self (us_w s) = e # es" using t(3) Cons Nil by (simp_all add: same_work_def)
        then have small: "2 * length (sq_of self (us_w u)) + length (us_kernel u) < 2 * length (sq_of self (us_w s)) + length (us_kernel s)"
          using u(2,3) Nil by simp
        obtain s' where "(ur_step self A)\<^sup>*\<^sup>* u s'" "places self s' = []" "us_batch s' = []" "us_accepted s' = us_accepted u" "us_user s' = us_user u"
          using less.hyps [of u, OF small] inv' u user by auto
        then show ?thesis using run u t(3) by (intro exI [of _ s']) (auto simp: same_work_def intro: rtranclp_trans)
      next
        case none: Nil
        then have "places self t = []" using Nil t(4) by (simp add: places_def)
        then show ?thesis using t by (intro exI [of _ t]) (simp add: same_work_def)
      qed
    qed
  qed
  from this [OF ur_reaches_inv [OF assms(1)] assms(2)] obtain s' where s': "(ur_step self A)\<^sup>*\<^sup>* s s'"
    "places self s' = []" "us_batch s' = []" "us_accepted s' = us_accepted s" "us_user s' = us_user s" by blast
  note inv = uring_sys.run_refines [OF s'(1) ur_reaches_inv [OF assms(1)]]
  have "mset (us_called s') = mset (us_accepted s)" using inv s' by (simp add: data_ur_def history_ok_def)
  moreover have "refs (us_w s') self = int (us_user s self)"
    using own_invD(2) [of self A "own_ur self A s'"] inv s' by (simp add: own_ur_def)
  ultimately show ?thesis using s' by blast
qed

theorem ur_all_complete_witness:
  "\<exists>s s'. (ur_step 1 {2})\<^sup>*\<^sup>* s s' \<and> us_accepted s = [2] \<and> sq_of 1 (us_w s) \<noteq> [] \<and> mset (us_called s') = {#2#} \<and> places 1 s' = []"
proof -
  obtain s e where s: "ur_reaches 1 {2} s" "0 < us_user s 1" "us_accepted s = [2]" "sq_of 1 (us_w s) = [e]" by (rule ex_submitted)
  from ur_all_complete [OF s(1,2)] s(3,4) show ?thesis by force
qed

end
