(* ===== verification/Linux_AIO.thy ===== *)
theory Linux_AIO
  imports Py_Runtime
begin

text \<open>
  The kernel AIO backend, \<^verbatim>\<open>caio/linux_aio.c\<close>: a Context is a kernel AIO context and an
  eventfd; an Operation carries the control block the kernel reads and writes, and the
  control block's data field carries the address of the Operation. \<^verbatim>\<open>submit\<close> claims its
  arguments and hands all of them over in one call, \<^verbatim>\<open>process_events\<close> and \<^verbatim>\<open>cancel\<close> deliver
  events. The kernel is a parameter (\<open>la_env\<close>): it answers the system calls and changes
  the state during them.
\<close>

section \<open>Data\<close>

definition CTX_MAX_REQUESTS_DEFAULT_la :: u32 where [simp]: "CTX_MAX_REQUESTS_DEFAULT_la = 32"
definition EV_MAX_REQUESTS_DEFAULT_la :: u32 where [simp]: "EV_MAX_REQUESTS_DEFAULT_la = 512"
definition MAX_EVENTS_REQUEST :: u32 where [simp]: "MAX_EVENTS_REQUEST = 0x100000"

text \<open>Constants of the kernel interface.\<close>

definition IOCB_CMD_PREAD :: u16 where [simp]: "IOCB_CMD_PREAD = 0"
definition IOCB_CMD_PWRITE :: u16 where [simp]: "IOCB_CMD_PWRITE = 1"
definition IOCB_CMD_FSYNC :: u16 where [simp]: "IOCB_CMD_FSYNC = 2"
definition IOCB_CMD_FDSYNC :: u16 where [simp]: "IOCB_CMD_FDSYNC = 3"
definition IOCB_FLAG_RESFD :: u32 where [simp]: "IOCB_FLAG_RESFD = 1"

definition EBADF :: int where [simp]: "EBADF = 9"
definition EAGAIN :: int where [simp]: "EAGAIN = 11"
definition EFAULT :: int where [simp]: "EFAULT = 14"
definition EINVAL :: int where [simp]: "EINVAL = 22"
definition ENOSYS :: int where [simp]: "ENOSYS = 38"

record iocb =
  aio_data :: u64
  aio_lio_opcode :: u16
  aio_reqprio :: u16
  aio_fildes :: u32
  aio_buf :: u64
  aio_nbytes :: u64
  aio_offset :: u64
  aio_flags :: u32
  aio_resfd :: u32

record io_event =
  ev_data :: u64
  ev_res :: u64

record AIOOperation_la =
  lo_context :: ptr
  lo_py_buffer :: ptr
  lo_callback :: ptr
  lo_buffer :: ptr
  lo_error :: u32
  lo_in_progress :: u8
  lo_done :: u8
  lo_iocb :: iocb
  lo_weakreflist :: ptr

record AIOContext_la =
  lc_ctx :: u64
  lc_fileno :: int
  lc_max_requests :: u32
  lc_weakreflist :: ptr

record la_world = pyrt +
  la_ops :: "ptr \<Rightarrow> AIOOperation_la option"
  la_ctxs :: "ptr \<Rightarrow> AIOContext_la option"

text \<open>
  \<open>le_submit ctx ps w\<close> is \<^verbatim>\<open>io_submit\<close> on the control blocks of the operations \<open>ps\<close>: its
  result, \<^verbatim>\<open>errno\<close> and the state after it. \<open>le_cancel\<close> gives the event as well.
  \<open>le_getevents ctx min max timeout w\<close> gives the error number or the events; no timeout is
  \<open>None\<close>. \<open>le_call\<close> is a callback: whether it returned, and the state after it.
\<close>

record la_env =
  le_submit :: "u64 \<Rightarrow> ptr list \<Rightarrow> la_world \<Rightarrow> int \<times> int \<times> la_world"
  le_cancel :: "u64 \<Rightarrow> ptr \<Rightarrow> la_world \<Rightarrow> int \<times> int \<times> io_event \<times> la_world"
  le_getevents :: "u64 \<Rightarrow> u32 \<Rightarrow> u32 \<Rightarrow> int option \<Rightarrow> la_world \<Rightarrow> (int + io_event list) \<times> la_world"
  le_memory :: bool
  le_call :: "ptr \<Rightarrow> pyval \<Rightarrow> la_world \<Rightarrow> bool \<times> la_world"

definition upd_op_la :: "ptr \<Rightarrow> (AIOOperation_la \<Rightarrow> AIOOperation_la) \<Rightarrow> la_world \<Rightarrow> la_world" where
  "upd_op_la p f w = w\<lparr>la_ops := (la_ops w)(p := map_option f (la_ops w p))\<rparr>"

definition op_la :: "la_world \<Rightarrow> ptr \<Rightarrow> AIOOperation_la" where
  "op_la w p = the (la_ops w p)"

definition ctx_la :: "la_world \<Rightarrow> ptr \<Rightarrow> AIOContext_la" where
  "ctx_la w p = the (la_ctxs w p)"

abbreviation upd_iocb :: "(iocb \<Rightarrow> iocb) \<Rightarrow> AIOOperation_la \<Rightarrow> AIOOperation_la" where
  "upd_iocb f x \<equiv> x\<lparr>lo_iocb := f (lo_iocb x)\<rparr>"

section \<open>Errors of the system calls\<close>

definition io_cancel_error :: "int \<Rightarrow> int \<Rightarrow> pyexc option" where
  "io_cancel_error result errno =
     (if result = 0 then None
      else if errno = EAGAIN then
        Some (PyErr_SetString PyExc_SystemError ''Specified operation was not canceled [EAGAIN]'')
      else if errno = EFAULT then
        Some (PyErr_SetString PyExc_RuntimeError ''One of the data structures points to invalid data [EFAULT]'')
      else if errno = EINVAL then
        Some (PyErr_SetString PyExc_ValueError ''The AIO context specified by ctx_id is invalid [EINVAL]'')
      else if errno = ENOSYS then
        Some (PyErr_SetString PyExc_NotImplementedError ''io_cancel() is not implemented on this architecture [ENOSYS]'')
      else Some (PyErr_SetFromErrno PyExc_SystemError errno))"

definition io_submit_error :: "int \<Rightarrow> int \<Rightarrow> pyexc option" where
  "io_submit_error result errno =
     (if result \<ge> 0 then None
      else if errno = EAGAIN then
        Some (PyErr_SetString PyExc_OverflowError ''Insufficient resources are available to queue any iocbs [EAGAIN]'')
      else if errno = EBADF then
        Some (PyErr_SetString PyExc_ValueError ''The file descriptor specified in the first iocb is invalid [EBADF]'')
      else if errno = EFAULT then
        Some (PyErr_SetString PyExc_ValueError ''One of the data structures points to invalid data [EFAULT]'')
      else if errno = EINVAL then
        Some (PyErr_SetString PyExc_ValueError ''The AIO context specified by ctx_id is invalid. nr is less than 0. The iocb at *iocbpp[0] is not properly initialized, the operation specified is invalid for the file descriptor in the iocb, or the value in the aio_reqprio field is invalid. [EINVAL]'')
      else Some (PyErr_SetFromErrno PyExc_SystemError errno))"

section \<open>Deallocation\<close>

definition AIOContext_dealloc_la :: "ptr \<Rightarrow> la_world \<Rightarrow> la_world" where
  "AIOContext_dealloc_la self w =
     (let c = ctx_la w self;
          w = (if lc_weakreflist c \<noteq> NULL then emit (Ev_ClearWeakRefs self) w else w);
          w = (if lc_ctx c \<noteq> 0 then emit (Ev_IoDestroy (lc_ctx c)) w else w);
          w = (if lc_fileno c \<ge> 0 then emit (Ev_Close (lc_fileno c)) w else w)
      in emit (Ev_Dealloc self) (w\<lparr>la_ctxs := (la_ctxs w)(self := None)\<rparr>))"

definition decref_ctx_la :: "ptr \<Rightarrow> la_world \<Rightarrow> la_world" where
  "decref_ctx_la = decref_with AIOContext_dealloc_la"

text \<open>\<^verbatim>\<open>Py_CLEAR(op->context)\<close>\<close>

definition clear_context_la :: "ptr \<Rightarrow> la_world \<Rightarrow> la_world" where
  "clear_context_la self w =
     (let cx = lo_context (op_la w self);
          w = upd_op_la self (\<lambda>x. x\<lparr>lo_context := NULL\<rparr>) w
      in if cx = NULL then w else decref_ctx_la cx w)"

definition AIOOperation_clear_la :: "ptr \<Rightarrow> la_world \<Rightarrow> la_world" where
  "AIOOperation_clear_la self w =
     (let w = clear_context_la self w;
          cb = lo_callback (op_la w self);
          w = Py_XDECREF cb (upd_op_la self (\<lambda>x. x\<lparr>lo_callback := NULL\<rparr>) w);
          w = (if aio_lio_opcode (lo_iocb (op_la w self)) = IOCB_CMD_PREAD \<and> lo_buffer (op_la w self) \<noteq> NULL
               then upd_op_la self (\<lambda>x. x\<lparr>lo_buffer := NULL\<rparr>) (PyMem_Free (lo_buffer (op_la w self)) w)
               else w);
          pb = lo_py_buffer (op_la w self)
      in Py_XDECREF pb (upd_op_la self (\<lambda>x. x\<lparr>lo_py_buffer := NULL\<rparr>) w))"

definition AIOOperation_dealloc_la :: "ptr \<Rightarrow> la_world \<Rightarrow> la_world" where
  "AIOOperation_dealloc_la self w =
     (let w = (if lo_weakreflist (op_la w self) \<noteq> NULL then emit (Ev_ClearWeakRefs self) w else w);
          w = AIOOperation_clear_la self w
      in emit (Ev_Dealloc self) (w\<lparr>la_ops := (la_ops w)(self := None)\<rparr>))"

definition decref_op_la :: "ptr \<Rightarrow> la_world \<Rightarrow> la_world" where
  "decref_op_la = decref_with AIOOperation_dealloc_la"

section \<open>Context: creation\<close>

definition new_ctx_la :: AIOContext_la where
  "new_ctx_la = \<lparr>lc_ctx = 0, lc_fileno = 0, lc_max_requests = 0, lc_weakreflist = NULL\<rparr>"

definition AIOContext_new_la :: "ptr \<Rightarrow> la_world \<Rightarrow> la_world" where
  "AIOContext_new_la self w =
     (if self = NULL then w
      else w\<lparr>la_ctxs := (la_ctxs w)(self := Some new_ctx_la), refs := (refs w)(self := 1)\<rparr>)"

text \<open>
  \<open>eventfd\<close> is the answer of \<^verbatim>\<open>eventfd\<close> with \<^verbatim>\<open>errno\<close>, \<open>setup\<close> that of \<^verbatim>\<open>io_setup\<close>: result,
  \<^verbatim>\<open>errno\<close> and the context it stored. An omitted argument is parsed as 0.
\<close>

definition AIOContext_init_la ::
  "int \<times> int \<Rightarrow> u32 option \<Rightarrow> (u32 \<Rightarrow> int \<times> int \<times> u64) \<Rightarrow> AIOContext_la \<Rightarrow> unit outcome \<times> AIOContext_la" where
  "AIOContext_init_la eventfd parsed setup c =
     (let c = c\<lparr>lc_ctx := 0, lc_max_requests := 0\<rparr>;
          (fd, errno) = eventfd;
          c = c\<lparr>lc_fileno := fd\<rparr> in
      if fd < 0 then (Raise (PyErr_SetFromErrno PyExc_SystemError errno), c)
      else
        (case parsed of None \<Rightarrow> (Raise PyErr_Pending, c)
         | Some max_requests \<Rightarrow>
             let c = c\<lparr>lc_max_requests := (if max_requests \<le> 0 then CTX_MAX_REQUESTS_DEFAULT_la else max_requests)\<rparr>;
                 (ret, errno, ctx) = setup (lc_max_requests c);
                 c = c\<lparr>lc_ctx := ctx\<rparr>
             in if ret < 0 then (Raise (PyErr_SetFromErrno PyExc_SystemError errno), c) else (Ret (), c)))"

text \<open>The attribute \<^verbatim>\<open>max_requests\<close> is described as a \<^verbatim>\<open>T_USHORT\<close>: its low 16 bits.\<close>

definition AIOContext_members_max_requests :: "AIOContext_la \<Rightarrow> int" where
  "AIOContext_members_max_requests c = uint (ucast (lc_max_requests c) :: u16)"

section \<open>Submitting\<close>

text \<open>One claim: the Context is held in place of the one of an earlier call, and the iocb set up.\<close>

definition claim_op_la :: "ptr \<Rightarrow> ptr \<Rightarrow> la_world \<Rightarrow> la_world" where
  "claim_op_la self p w =
     (let w = upd_op_la p (\<lambda>x. x\<lparr>lo_in_progress := 1\<rparr>) w;
          old = lo_context (op_la w p);
          w = (if old = NULL then w else decref_ctx_la old w);
          w = upd_op_la p (\<lambda>x. x\<lparr>lo_context := self\<rparr>) w;
          w = Py_INCREF p (Py_INCREF self w)
      in upd_op_la p (upd_iocb (\<lambda>b. b\<lparr>aio_flags := aio_flags b OR IOCB_FLAG_RESFD,
            aio_resfd := word_of_int (lc_fileno (ctx_la w self))\<rparr>)) w)"

text \<open>The first loop of \<^verbatim>\<open>submit\<close>: the operations claimed, in order, and the state.\<close>

fun claim_all_la :: "ptr \<Rightarrow> ptr list \<Rightarrow> la_world \<Rightarrow> ptr list \<times> la_world" where
  "claim_all_la self [] w = ([], w)"
| "claim_all_la self (p # ps) w =
     (if lo_in_progress (op_la w p) \<noteq> 0 then
        claim_all_la self ps (upd_op_la p (\<lambda>x. x\<lparr>lo_in_progress := 1\<rparr>) w)
      else
        let (claimed, w) = claim_all_la self ps (claim_op_la self p w) in (p # claimed, w))"

text \<open>One step of the two rollback loops.\<close>

definition rollback_la :: "ptr \<Rightarrow> la_world \<Rightarrow> la_world" where
  "rollback_la p w = decref_op_la p (clear_context_la p (upd_op_la p (\<lambda>x. x\<lparr>lo_in_progress := 0\<rparr>) w))"

definition AIOContext_submit_la :: "la_env \<Rightarrow> ptr \<Rightarrow> ptr list option \<Rightarrow> la_world \<Rightarrow> pyval outcome \<times> la_world" where
  "AIOContext_submit_la env self args w =
     (if lc_ctx (ctx_la w self) = 0 then
        (Raise (PyErr_SetString PyExc_RuntimeError ''self->ctx is NULL''), w)
      else
        (case args of None \<Rightarrow> (Raise (PyErr_SetNone PyExc_ValueError), w)
         | Some ps \<Rightarrow>
             if ps = [] then (Ret (PyLong 0), w)
             else
               (case wrong_type (la_ops w) 0 ps of
                  Some i \<Rightarrow>
                    (Raise (PyErr_Format PyExc_TypeError ''Wrong type for argument %zd -> %R'' [int i, uint (ps ! i)]), w)
                | None \<Rightarrow>
                    if \<not> le_memory env then (Raise PyErr_NoMemory, w)
                    else
                      let (claimed, w) = claim_all_la self ps w in
                      if claimed = [] then (Ret (PyLong 0), w)
                      else
                        let (result, errno, w) = le_submit env (lc_ctx (ctx_la w self)) claimed w in
                        (case io_submit_error result errno of
                           Some e \<Rightarrow> (Raise e, fold rollback_la claimed w)
                         | None \<Rightarrow> (Ret (PyLong result), fold rollback_la (drop (nat result) claimed) w)))))"

section \<open>Delivering events\<close>

text \<open>What an event leaves in its operation; \<open>op->error\<close> is an int, so the negated result is cut to it.\<close>

definition complete_event :: "ptr \<Rightarrow> u64 \<Rightarrow> la_world \<Rightarrow> la_world" where
  "complete_event op res w =
     (let w = (if sint res \<ge> 0 then upd_op_la op (upd_iocb (\<lambda>b. b\<lparr>aio_nbytes := res\<rparr>)) w
               else upd_op_la op (\<lambda>x. x\<lparr>lo_error := ucast (- res)\<rparr>) w)
      in upd_op_la op (\<lambda>x. x\<lparr>lo_done := 1\<rparr>) (clear_context_la op w))"

text \<open>The callback gets the result through the format \<^verbatim>\<open>K\<close>, as an unsigned number.\<close>

definition deliver_event :: "la_env \<Rightarrow> io_event \<Rightarrow> la_world \<Rightarrow> la_world" where
  "deliver_event env ev w =
     (let op = ev_data ev;
          w = complete_event op (ev_res ev) w
      in decref_op_la op (run_callback (le_call env) (lo_callback (op_la w op)) (PyLong (uint (ev_res ev))) w))"

text \<open>An event whose data is no live operation is an invalid access.\<close>

fun deliver_events :: "la_env \<Rightarrow> io_event list \<Rightarrow> la_world \<Rightarrow> la_world option" where
  "deliver_events env [] w = Some w"
| "deliver_events env (ev # evs) w =
     (if la_ops w (ev_data ev) = None then None else deliver_events env evs (deliver_event env ev w))"

definition AIOContext_process_events_la ::
  "la_env \<Rightarrow> ptr \<Rightarrow> (u32 \<times> u32 \<times> int) option \<Rightarrow> la_world \<Rightarrow> pyval outcome \<times> la_world" where
  "AIOContext_process_events_la env self parsed w =
     (if lc_ctx (ctx_la w self) = 0 then (Raise (PyErr_SetNone PyExc_RuntimeError), w)
      else
        (case parsed of None \<Rightarrow> (Raise PyErr_Pending, w)
         | Some (max_requests, min_requests, tv_sec) \<Rightarrow>
             let timeout = (if tv_sec \<ge> 0 then Some tv_sec else None);
                 max_requests = (if max_requests = 0 then EV_MAX_REQUESTS_DEFAULT_la else max_requests) in
             if max_requests > MAX_EVENTS_REQUEST then
               (Raise (PyErr_Format PyExc_OverflowError ''max_requests (%u) exceeds the maximum allowed (%u)''
                  [uint max_requests, uint MAX_EVENTS_REQUEST]), w)
             else if min_requests > max_requests then
               (Raise (PyErr_Format PyExc_ValueError ''min_requests \"%d\" must be lower then max_requests \"%d\"''
                  [sint min_requests, sint max_requests]), w)
             else if \<not> le_memory env then (Raise PyErr_NoMemory, w)
             else
               (case le_getevents env (lc_ctx (ctx_la w self)) min_requests max_requests timeout w of
                  (Inl errno, w) \<Rightarrow> (Raise (PyErr_SetFromErrno PyExc_SystemError errno), w)
                | (Inr events, w) \<Rightarrow>
                    (case deliver_events env events w of None \<Rightarrow> (Crash, w)
                     | Some w \<Rightarrow> (Ret (PyLong (int (length events))), w)))))"

text \<open>
  \<^verbatim>\<open>cancel\<close>: the event of a successful \<^verbatim>\<open>io_cancel\<close> is delivered here. An exception of the
  callback is passed on, unlike in \<open>deliver_event\<close>.
\<close>

definition AIOContext_cancel_la :: "la_env \<Rightarrow> ptr \<Rightarrow> ptr option \<Rightarrow> la_world \<Rightarrow> pyval outcome \<times> la_world" where
  "AIOContext_cancel_la env self parsed w =
     (if lc_ctx (ctx_la w self) = 0 then
        (Raise (PyErr_SetString PyExc_RuntimeError ''self->ctx is NULL''), w)
      else
        (case parsed of None \<Rightarrow> (Raise PyErr_Pending, w)
         | Some op \<Rightarrow>
             if la_ops w op = None then
               (Raise (PyErr_Format PyExc_TypeError ''Operation required not %r'' [uint op]), w)
             else
               let (ret, errno, ev, w) = le_cancel env (lc_ctx (ctx_la w self)) op w in
               (case io_cancel_error ret errno of Some e \<Rightarrow> (Raise e, w)
                | None \<Rightarrow>
                    let w = complete_event op (ev_res ev) w;
                        cb = lo_callback (op_la w op);
                        v = PyLong (uint (ev_res ev));
                        (returned, w) = (if cb = NULL then (True, w)
                           else let (returned, w) = le_call env cb v (emit (Ev_Callback cb v) (Py_INCREF cb w))
                                in (returned, Py_DECREF cb w));
                        w = decref_op_la op w
                    in ((if returned then Ret (PyLong (sint (ev_res ev))) else Raise PyErr_Pending), w))))"

text \<open>\<open>n\<close> is the number of bytes \<^verbatim>\<open>read\<close> delivered, \<open>counter\<close> what they are.\<close>

definition AIOContext_poll_la :: "ptr \<Rightarrow> int \<Rightarrow> u64 \<Rightarrow> la_world \<Rightarrow> pyval outcome" where
  "AIOContext_poll_la self n counter w =
     (if lc_ctx (ctx_la w self) = 0 then Raise (PyErr_SetNone PyExc_RuntimeError)
      else if lc_fileno (ctx_la w self) < 0 then Raise (PyErr_SetNone PyExc_RuntimeError)
      else if n \<noteq> 8 then Raise (PyErr_SetNone PyExc_BlockingIOError)
      else Ret (PyLong (uint counter)))"

section \<open>Operations: creation\<close>

definition zero_iocb :: iocb where
  "zero_iocb = \<lparr>aio_data = 0, aio_lio_opcode = 0, aio_reqprio = 0, aio_fildes = 0, aio_buf = 0,
     aio_nbytes = 0, aio_offset = 0, aio_flags = 0, aio_resfd = 0\<rparr>"

text \<open>The allocated object, its control block naming the operation itself.\<close>

definition alloc_op_la :: "ptr \<Rightarrow> la_world \<Rightarrow> la_world" where
  "alloc_op_la self w =
     w\<lparr>la_ops := (la_ops w)(self := Some \<lparr>lo_context = NULL, lo_py_buffer = NULL, lo_callback = NULL,
         lo_buffer = NULL, lo_error = 0, lo_in_progress = 0, lo_done = 0,
         lo_iocb = zero_iocb\<lparr>aio_data := self\<rparr>, lo_weakreflist = NULL\<rparr>),
       refs := (refs w)(self := 1)\<rparr>"

abbreviation no_memory_la :: pyexc where
  "no_memory_la \<equiv> PyErr_SetString PyExc_MemoryError ''can not allocate memory''"

text \<open>The arguments all four constructors parse; an omitted one leaves the field as it is.\<close>

definition parsed_la :: "ptr \<Rightarrow> u32 \<Rightarrow> u64 option \<Rightarrow> u16 option \<Rightarrow> la_world \<Rightarrow> la_world" where
  "parsed_la self fileno offset prio =
     upd_op_la self (upd_iocb (\<lambda>b. b\<lparr>aio_fildes := fileno,
       aio_offset := (case offset of None \<Rightarrow> aio_offset b | Some off \<Rightarrow> off),
       aio_reqprio := (case prio of None \<Rightarrow> aio_reqprio b | Some pr \<Rightarrow> pr)\<rparr>))"

text \<open>\<open>block\<close> is the answer of \<^verbatim>\<open>PyMem_Calloc\<close>, \<open>view\<close> that of \<^verbatim>\<open>PyMemoryView_FromMemory\<close>.\<close>

definition AIOOperation_read_la ::
  "ptr \<Rightarrow> (u64 \<times> u32 \<times> u64 option \<times> u16 option) option \<Rightarrow> ptr \<Rightarrow> ptr \<Rightarrow> la_world \<Rightarrow> pyval outcome \<times> la_world" where
  "AIOOperation_read_la self parsed block view w =
     (if self = NULL then (Raise no_memory_la, w)
      else
        let w = alloc_op_la self w in
        case parsed of None \<Rightarrow> (Raise PyErr_Pending, decref_op_la self w)
        | Some (nbytes, fileno, offset, prio) \<Rightarrow>
            let w = parsed_la self fileno offset prio w;
                w = upd_op_la self (\<lambda>x. x\<lparr>lo_buffer := block\<rparr>)
                  (if block = NULL then w else w\<lparr>mem := (mem w)(block \<mapsto> replicate (unat nbytes) 0)\<rparr>) in
            if block = NULL \<and> nbytes > 0 then (Raise PyErr_NoMemory, decref_op_la self w)
            else
              let w = upd_op_la self (upd_iocb (\<lambda>b. b\<lparr>aio_buf := block, aio_nbytes := nbytes\<rparr>)) w;
                  w = upd_op_la self (\<lambda>x. x\<lparr>lo_py_buffer := view\<rparr>) w in
              if view = NULL then (Raise PyErr_Pending, decref_op_la self w)
              else
                (Ret (PyObj self),
                 upd_op_la self (upd_iocb (\<lambda>b. b\<lparr>aio_lio_opcode := IOCB_CMD_PREAD\<rparr>)) (w\<lparr>refs := (refs w)(view := 1)\<rparr>)))"

text \<open>\<open>as_string\<close>: whether \<^verbatim>\<open>PyBytes_AsStringAndSize\<close> succeeds.\<close>

definition AIOOperation_write_la ::
  "ptr \<Rightarrow> (ptr \<times> u32 \<times> u64 option \<times> u16 option) option \<Rightarrow> bool \<Rightarrow> la_world \<Rightarrow> pyval outcome \<times> la_world" where
  "AIOOperation_write_la self parsed as_string w =
     (if self = NULL then (Raise no_memory_la, w)
      else
        let w = alloc_op_la self w in
        case parsed of None \<Rightarrow> (Raise PyErr_Pending, decref_op_la self w)
        | Some (payload, fileno, offset, prio) \<Rightarrow>
            let w = parsed_la self fileno offset prio w in
            if bytes_at w payload = NULL then
              (Raise (PyErr_SetString PyExc_ValueError ''payload_bytes argument must be bytes''), decref_op_la self w)
            else
              let w = upd_op_la self (upd_iocb (\<lambda>b. b\<lparr>aio_lio_opcode := IOCB_CMD_PWRITE\<rparr>)) w in
              if \<not> as_string then
                (Raise (PyErr_SetString PyExc_RuntimeError ''Can not convert bytes to c string''), decref_op_la self w)
              else
                let b = bytes_at w payload;
                    w = upd_op_la self (\<lambda>x. x\<lparr>lo_buffer := b, lo_py_buffer := payload\<rparr>) w;
                    w = Py_INCREF payload w
                in (Ret (PyObj self),
                    upd_op_la self (upd_iocb (\<lambda>i. i\<lparr>aio_nbytes := of_nat (length (the (mem w b))), aio_buf := b\<rparr>)) w))"

text \<open>\<^verbatim>\<open>fsync\<close> and \<^verbatim>\<open>fdsync\<close> differ in the opcode they set.\<close>

definition AIOOperation_sync_la :: "u16 \<Rightarrow> ptr \<Rightarrow> (u32 \<times> u16 option) option \<Rightarrow> la_world \<Rightarrow> pyval outcome \<times> la_world" where
  "AIOOperation_sync_la code self parsed w =
     (if self = NULL then (Raise no_memory_la, w)
      else
        let w = alloc_op_la self w in
        case parsed of None \<Rightarrow> (Raise PyErr_Pending, decref_op_la self w)
        | Some (fileno, prio) \<Rightarrow>
            (Ret (PyObj self), upd_op_la self (upd_iocb (\<lambda>b. b\<lparr>aio_lio_opcode := code\<rparr>)) (parsed_la self fileno None prio w)))"

definition AIOOperation_fsync_la :: "ptr \<Rightarrow> (u32 \<times> u16 option) option \<Rightarrow> la_world \<Rightarrow> pyval outcome \<times> la_world" where
  "AIOOperation_fsync_la = AIOOperation_sync_la IOCB_CMD_FSYNC"

definition AIOOperation_fdsync_la :: "ptr \<Rightarrow> (u32 \<times> u16 option) option \<Rightarrow> la_world \<Rightarrow> pyval outcome \<times> la_world" where
  "AIOOperation_fdsync_la = AIOOperation_sync_la IOCB_CMD_FDSYNC"

section \<open>Operations: results\<close>

definition AIOOperation_get_value_la :: "ptr \<Rightarrow> la_world \<Rightarrow> pyval outcome" where
  "AIOOperation_get_value_la self w =
     (let x = op_la w self; b = lo_iocb x in
      if lo_in_progress x \<noteq> 0 \<and> lo_done x = 0 then
        Raise (PyErr_SetString PyExc_RuntimeError ''get_value() is not available while the operation is in flight'')
      else if lo_error x \<noteq> 0 then Raise (PyErr_Format PyExc_SystemError ''strerror'' [sint (lo_error x)])
      else if aio_lio_opcode b = IOCB_CMD_PREAD then
        if lo_buffer x = NULL then Ret PyNone else PyBytes_FromStringAndSize (lo_buffer x) (aio_nbytes b) w
      else if aio_lio_opcode b = IOCB_CMD_PWRITE then Ret (PyLong (sint (aio_nbytes b)))
      else Ret PyNone)"

definition AIOOperation_payload_getter_la :: "ptr \<Rightarrow> la_world \<Rightarrow> pyval outcome \<times> la_world" where
  "AIOOperation_payload_getter_la self w =
     (let x = op_la w self in
      if lo_in_progress x \<noteq> 0 \<and> lo_done x = 0 then
        (Raise (PyErr_SetString PyExc_RuntimeError ''payload is not available while the operation is in flight''), w)
      else if lo_py_buffer x = NULL then (Ret PyNone, w)
      else (Ret (PyObj (lo_py_buffer x)), Py_INCREF (lo_py_buffer x) w))"

definition AIOOperation_set_callback_la :: "ptr \<Rightarrow> ptr option \<Rightarrow> bool \<Rightarrow> la_world \<Rightarrow> pyval outcome \<times> la_world" where
  "AIOOperation_set_callback_la self parsed callable w =
     (case parsed of None \<Rightarrow> (Raise PyErr_Pending, w)
      | Some callback \<Rightarrow>
          if \<not> callable then (Raise (PyErr_Format PyExc_ValueError ''object %r is not callable'' [uint callback]), w)
          else
            let w = Py_INCREF callback w;
                old = lo_callback (op_la w self);
                w = upd_op_la self (\<lambda>x. x\<lparr>lo_callback := callback\<rparr>) w
            in (Ret PyTrue, Py_XDECREF old w))"

end
