(* ===== verification/Laio_Properties.thy ===== *)
theory Laio_Properties
  imports Linux_AIO
begin

text \<open>
  The kernel AIO backend, step by step: what one claim, one rollback and one delivered event
  do, in closed form, and from these the loops of \<^verbatim>\<open>submit\<close> and \<^verbatim>\<open>process_events\<close> as
  functions of the lists they run over. The first loop of \<^verbatim>\<open>submit\<close> is an instance of the
  claiming interface: it is never refused, and the requests are the array of claimed
  operations. The properties stand in \<^verbatim>\<open>Laio_Claims\<close>.
\<close>

section \<open>The state operations field by field\<close>

lemma upd_op_la_frame [simp]:
  "la_ops (upd_op_la p f w) = (la_ops w)(p := map_option f (la_ops w p))"
  "la_ctxs (upd_op_la p f w) = la_ctxs w" "refs (upd_op_la p f w) = refs w"
  "mem (upd_op_la p f w) = mem w" "bytes_at (upd_op_la p f w) = bytes_at w"
  "trace (upd_op_la p f w) = trace w" "ctx_la (upd_op_la p f w) = ctx_la w"
  by (simp_all add: upd_op_la_def ctx_la_def fun_eq_iff)

lemma la_rt_frame [simp]:
  "la_ops (Py_INCREF p w) = la_ops w" "la_ctxs (Py_INCREF p w) = la_ctxs w" "ctx_la (Py_INCREF p w) = ctx_la w"
  "la_ops (Py_DECREF p w) = la_ops w" "la_ctxs (Py_DECREF p w) = la_ctxs w"
  "la_ops (emit e w) = la_ops w" "la_ctxs (emit e w) = la_ctxs w"
  by (simp_all add: Py_INCREF_def Py_DECREF_def decref_with_def py_dealloc_def emit_def Let_def ctx_la_def fun_eq_iff)

section \<open>Claiming\<close>

definition free_la :: "la_world \<Rightarrow> ptr \<Rightarrow> bool" where
  "free_la w p \<longleftrightarrow> (case la_ops w p of None \<Rightarrow> False | Some x \<Rightarrow> lo_in_progress x = 0)"

text \<open>
  What holds of the operations of a program between calls: one that is not claimed has no
  Context, and the claim flag is 0 or 1. Object addresses are not shared between types.
\<close>

definition ready_la :: "ptr \<Rightarrow> la_world \<Rightarrow> bool" where
  "ready_la self w \<longleftrightarrow> la_ops w self = None \<and> self \<noteq> NULL \<and> la_ctxs w self \<noteq> None \<and>
     (\<forall>p x. la_ops w p = Some x \<longrightarrow>
       (if lo_in_progress x = 0 then lo_context x = NULL else lo_in_progress x = 1))"

definition flagged_la :: "int \<Rightarrow> AIOOperation_la \<Rightarrow> AIOOperation_la" where
  "flagged_la fd = upd_iocb (\<lambda>b. b\<lparr>aio_flags := aio_flags b OR IOCB_FLAG_RESFD, aio_resfd := word_of_int fd\<rparr>)"

lemma flagged_la_fields [simp]:
  "lo_context (flagged_la fd x) = lo_context x" "lo_py_buffer (flagged_la fd x) = lo_py_buffer x"
  "lo_callback (flagged_la fd x) = lo_callback x" "lo_buffer (flagged_la fd x) = lo_buffer x"
  "lo_error (flagged_la fd x) = lo_error x" "lo_in_progress (flagged_la fd x) = lo_in_progress x"
  "lo_done (flagged_la fd x) = lo_done x" "lo_weakreflist (flagged_la fd x) = lo_weakreflist x"
  "aio_nbytes (lo_iocb (flagged_la fd x)) = aio_nbytes (lo_iocb x)"
  "aio_lio_opcode (lo_iocb (flagged_la fd x)) = aio_lio_opcode (lo_iocb x)"
  "aio_data (lo_iocb (flagged_la fd x)) = aio_data (lo_iocb x)"
  by (simp_all add: flagged_la_def)

abbreviation held_la :: "ptr \<Rightarrow> int \<Rightarrow> AIOOperation_la \<Rightarrow> AIOOperation_la" where
  "held_la self fd x \<equiv> (flagged_la fd x)\<lparr>lo_in_progress := 1, lo_context := self\<rparr>"

text \<open>
  The state in which the operations \<open>acc\<close> are claimed by \<open>self\<close> and the operations \<open>rej\<close> were
  claimed and rolled back: only the notification settings of their control blocks remain.
\<close>

definition submitted_la :: "ptr \<Rightarrow> ptr list \<Rightarrow> ptr list \<Rightarrow> la_world \<Rightarrow> la_world" where
  "submitted_la self acc rej w =
     (let fd = lc_fileno (ctx_la w self) in
      w\<lparr>refs := (\<lambda>q. refs w q + (if q \<in> set acc then 1 else 0) + (if q = self then int (length acc) else 0)),
        la_ops := (\<lambda>q. if q \<in> set acc then map_option (held_la self fd) (la_ops w q)
          else if q \<in> set rej then map_option (flagged_la fd) (la_ops w q) else la_ops w q)\<rparr>)"

lemma submitted_la_frame [simp]:
  "la_ctxs (submitted_la self acc rej w) = la_ctxs w" "ctx_la (submitted_la self acc rej w) = ctx_la w"
  "mem (submitted_la self acc rej w) = mem w" "trace (submitted_la self acc rej w) = trace w"
  "bytes_at (submitted_la self acc rej w) = bytes_at w"
  "refs (submitted_la self acc rej w) q =
     refs w q + (if q \<in> set acc then 1 else 0) + (if q = self then int (length acc) else 0)"
  "la_ops (submitted_la self acc rej w) q =
     (if q \<in> set acc then map_option (held_la self (lc_fileno (ctx_la w self))) (la_ops w q)
      else if q \<in> set rej then map_option (flagged_la (lc_fileno (ctx_la w self))) (la_ops w q) else la_ops w q)"
  by (simp_all add: submitted_la_def Let_def ctx_la_def fun_eq_iff)

lemma submitted_la_Nil [simp]: "submitted_la self [] [] w = w"
  by (intro la_world.equality) (simp_all add: fun_eq_iff)

lemma claim_op_la_closed:
  assumes "ready_la self w" and "free_la w p"
  shows "claim_op_la self p w = submitted_la self [p] [] w"
proof -
  obtain x where x: "la_ops w p = Some x" "lo_in_progress x = 0" using assms(2) by (auto simp: free_la_def split: option.splits)
  then have "lo_context x = NULL" and "p \<noteq> self" using assms(1) by (auto simp: ready_la_def)
  then show ?thesis
    using x by (intro la_world.equality)
      (auto simp: claim_op_la_def op_la_def flagged_la_def Let_def rt_simps fun_eq_iff)
qed

lemma submitted_la_Cons:
  assumes "p \<notin> set acc" "p \<notin> set rej"
  shows "submitted_la self acc rej (submitted_la self [p] [] w) = submitted_la self (p # acc) rej w"
  using assms by (intro la_world.equality) (auto simp: fun_eq_iff)

lemma ready_submitted:
  assumes "ready_la self w"
  shows "ready_la self (submitted_la self acc rej w)"
  using assms by (auto simp: ready_la_def split: if_splits) blast

lemma free_submitted: "free_la (submitted_la self acc rej w) q \<longleftrightarrow> q \<notin> set acc \<and> free_la w q"
  by (auto simp: free_la_def split: option.splits)

text \<open>The claimed array is part of the state of the loop.\<close>

interpretation aio: claiming "\<lambda>(cs, w). ready_la self w" "\<lambda>(cs, w). free_la w" fst "\<lambda>_ p. p"
    "\<lambda>_. None :: unit option" "\<lambda>p (cs, w). (cs @ [p], claim_op_la self p w)" for self
  by unfold_locales (auto simp: claim_op_la_closed ready_submitted free_submitted)

lemma claim_loop_la:
  assumes "ready_la self w" and "\<forall>p\<in>set ps. la_ops w p \<noteq> None"
  shows "claim_loop (\<lambda>(cs, w). free_la w) (\<lambda>_. None :: unit option) (\<lambda>p (cs, w). (cs @ [p], claim_op_la self p w)) ps (cs0, w) =
     (None, fst (claim_all_la self ps w), cs0 @ fst (claim_all_la self ps w), snd (claim_all_la self ps w))"
  using assms
proof (induction ps arbitrary: cs0 w)
  case Nil
  then show ?case by simp
next
  case (Cons p ps)
  obtain x where x: "la_ops w p = Some x" using Cons.prems(2) by auto
  have free: "free_la w p \<longleftrightarrow> lo_in_progress x = 0" by (simp add: free_la_def x)
  show ?case
  proof (cases "lo_in_progress x = 0")
    case True
    have closed: "claim_op_la self p w = submitted_la self [p] [] w"
      using claim_op_la_closed [OF Cons.prems(1)] free True by simp
    have "ready_la self (claim_op_la self p w)" unfolding closed by (rule ready_submitted [OF Cons.prems(1)])
    moreover have "\<forall>q\<in>set ps. la_ops (claim_op_la self p w) q \<noteq> None" using Cons.prems(2) by (simp add: closed)
    ultimately show ?thesis
      using Cons.IH [of "claim_op_la self p w" "cs0 @ [p]"] True x free by (simp add: op_la_def split_beta)
  next
    case False
    have "lo_in_progress x = 1" using Cons.prems(1) x False by (auto simp: ready_la_def split: if_splits)
    then have "x\<lparr>lo_in_progress := 1\<rparr> = x" by (cases x) simp
    then have "upd_op_la p (\<lambda>x. x\<lparr>lo_in_progress := 1\<rparr>) w = w" using x by (simp add: upd_op_la_def fun_upd_idem)
    then show ?thesis
      using Cons.IH [OF Cons.prems(1)] Cons.prems(2) False x free by (simp add: op_la_def)
  qed
qed

lemma claims_closed:
  assumes "ready_la self w" and "distinct cs" and "\<forall>p\<in>set cs. free_la w p"
  shows "fold (claim_op_la self) cs w = submitted_la self cs [] w"
  using assms
proof (induction cs arbitrary: w)
  case Nil
  then show ?case by simp
next
  case (Cons p cs)
  have closed: "claim_op_la self p w = submitted_la self [p] [] w"
    using claim_op_la_closed [OF Cons.prems(1)] Cons.prems(3) by simp
  have "fold (claim_op_la self) cs (claim_op_la self p w) = submitted_la self cs [] (claim_op_la self p w)"
    using Cons.prems by (intro Cons.IH) (auto simp: closed ready_submitted free_submitted)
  then show ?case using Cons.prems(2) by (simp add: closed submitted_la_Cons)
qed

text \<open>What the first loop of \<^verbatim>\<open>submit\<close> does.\<close>

lemma claim_all_la_spec:
  assumes "ready_la self w" and "\<forall>p\<in>set ps. la_ops w p \<noteq> None" and "claim_all_la self ps w = (cs, w')"
  shows "subseq cs ps \<and> distinct cs \<and> set cs = {p \<in> set ps. free_la w p} \<and> w' = submitted_la self cs [] w"
proof -
  let ?claim = "\<lambda>p (cs, w). (cs @ [p], claim_op_la self p w)"
  have loop: "claim_loop (\<lambda>(cs, w). free_la w) (\<lambda>_. None :: unit option) ?claim ps ([], w) = (None, cs, cs, w')"
    using claim_loop_la [OF assms(1,2), of "[]"] assms(3) by simp
  have fold: "fold ?claim ds (es, v) = (es @ ds, fold (claim_op_la self) ds v)" for ds es v
    by (induction ds arbitrary: es v) auto
  have "subseq cs ps \<and> distinct cs \<and> set cs = {p \<in> set ps. free_la w p} \<and> w' = fold (claim_op_la self) cs w"
    using aio.loop_claims [OF _ loop] assms(1) by (simp add: fold)
  then show ?thesis using claims_closed [OF assms(1)] by auto
qed

lemma mem_frame_la [simp]:
  "ready_la self (w\<lparr>mem := m\<rparr>) = ready_la self w" "free_la (w\<lparr>mem := m\<rparr>) = free_la w"
  by (simp_all add: ready_la_def free_la_def fun_eq_iff)

section \<open>Rolling back\<close>

lemma rollback_la_closed:
  assumes "la_ops w p = Some x" "lo_context x = self" "self \<noteq> NULL" "p \<noteq> self" "1 < refs w self" "1 < refs w p"
  shows "rollback_la p w = w\<lparr>refs := (refs w)(self := refs w self - 1, p := refs w p - 1),
     la_ops := (la_ops w)(p \<mapsto> x\<lparr>lo_in_progress := 0, lo_context := NULL\<rparr>)\<rparr>"
  using assms by (intro la_world.equality)
    (simp_all add: rollback_la_def clear_context_la_def decref_op_la_def decref_ctx_la_def decref_alive op_la_def Let_def)

lemma held_rolled_back:
  assumes "lo_in_progress x = 0" "lo_context x = NULL"
  shows "(held_la self fd x)\<lparr>lo_in_progress := 0, lo_context := NULL\<rparr> = flagged_la fd x"
  using assms by (cases x) (simp add: flagged_la_def)

definition claimable_la :: "ptr \<Rightarrow> ptr list \<Rightarrow> la_world \<Rightarrow> bool" where
  "claimable_la self cs w \<longleftrightarrow> ready_la self w \<and> distinct cs \<and> 0 < refs w self \<and>
     (\<forall>p\<in>set cs. free_la w p \<and> 0 < refs w p)"

lemma rollbacks_closed:
  assumes "claimable_la self (acc @ rej) w" and "set gone \<inter> set (acc @ rej) = {}"
  shows "fold rollback_la rej (submitted_la self (acc @ rej) gone w) = submitted_la self acc (gone @ rej) w"
  using assms
proof (induction rej arbitrary: gone)
  case Nil
  then show ?case by simp
next
  case (Cons p rej)
  from Cons.prems obtain x where x: "la_ops w p = Some x" "lo_in_progress x = 0" "0 < refs w p" "0 < refs w self"
    and ready: "ready_la self w" and notin: "p \<notin> set acc" "p \<notin> set rej"
    by (auto simp: claimable_la_def free_la_def split: option.splits)
  then have cx: "lo_context x = NULL" and ne: "p \<noteq> self" "self \<noteq> NULL" by (auto simp: ready_la_def)
  let ?v = "submitted_la self (acc @ p # rej) gone w"
  have "rollback_la p ?v = submitted_la self (acc @ rej) (gone @ [p]) w"
    using x cx ne notin rollback_la_closed [of ?v p "held_la self (lc_fileno (ctx_la w self)) x" self]
    by (intro la_world.equality) (auto simp: held_rolled_back fun_eq_iff)
  moreover have "fold rollback_la rej (submitted_la self (acc @ rej) (gone @ [p]) w) = submitted_la self acc ((gone @ [p]) @ rej) w"
    using Cons.prems by (intro Cons.IH) (auto simp: claimable_la_def)
  ultimately show ?case by simp
qed

lemma rollbacks_take_drop:
  assumes "claimable_la self cs w"
  shows "fold rollback_la (drop n cs) (submitted_la self cs [] w) = submitted_la self (take n cs) (drop n cs) w"
  using rollbacks_closed [of self "take n cs" "drop n cs" w "[]"] assms by simp

section \<open>Delivering events\<close>

definition completed_op_la :: "u64 \<Rightarrow> AIOOperation_la \<Rightarrow> AIOOperation_la" where
  "completed_op_la res x =
     (if sint res \<ge> 0 then upd_iocb (\<lambda>b. b\<lparr>aio_nbytes := res\<rparr>) x else x\<lparr>lo_error := ucast (- res)\<rparr>)
       \<lparr>lo_context := NULL, lo_done := 1\<rparr>"

lemma completed_op_la_fields [simp]:
  "lo_callback (completed_op_la res x) = lo_callback x" "lo_context (completed_op_la res x) = NULL"
  "lo_done (completed_op_la res x) = 1" "lo_in_progress (completed_op_la res x) = lo_in_progress x"
  "lo_buffer (completed_op_la res x) = lo_buffer x" "lo_py_buffer (completed_op_la res x) = lo_py_buffer x"
  "aio_lio_opcode (lo_iocb (completed_op_la res x)) = aio_lio_opcode (lo_iocb x)"
  "aio_nbytes (lo_iocb (completed_op_la res x)) = (if sint res \<ge> 0 then res else aio_nbytes (lo_iocb x))"
  "lo_error (completed_op_la res x) = (if sint res \<ge> 0 then lo_error x else ucast (- res))"
  by (simp_all add: completed_op_la_def)

lemma complete_event_closed:
  assumes "la_ops w p = Some x" "lo_context x = self" "self \<noteq> NULL" "1 < refs w self"
  shows "complete_event p res w = w\<lparr>refs := (refs w)(self := refs w self - 1),
     la_ops := (la_ops w)(p \<mapsto> completed_op_la res x)\<rparr>"
  using assms by (intro la_world.equality)
    (simp_all add: complete_event_def clear_context_la_def decref_ctx_la_def decref_alive op_la_def completed_op_la_def Let_def)

lemma deliver_event_closed:
  assumes x: "la_ops w (ev_data ev) = Some x" "lo_context x = self" "self \<noteq> NULL" "ev_data ev \<noteq> self"
    and rf: "1 < refs w self" "1 < refs w (ev_data ev)"
    and cb: "lo_callback x \<noteq> NULL \<Longrightarrow> 0 < refs w (lo_callback x) \<and> lo_callback x \<noteq> self"
    and call: "le_call env = (\<lambda>cb v w. (verdict cb v, w))"
  shows "deliver_event env ev w = w\<lparr>refs := (refs w)(self := refs w self - 1, ev_data ev := refs w (ev_data ev) - 1),
     la_ops := (la_ops w)(ev_data ev \<mapsto> completed_op_la (ev_res ev) x),
     trace := trace w @ callback_events verdict (lo_callback x) (PyLong (uint (ev_res ev)))\<rparr>"
proof -
  let ?w1 = "complete_event (ev_data ev) (ev_res ev) w"
  note closed = complete_event_closed [OF x(1-3) rf(1), of "ev_res ev"]
  have op: "lo_callback (op_la ?w1 (ev_data ev)) = lo_callback x" by (simp add: closed op_la_def)
  have run: "run_callback (le_call env) (lo_callback x) (PyLong (uint (ev_res ev))) ?w1 =
      ?w1\<lparr>trace := trace ?w1 @ callback_events verdict (lo_callback x) (PyLong (uint (ev_res ev)))\<rparr>"
    unfolding call using cb by (intro run_callback_closed) (simp add: closed)
  have "deliver_event env ev w = decref_op_la (ev_data ev)
      (?w1\<lparr>trace := trace ?w1 @ callback_events verdict (lo_callback x) (PyLong (uint (ev_res ev)))\<rparr>)"
    by (simp only: deliver_event_def Let_def op run)
  then show ?thesis using x(4) rf(2) by (simp add: closed decref_op_la_def decref_alive)
qed

abbreviation result_of :: "io_event \<Rightarrow> ptr \<times> u64" where
  "result_of ev \<equiv> (ev_data ev, ev_res ev)"

text \<open>
  What the kernel promises of the events it delivers: each belongs to an operation in flight
  on this Context, and no operation completes twice. The callbacks are alive and are not
  themselves among the objects released.
\<close>

definition events_ok :: "ptr \<Rightarrow> io_event list \<Rightarrow> la_world \<Rightarrow> bool" where
  "events_ok self evs w \<longleftrightarrow> self \<noteq> NULL \<and> self \<notin> ev_data ` set evs \<and> distinct (map ev_data evs) \<and>
     int (length evs) < refs w self \<and>
     (\<forall>ev\<in>set evs. \<exists>x. la_ops w (ev_data ev) = Some x \<and> lo_context x = self \<and> 1 < refs w (ev_data ev) \<and>
        (lo_callback x \<noteq> NULL \<longrightarrow> lo_callback x \<notin> insert self (ev_data ` set evs) \<and> 0 < refs w (lo_callback x)))"

definition delivered_la :: "ptr \<Rightarrow> (ptr \<Rightarrow> pyval \<Rightarrow> bool) \<Rightarrow> io_event list \<Rightarrow> la_world \<Rightarrow> la_world" where
  "delivered_la self verdict evs w =
     w\<lparr>refs := (\<lambda>q. refs w q - (if q \<in> ev_data ` set evs then 1 else 0) - (if q = self then int (length evs) else 0)),
       la_ops := (\<lambda>q. case map_of (map result_of evs) q of None \<Rightarrow> la_ops w q
          | Some res \<Rightarrow> map_option (completed_op_la res) (la_ops w q)),
       trace := trace w @ concat (map (\<lambda>ev. callback_events verdict (lo_callback (op_la w (ev_data ev))) (PyLong (uint (ev_res ev)))) evs)\<rparr>"

lemma deliver_events_closed:
  assumes "le_call env = (\<lambda>cb v w. (verdict cb v, w))" and "events_ok self evs w"
  shows "deliver_events env evs w = Some (delivered_la self verdict evs w)"
  using assms(2)
proof (induction evs arbitrary: w)
  case Nil
  have "delivered_la self verdict [] w = w"
    by (intro la_world.equality) (simp_all add: delivered_la_def fun_eq_iff)
  then show ?case by simp
next
  case (Cons ev evs)
  let ?p = "ev_data ev"
  from Cons.prems obtain x where x: "la_ops w ?p = Some x" "lo_context x = self" "self \<noteq> NULL" "?p \<noteq> self"
    and rf: "1 < refs w self" "1 < refs w ?p"
    and cb: "lo_callback x \<noteq> NULL \<Longrightarrow> 0 < refs w (lo_callback x) \<and> lo_callback x \<noteq> self"
    by (fastforce simp: events_ok_def)
  have notin: "?p \<notin> ev_data ` set evs" using Cons.prems by (simp add: events_ok_def)
  note closed = deliver_event_closed [OF x rf cb assms(1)]
  define w1 where "w1 = deliver_event env ev w"
  have w1: "refs w1 = (refs w)(self := refs w self - 1, ?p := refs w ?p - 1)"
    "la_ops w1 = (la_ops w)(?p \<mapsto> completed_op_la (ev_res ev) x)"
    "trace w1 = trace w @ callback_events verdict (lo_callback x) (PyLong (uint (ev_res ev)))"
    by (simp_all add: w1_def closed)
  have "events_ok self evs w1"
    unfolding events_ok_def
  proof (intro conjI ballI)
    fix e assume e: "e \<in> set evs"
    then obtain y where y: "la_ops w (ev_data e) = Some y" "lo_context y = self" "1 < refs w (ev_data e)"
      "lo_callback y \<noteq> NULL \<longrightarrow> lo_callback y \<notin> insert self (ev_data ` set (ev # evs)) \<and> 0 < refs w (lo_callback y)"
      using Cons.prems by (auto simp: events_ok_def)
    moreover have "ev_data e \<in> ev_data ` set evs" using e by simp
    then have "ev_data e \<noteq> ?p" and "ev_data e \<noteq> self" using notin Cons.prems by (auto simp: events_ok_def)
    ultimately show "\<exists>x. la_ops w1 (ev_data e) = Some x \<and> lo_context x = self \<and> 1 < refs w1 (ev_data e) \<and>
        (lo_callback x \<noteq> NULL \<longrightarrow> lo_callback x \<notin> insert self (ev_data ` set evs) \<and> 0 < refs w1 (lo_callback x))"
      by (intro exI [of _ y]) (simp add: w1)
  qed (use Cons.prems x in \<open>auto simp: events_ok_def w1\<close>)
  note ih = Cons.IH [OF this]
  have op1: "op_la w1 (ev_data e) = op_la w (ev_data e)" if "e \<in> set evs" for e
  proof -
    have "ev_data e \<in> ev_data ` set evs" using that by simp
    then have "ev_data e \<noteq> ?p" using notin by auto
    then show ?thesis by (simp add: op_la_def w1)
  qed
  then have cbs: "map (\<lambda>ev. callback_events verdict (lo_callback (op_la w1 (ev_data ev))) (PyLong (uint (ev_res ev)))) evs =
      map (\<lambda>ev. callback_events verdict (lo_callback (op_la w (ev_data ev))) (PyLong (uint (ev_res ev)))) evs"
    by simp
  have "map_of (map result_of evs) ?p = None" using notin by (auto simp: map_of_eq_None_iff)
  then have "delivered_la self verdict evs w1 = delivered_la self verdict (ev # evs) w"
    unfolding delivered_la_def cbs using x(1,4) notin
    by (intro la_world.equality) (auto simp: w1_def closed fun_eq_iff op_la_def split: option.split)
  then show ?case using ih x(1) by (simp add: w1_def)
qed

end
