(* ===== verification/Laio_Objects.thy ===== *)
theory Laio_Objects
  imports Laio_Properties Ownership
begin

text \<open>
  What the operations on the objects of the kernel AIO backend do to the state, field by
  field: giving up references, the three kinds of constructor, setting a callback, releasing
  the Context. A read owns the block of memory it reads into; its memoryview, the bytes object
  of a write and the callbacks are foreign objects.
\<close>

section \<open>Deallocation\<close>

lemma la_xdecref_frame [simp]:
  fixes w :: la_world
  shows "la_ops (Py_XDECREF p w) = la_ops w" "la_ctxs (Py_XDECREF p w) = la_ctxs w"
    "refs (Py_XDECREF p w) q = refs w q - (if q = p \<and> p \<noteq> NULL then 1 else 0)"
    "bytes_at (Py_XDECREF p w) = bytes_at w"
  by (simp_all add: Py_XDECREF_def rt_simps)

lemma la_xdecref_mem:
  fixes w :: la_world
  shows "mem (Py_XDECREF p w) = (if p \<noteq> NULL \<and> refs w p = 1 \<and> bytes_at w p \<noteq> NULL then (mem w)(bytes_at w p := None) else mem w)"
  by (simp add: Py_XDECREF_def Py_DECREF_def decref_with_def py_dealloc_def rt_simps Let_def)

lemma la_free_frame [simp]:
  fixes w :: la_world
  shows "la_ops (PyMem_Free p w) = la_ops w" "la_ctxs (PyMem_Free p w) = la_ctxs w" "refs (PyMem_Free p w) = refs w"
    "bytes_at (PyMem_Free p w) = bytes_at w" "mem (PyMem_Free p w) = (if p = NULL then mem w else (mem w)(p := None))"
  by (auto simp: PyMem_Free_def rt_simps fun_eq_iff)

text \<open>Releasing foreign objects and memory does not depend on the Operations.\<close>

lemma upd_op_la_commutes:
  "Py_XDECREF q (upd_op_la p f w) = upd_op_la p f (Py_XDECREF q w)"
  "PyMem_Free q (upd_op_la p f w) = upd_op_la p f (PyMem_Free q w)"
  by (simp_all add: upd_op_la_def PyMem_Free_def Py_XDECREF_def Py_DECREF_def decref_with_def py_dealloc_def emit_def Let_def)

lemma upd_op_la_twice: "upd_op_la p f (upd_op_la p g w) = upd_op_la p (\<lambda>x. f (g x)) w"
  by (simp add: upd_op_la_def option.map_comp comp_def)

lemma op_la_frame [simp]:
  "op_la (Py_XDECREF q w) = op_la w" "op_la (PyMem_Free q w) = op_la w"
  "la_ops w p \<noteq> None \<Longrightarrow> op_la (upd_op_la p f w) p = f (op_la w p)"
  by (auto simp: op_la_def fun_eq_iff)

text \<open>The block an operation owns, or null.\<close>

definition block_of :: "AIOOperation_la \<Rightarrow> ptr" where
  "block_of x = (if aio_lio_opcode (lo_iocb x) = IOCB_CMD_PREAD then lo_buffer x else NULL)"

text \<open>An Operation without a Context gives up its callback, its block and its Python buffer.\<close>

definition released_la :: "AIOOperation_la \<Rightarrow> la_world \<Rightarrow> la_world" where
  "released_la x w = Py_XDECREF (lo_py_buffer x) (PyMem_Free (block_of x) (Py_XDECREF (lo_callback x) w))"

lemma released_la_frame [simp]:
  "la_ops (released_la x w) = la_ops w" "la_ctxs (released_la x w) = la_ctxs w" "bytes_at (released_la x w) = bytes_at w"
  "refs (released_la x w) q = refs w q - (if q = lo_callback x \<and> q \<noteq> NULL then 1 else 0)
     - (if q = lo_py_buffer x \<and> q \<noteq> NULL then 1 else 0)"
  "mem (released_la x (emit e w)) = mem (released_la x w)"
  by (simp_all add: released_la_def la_xdecref_mem rt_simps)

lemma clear_op_la_eq:
  assumes x: "la_ops w p = Some x" and null: "lo_context x = NULL"
  shows "\<exists>f. AIOOperation_clear_la p w = upd_op_la p f (released_la x w)"
proof -
  have "x\<lparr>lo_context := NULL\<rparr> = x" using null by (cases x) simp
  then have ctx: "clear_context_la p w = w"
    using assms by (simp add: clear_context_la_def op_la_def upd_op_la_def fun_upd_idem Let_def)
  have opx: "op_la w p = x" using x by (simp add: op_la_def)
  have "\<exists>f. AIOOperation_clear_la p w = upd_op_la p f (released_la x w)"
    unfolding AIOOperation_clear_la_def Let_def ctx upd_op_la_commutes
    using x opx by (simp add: upd_op_la_commutes upd_op_la_twice released_la_def block_of_def PyMem_Free_def [of NULL]) blast
  then show ?thesis .
qed

lemma dealloc_op_la_frame:
  assumes "la_ops w p = Some x" and "lo_context x = NULL"
  shows "la_ops (AIOOperation_dealloc_la p w) = (la_ops w)(p := None)"
    and "la_ctxs (AIOOperation_dealloc_la p w) = la_ctxs w"
    and "bytes_at (AIOOperation_dealloc_la p w) = bytes_at w"
    and "refs (AIOOperation_dealloc_la p w) = refs (released_la x w)"
    and "mem (AIOOperation_dealloc_la p w) = mem (released_la x w)"
proof -
  let ?v = "if lo_weakreflist x \<noteq> NULL then emit (Ev_ClearWeakRefs p) w else w"
  have v: "la_ops ?v p = Some x" using assms(1) by simp
  obtain f where "AIOOperation_clear_la p ?v = upd_op_la p f (released_la x ?v)"
    using clear_op_la_eq [OF v assms(2)] by blast
  then have "AIOOperation_dealloc_la p w = emit (Ev_Dealloc p)
      ((upd_op_la p f (released_la x ?v))\<lparr>la_ops := (la_ops (upd_op_la p f (released_la x ?v)))(p := None)\<rparr>)"
    using assms(1) by (simp add: AIOOperation_dealloc_la_def op_la_def Let_def)
  then show "la_ops (AIOOperation_dealloc_la p w) = (la_ops w)(p := None)"
    "la_ctxs (AIOOperation_dealloc_la p w) = la_ctxs w" "bytes_at (AIOOperation_dealloc_la p w) = bytes_at w"
    "refs (AIOOperation_dealloc_la p w) = refs (released_la x w)" "mem (AIOOperation_dealloc_la p w) = mem (released_la x w)"
    by (simp_all add: rt_simps fun_eq_iff)
qed

lemma decref_op_la_frame:
  assumes "la_ops w p = Some x" and "lo_context x = NULL"
  shows "la_ops (decref_op_la p w) = (if refs w p = 1 then (la_ops w)(p := None) else la_ops w)"
    and "la_ctxs (decref_op_la p w) = la_ctxs w"
    and "bytes_at (decref_op_la p w) = bytes_at w"
    and "refs (decref_op_la p w) q = refs w q - (if q = p then 1 else 0) - (if refs w p = 1 then
      (if q = lo_callback x \<and> q \<noteq> NULL then 1 else 0) + (if q = lo_py_buffer x \<and> q \<noteq> NULL then 1 else 0) else 0)"
  using dealloc_op_la_frame [of "w\<lparr>refs := (refs w)(p := 0)\<rparr>" p x] assms
  by (cases "refs w p = 1"; simp add: decref_op_la_def decref_last decref_alive)+

lemma decref_op_la_alive: "refs w p \<noteq> 1 \<Longrightarrow> decref_op_la p w = w\<lparr>refs := (refs w)(p := refs w p - 1)\<rparr>"
  by (simp add: decref_op_la_def decref_alive)

lemma decref_ctx_la_frame:
  "refs (decref_ctx_la self w) = (refs w)(self := refs w self - 1)" "la_ops (decref_ctx_la self w) = la_ops w"
  "bytes_at (decref_ctx_la self w) = bytes_at w" "mem (decref_ctx_la self w) = mem w"
  "la_ctxs (decref_ctx_la self w) = (if refs w self = 1 then (la_ctxs w)(self := None) else la_ctxs w)"
  by (cases "refs w self = 1"; simp add: decref_ctx_la_def decref_last decref_alive AIOContext_dealloc_la_def rt_simps Let_def)+

section \<open>Construction\<close>

definition fresh_la :: "ptr \<Rightarrow> AIOOperation_la \<Rightarrow> bool" where
  "fresh_la p x \<longleftrightarrow> lo_in_progress x = 0 \<and> lo_context x = NULL \<and> lo_done x = 0 \<and> lo_callback x = NULL \<and>
     aio_data (lo_iocb x) = p \<and> aio_lio_opcode (lo_iocb x) \<in> {IOCB_CMD_PREAD, IOCB_CMD_PWRITE, IOCB_CMD_FSYNC, IOCB_CMD_FDSYNC}"

text \<open>
  The two outcomes of a constructor: the Operation was given up again, or there is a new
  Operation with one reference.
\<close>

definition discarded_la :: "ptr \<Rightarrow> la_world \<Rightarrow> la_world \<Rightarrow> bool" where
  "discarded_la p w w' \<longleftrightarrow> la_ops w' = (la_ops w)(p := None) \<and> la_ctxs w' = la_ctxs w \<and>
     refs w' = (refs w)(p := 0) \<and> bytes_at w' = bytes_at w \<and> mem w' = mem w"

definition constructed_la :: "ptr \<Rightarrow> AIOOperation_la \<Rightarrow> la_world \<Rightarrow> la_world \<Rightarrow> bool" where
  "constructed_la p x w w' \<longleftrightarrow> fresh_la p x \<and> la_ops w' = (la_ops w)(p \<mapsto> x) \<and> la_ctxs w' = la_ctxs w \<and> refs w' p = 1"

text \<open>An operation as it is allocated, with its arguments, and with the block of a read.\<close>

definition op_alloc_la :: "ptr \<Rightarrow> AIOOperation_la" where
  "op_alloc_la p = \<lparr>lo_context = NULL, lo_py_buffer = NULL, lo_callback = NULL, lo_buffer = NULL, lo_error = 0,
     lo_in_progress = 0, lo_done = 0, lo_iocb = zero_iocb\<lparr>aio_data := p\<rparr>, lo_weakreflist = NULL\<rparr>"

lemma alloc_op_la_frame [simp]:
  "la_ops (alloc_op_la p w) = (la_ops w)(p \<mapsto> op_alloc_la p)" "la_ctxs (alloc_op_la p w) = la_ctxs w"
  "refs (alloc_op_la p w) = (refs w)(p := 1)" "mem (alloc_op_la p w) = mem w" "bytes_at (alloc_op_la p w) = bytes_at w"
  by (simp_all add: alloc_op_la_def op_alloc_la_def)

text \<open>An operation that owns nothing but its block.\<close>

definition bare_la :: "AIOOperation_la \<Rightarrow> bool" where
  "bare_la x \<longleftrightarrow> lo_context x = NULL \<and> lo_callback x = NULL \<and> lo_py_buffer x = NULL"

lemma discarded_la_decref:
  assumes "la_ops w p = Some x" "refs w p = 1" "bare_la x"
    and "la_ops w = (la_ops v)(p \<mapsto> x)" "la_ctxs w = la_ctxs v" "refs w = (refs v)(p := 1)" "bytes_at w = bytes_at v"
    and "mem v = (if block_of x = NULL then mem w else (mem w)(block_of x := None))"
  shows "discarded_la p v (decref_op_la p w)"
proof -
  have "refs (decref_op_la p w) = (refs v)(p := 0)"
    using decref_op_la_frame(4) [OF assms(1)] assms(2,3,6) by (auto simp: bare_la_def)
  moreover have "mem (decref_op_la p w) = mem v"
    using dealloc_op_la_frame(5) [of "w\<lparr>refs := (refs w)(p := 0)\<rparr>" p x] assms(1-3,8)
    by (simp add: bare_la_def decref_op_la_def decref_last released_la_def Py_XDECREF_def)
  ultimately show ?thesis
    using decref_op_la_frame(1-3) [OF assms(1)] assms(2-7) by (simp add: discarded_la_def bare_la_def)
qed

lemma discarded_la_fresh: "discarded_la p w (decref_op_la p (alloc_op_la p w))"
  by (rule discarded_la_decref [where x = "op_alloc_la p"]) (simp_all add: op_alloc_la_def bare_la_def block_of_def)

definition args_la :: "u32 \<Rightarrow> u64 option \<Rightarrow> u16 option \<Rightarrow> AIOOperation_la \<Rightarrow> AIOOperation_la" where
  "args_la fileno offset prio = upd_iocb (\<lambda>b. b\<lparr>aio_fildes := fileno,
     aio_offset := (case offset of None \<Rightarrow> aio_offset b | Some off \<Rightarrow> off),
     aio_reqprio := (case prio of None \<Rightarrow> aio_reqprio b | Some pri \<Rightarrow> pri)\<rparr>)"

lemma args_la_fields [simp]:
  "lo_context (args_la fd off pri x) = lo_context x" "lo_callback (args_la fd off pri x) = lo_callback x"
  "lo_py_buffer (args_la fd off pri x) = lo_py_buffer x" "lo_buffer (args_la fd off pri x) = lo_buffer x"
  "lo_in_progress (args_la fd off pri x) = lo_in_progress x" "lo_done (args_la fd off pri x) = lo_done x" "lo_error (args_la fd off pri x) = lo_error x"
  "aio_data (lo_iocb (args_la fd off pri x)) = aio_data (lo_iocb x)"
  "aio_lio_opcode (lo_iocb (args_la fd off pri x)) = aio_lio_opcode (lo_iocb x)"
  by (simp_all add: args_la_def)

lemma parsed_la_frame [simp]:
  "la_ops (parsed_la p fd off pri w) = (la_ops w)(p := map_option (args_la fd off pri) (la_ops w p))"
  "la_ctxs (parsed_la p fd off pri w) = la_ctxs w" "refs (parsed_la p fd off pri w) = refs w"
  "mem (parsed_la p fd off pri w) = mem w" "bytes_at (parsed_la p fd off pri w) = bytes_at w"
  by (simp_all add: parsed_la_def args_la_def)

lemma op_alloc_la_fields [simp]:
  "lo_context (op_alloc_la p) = NULL" "lo_callback (op_alloc_la p) = NULL" "lo_py_buffer (op_alloc_la p) = NULL"
  "lo_buffer (op_alloc_la p) = NULL" "lo_in_progress (op_alloc_la p) = 0" "lo_done (op_alloc_la p) = 0"
  "lo_error (op_alloc_la p) = 0" "aio_data (lo_iocb (op_alloc_la p)) = p" "aio_lio_opcode (lo_iocb (op_alloc_la p)) = 0"
  by (simp_all add: op_alloc_la_def zero_iocb_def)

lemma read_effect_la:
  assumes "AIOOperation_read_la p parsed block view w = (r, w')" and "p \<noteq> NULL"
    and "parsed \<noteq> None \<longrightarrow> block \<noteq> NULL \<longrightarrow> mem w block = None" and "parsed \<noteq> None \<longrightarrow> view \<noteq> p"
  shows "(\<exists>e. r = Raise e) \<and> discarded_la p w w' \<or>
    r = Ret (PyObj p) \<and> view \<noteq> NULL \<and> (\<exists>x n. constructed_la p x w w' \<and> (\<exists>fd off pri. parsed = Some (n, fd, off, pri)) \<and>
       aio_lio_opcode (lo_iocb x) = IOCB_CMD_PREAD \<and> lo_py_buffer x = view \<and> lo_buffer x = block \<and> aio_buf (lo_iocb x) = block \<and>
       aio_nbytes (lo_iocb x) = n \<and> (block = NULL \<longrightarrow> n = 0) \<and> lo_error x = 0 \<and>
       refs w' = (refs w)(p := 1, view := 1) \<and> bytes_at w' = bytes_at w \<and>
       mem w' = (if block = NULL then mem w else (mem w)(block \<mapsto> replicate (unat n) 0)))"
proof (cases parsed)
  case None
  then have "r = Raise PyErr_Pending" "w' = decref_op_la p (alloc_op_la p w)"
    using assms by (simp_all add: AIOOperation_read_la_def)
  then show ?thesis using discarded_la_fresh by simp
next
  case (Some a)
  then obtain n fd off pri where a: "parsed = Some (n, fd, off, pri)" by (metis prod_cases4)
  let ?m = "if block = NULL then mem w else (mem w)(block \<mapsto> replicate (unat n) 0)"
  define v where "v = upd_op_la p (\<lambda>x. x\<lparr>lo_buffer := block\<rparr>) (if block = NULL then parsed_la p fd off pri (alloc_op_la p w)
    else (parsed_la p fd off pri (alloc_op_la p w))\<lparr>mem := (mem (parsed_la p fd off pri (alloc_op_la p w)))(block \<mapsto> replicate (unat n) 0)\<rparr>)"
  define x where "x = (args_la fd off pri (op_alloc_la p))\<lparr>lo_buffer := block\<rparr>"
  have v: "la_ops v = (la_ops w)(p \<mapsto> x)" "la_ctxs v = la_ctxs w" "refs v = (refs w)(p := 1)" "bytes_at v = bytes_at w" "mem v = ?m"
    by (simp_all add: v_def x_def)
  have x: "bare_la x" "block_of x = block" "lo_in_progress x = 0" "lo_done x = 0" "lo_error x = 0" "aio_data (lo_iocb x) = p"
    "aio_lio_opcode (lo_iocb x) = 0" "lo_callback x = NULL" "lo_context x = NULL" "lo_py_buffer x = NULL" "lo_buffer x = block"
    by (simp_all add: x_def bare_la_def block_of_def)
  have orig: "mem w = (if block = NULL then mem u else (mem u)(block := None))" if "mem u = ?m" for u :: la_world
    using assms(3) a that by (auto simp: fun_upd_idem)
  show ?thesis
  proof (cases "block = NULL \<and> n > 0")
    case True
    then have "r = Raise PyErr_NoMemory" "w' = decref_op_la p v"
      using assms(1,2) by (simp_all add: AIOOperation_read_la_def a v_def Let_def)
    moreover have "discarded_la p w (decref_op_la p v)"
      using orig [OF v(5)] x(2) by (intro discarded_la_decref [where x = x]) (simp_all add: v(1-4) x(1))
    ultimately show ?thesis by simp
  next
    case have_block: False
    let ?x = "(upd_iocb (\<lambda>b. b\<lparr>aio_buf := block, aio_nbytes := n\<rparr>) x)\<lparr>lo_py_buffer := view\<rparr>"
    define u where "u = upd_op_la p (\<lambda>x. x\<lparr>lo_py_buffer := view\<rparr>) (upd_op_la p (upd_iocb (\<lambda>b. b\<lparr>aio_buf := block, aio_nbytes := n\<rparr>)) v)"
    have u: "la_ops u = (la_ops w)(p \<mapsto> ?x)" "la_ctxs u = la_ctxs w" "refs u = (refs w)(p := 1)" "bytes_at u = bytes_at w" "mem u = ?m"
      by (simp_all add: u_def v)
    have run: "AIOOperation_read_la p parsed block view w = (if view = NULL then (Raise PyErr_Pending, decref_op_la p u)
      else (Ret (PyObj p), upd_op_la p (upd_iocb (\<lambda>b. b\<lparr>aio_lio_opcode := IOCB_CMD_PREAD\<rparr>)) (u\<lparr>refs := (refs u)(view := 1)\<rparr>)))"
      using have_block assms(2) unfolding AIOOperation_read_la_def a Let_def u_def v_def by auto
    show ?thesis
    proof (cases "view = NULL")
      case True
      then have "r = Raise PyErr_Pending" "w' = decref_op_la p u" using assms(1) run by simp_all
      moreover have "discarded_la p w (decref_op_la p u)"
        using orig [OF u(5)] x True by (intro discarded_la_decref [where x = ?x]) (simp_all add: u(1-4) bare_la_def block_of_def)
      ultimately show ?thesis by simp
    next
      case False
      let ?y = "upd_iocb (\<lambda>b. b\<lparr>aio_lio_opcode := IOCB_CMD_PREAD\<rparr>) ?x"
      have "r = Ret (PyObj p)" "la_ops w' = (la_ops w)(p \<mapsto> ?y)" "la_ctxs w' = la_ctxs w" "refs w' = (refs w)(p := 1, view := 1)"
        "bytes_at w' = bytes_at w" "mem w' = ?m"
        using assms(1) run False by (auto simp: u)
      moreover have "fresh_la p ?y" using x by (simp add: fresh_la_def)
      ultimately show ?thesis using False assms(4) a x have_block
        by (intro disjI2 conjI exI [of _ ?y] exI [of _ n]) (auto simp: constructed_la_def word_gt_0)
    qed
  qed
qed

lemma write_effect_la:
  assumes "AIOOperation_write_la p parsed as_string w = (r, w')" and "p \<noteq> NULL" and "bytes_at w p = NULL"
  shows "(\<exists>e. r = Raise e) \<and> discarded_la p w w' \<or>
    r = Ret (PyObj p) \<and> (\<exists>x pb. constructed_la p x w w' \<and> (\<exists>fd off pri. parsed = Some (pb, fd, off, pri)) \<and> bytes_at w pb \<noteq> NULL \<and>
       aio_lio_opcode (lo_iocb x) = IOCB_CMD_PWRITE \<and> lo_py_buffer x = pb \<and> lo_buffer x = bytes_at w pb \<and>
       aio_buf (lo_iocb x) = bytes_at w pb \<and> aio_nbytes (lo_iocb x) = of_nat (length (the (mem w (bytes_at w pb)))) \<and> lo_error x = 0 \<and>
       refs w' = (refs w)(p := 1, pb := refs w pb + 1) \<and> bytes_at w' = bytes_at w \<and> mem w' = mem w)"
proof (cases parsed)
  case None
  then have "r = Raise PyErr_Pending" "w' = decref_op_la p (alloc_op_la p w)"
    using assms by (simp_all add: AIOOperation_write_la_def)
  then show ?thesis using discarded_la_fresh by simp
next
  case (Some a)
  then obtain pb fd off pri where a: "parsed = Some (pb, fd, off, pri)" by (metis prod_cases4)
  define x where "x = args_la fd off pri (op_alloc_la p)"
  define v where "v = parsed_la p fd off pri (alloc_op_la p w)"
  define u where "u = upd_op_la p (upd_iocb (\<lambda>b. b\<lparr>aio_lio_opcode := IOCB_CMD_PWRITE\<rparr>)) v"
  have v: "la_ops v = (la_ops w)(p \<mapsto> x)" "la_ctxs v = la_ctxs w" "refs v = (refs w)(p := 1)" "bytes_at v = bytes_at w" "mem v = mem w"
    by (simp_all add: v_def x_def)
  let ?x = "upd_iocb (\<lambda>b. b\<lparr>aio_lio_opcode := IOCB_CMD_PWRITE\<rparr>) x"
  have u: "la_ops u = (la_ops w)(p \<mapsto> ?x)" "la_ctxs u = la_ctxs w" "refs u = (refs w)(p := 1)" "bytes_at u = bytes_at w" "mem u = mem w"
    by (simp_all add: u_def v)
  have x: "bare_la x" "lo_buffer x = NULL" "lo_in_progress x = 0" "lo_done x = 0" "lo_error x = 0" "aio_data (lo_iocb x) = p"
    "lo_context x = NULL" "lo_callback x = NULL"
    by (simp_all add: x_def bare_la_def)
  have gone: "discarded_la p w (decref_op_la p v)" "discarded_la p w (decref_op_la p u)"
    by (rule discarded_la_decref [where x = x], simp_all add: v x block_of_def)
      (rule discarded_la_decref [where x = ?x], use x in \<open>simp_all add: u bare_la_def block_of_def\<close>)
  have run: "AIOOperation_write_la p parsed as_string w =
      (if bytes_at w pb = NULL then (Raise (PyErr_SetString PyExc_ValueError ''payload_bytes argument must be bytes''), decref_op_la p v)
       else if \<not> as_string then (Raise (PyErr_SetString PyExc_RuntimeError ''Can not convert bytes to c string''), decref_op_la p u)
       else (Ret (PyObj p), upd_op_la p (upd_iocb (\<lambda>i. i\<lparr>aio_nbytes := of_nat (length (the (mem w (bytes_at w pb)))), aio_buf := bytes_at w pb\<rparr>))
         (Py_INCREF pb (upd_op_la p (\<lambda>x. x\<lparr>lo_buffer := bytes_at w pb, lo_py_buffer := pb\<rparr>) u))))"
    using assms(2) by (simp add: AIOOperation_write_la_def a v_def [symmetric] v(4,5) u_def rt_simps Let_def)
  show ?thesis
  proof (cases "bytes_at w pb = NULL \<or> \<not> as_string")
    case True
    then have "\<exists>e. r = Raise e" "w' \<in> {decref_op_la p v, decref_op_la p u}" using assms(1) run by (auto split: if_splits)
    then show ?thesis using gone by auto
  next
    case False
    then have "pb \<noteq> p" using assms(3) by auto
    let ?b = "bytes_at w pb"
    let ?y = "upd_iocb (\<lambda>i. i\<lparr>aio_nbytes := of_nat (length (the (mem w ?b))), aio_buf := ?b\<rparr>) (?x\<lparr>lo_buffer := ?b, lo_py_buffer := pb\<rparr>)"
    have "r = Ret (PyObj p)" "la_ops w' = (la_ops w)(p \<mapsto> ?y)" "la_ctxs w' = la_ctxs w"
      "refs w' = (refs w)(p := 1, pb := refs w pb + 1)" "bytes_at w' = bytes_at w" "mem w' = mem w"
      using assms(1) run False \<open>pb \<noteq> p\<close> by (auto simp: u rt_simps)
    moreover have "fresh_la p ?y" using x by (simp add: fresh_la_def)
    ultimately show ?thesis using False a x \<open>pb \<noteq> p\<close>
      by (intro disjI2 conjI exI [of _ ?y] exI [of _ pb]) (simp_all add: constructed_la_def)
  qed
qed

lemma sync_effect_la:
  assumes "AIOOperation_sync_la code p parsed w = (r, w')" and "p \<noteq> NULL" and "code \<in> {IOCB_CMD_FSYNC, IOCB_CMD_FDSYNC}"
  shows "(\<exists>e. r = Raise e) \<and> discarded_la p w w' \<or>
    r = Ret (PyObj p) \<and> (\<exists>x. constructed_la p x w w' \<and> aio_lio_opcode (lo_iocb x) = code \<and> lo_py_buffer x = NULL \<and>
       lo_buffer x = NULL \<and> lo_error x = 0 \<and> refs w' = (refs w)(p := 1) \<and> bytes_at w' = bytes_at w \<and> mem w' = mem w)"
proof (cases parsed)
  case None
  then have "r = Raise PyErr_Pending" "w' = decref_op_la p (alloc_op_la p w)"
    using assms by (simp_all add: AIOOperation_sync_la_def)
  then show ?thesis using discarded_la_fresh by simp
next
  case (Some a)
  then obtain fd pri where a: "parsed = Some (fd, pri)" by (metis prod.exhaust)
  let ?x = "upd_iocb (\<lambda>b. b\<lparr>aio_lio_opcode := code\<rparr>) (args_la fd None pri (op_alloc_la p))"
  have "r = Ret (PyObj p)" "la_ops w' = (la_ops w)(p \<mapsto> ?x)" "la_ctxs w' = la_ctxs w" "refs w' = (refs w)(p := 1)"
    "bytes_at w' = bytes_at w" "mem w' = mem w"
    using assms a by (auto simp: AIOOperation_sync_la_def)
  moreover have "fresh_la p ?x" using assms(3) by (auto simp: fresh_la_def)
  ultimately show ?thesis by (intro disjI2 conjI exI [of _ ?x]) (simp_all add: constructed_la_def)
qed

text \<open>Setting a callback trades the reference on the old one for one on the new one.\<close>

lemma set_callback_effect_la:
  assumes "AIOOperation_set_callback_la p parsed callable w = (r, w')" and "la_ops w p = Some x"
  shows "la_ctxs w' = la_ctxs w \<and> bytes_at w' = bytes_at w \<and>
    (case parsed of Some cb \<Rightarrow> if callable then la_ops w' = (la_ops w)(p \<mapsto> x\<lparr>lo_callback := cb\<rparr>) \<and>
       (\<forall>q. refs w' q = refs w q + (if q = cb then 1 else 0) - (if q = lo_callback x \<and> q \<noteq> NULL then 1 else 0)) else w' = w
     | None \<Rightarrow> w' = w)"
  using assms by (auto simp: AIOOperation_set_callback_la_def op_la_def rt_simps Let_def split: option.splits if_splits)

end
