(* ===== verification/Laio_System.thy ===== *)
theory Laio_System
  imports Laio_Objects
begin

text \<open>
  The kernel AIO backend as a system: one Context at address \<open>self\<close>, Operations at the
  addresses \<open>A\<close>, a program that creates them, submits, cancels, collects events and drops
  references in any order and from any number of threads, and the kernel that completes
  requests at any time. The loop of \<^verbatim>\<open>process_events\<close> is split at its callbacks: an event that
  was collected is stored in its operation, then the callback is called, then the operation
  is released, and anything may happen in between, also to the same objects.

  \<open>ls_kernel\<close> holds the control blocks the kernel has accepted and not completed, as they were
  when \<^verbatim>\<open>io_submit\<close> read them, \<open>ls_events\<close> the events it has to deliver, \<open>ls_work\<close> the events
  that calls of \<^verbatim>\<open>process_events\<close> and \<^verbatim>\<open>cancel\<close> in progress have collected, with how far each has
  got; \<open>ls_user\<close> are the references of the program. A call of \<^verbatim>\<open>submit\<close> is one step; a
  successful \<^verbatim>\<open>cancel\<close> is split as a delivery is, since its effect is that of the delivery of
  its event (\<open>la_cancel_equiv\<close> in \<open>Laio_Claims\<close>). The last three fields record history:
  what \<^verbatim>\<open>submit\<close> handed to the kernel, what was completed, whose callback was called.
\<close>

datatype stage = Got | Stored | Called

record la_sys =
  ls_w :: la_world
  ls_kernel :: "iocb list"
  ls_events :: "io_event list"
  ls_work :: "(io_event \<times> stage) list"
  ls_user :: "ptr \<Rightarrow> nat"
  ls_accepted :: "ptr list"
  ls_completed :: "ptr list"
  ls_called :: "ptr list"

section \<open>Steps\<close>

text \<open>What \<^verbatim>\<open>submit\<close> has handed to the kernel when it returned \<open>r\<close>.\<close>

definition taken_la :: "ptr \<Rightarrow> ptr list option \<Rightarrow> la_world \<Rightarrow> pyval outcome \<Rightarrow> ptr list" where
  "taken_la self args w r =
     (case args of None \<Rightarrow> [] | Some ps \<Rightarrow>
        (case r of Ret (PyLong n) \<Rightarrow> take (nat n) (fst (claim_all_la self ps w)) | _ \<Rightarrow> []))"

text \<open>The kernel writes what it read into the buffer of the request.\<close>

definition kernel_stores :: "iocb \<Rightarrow> u8 list \<Rightarrow> la_world \<Rightarrow> la_world" where
  "kernel_stores b data w =
     (if aio_lio_opcode b = IOCB_CMD_PREAD then store_bytes (aio_buf b) (take (unat (aio_nbytes b)) data) w else w)"

text \<open>
  How often the Operations at \<open>A\<close> refer to a foreign object, and what the rest of the
  program may do meanwhile: anything that does not take these references away or free the
  blocks the module allocated.
\<close>

definition holds_la :: "AIOOperation_la option \<Rightarrow> ptr \<Rightarrow> nat" where
  "holds_la v q = (case v of None \<Rightarrow> 0 | Some x \<Rightarrow> of_bool (q = lo_callback x) + of_bool (q = lo_py_buffer x))"

definition owed_la :: "ptr set \<Rightarrow> la_world \<Rightarrow> ptr \<Rightarrow> nat" where
  "owed_la A w q = (\<Sum>p\<in>A. holds_la (la_ops w p) q)"

definition blocks_la :: "la_world \<Rightarrow> ptr set" where
  "blocks_la w = {block_of x | p x. la_ops w p = Some x \<and> block_of x \<noteq> NULL}"

definition apart_la :: "la_world \<Rightarrow> bool" where
  "apart_la w \<longleftrightarrow> (\<forall>q. 0 < refs w q \<longrightarrow> bytes_at w q \<notin> blocks_la w)"

definition program_step_la :: "ptr \<Rightarrow> ptr set \<Rightarrow> la_world \<Rightarrow> la_world \<Rightarrow> bool" where
  "program_step_la self A w w' \<longleftrightarrow> la_ops w' = la_ops w \<and> la_ctxs w' = la_ctxs w \<and> runtime_ok w' \<and> apart_la w' \<and>
     (\<forall>q\<in>insert self A. refs w' q = refs w q \<and> bytes_at w' q = bytes_at w q) \<and>
     (\<forall>b\<in>blocks_la w. map_option length (mem w' b) = map_option length (mem w b)) \<and>
     (\<forall>q. q \<noteq> NULL \<longrightarrow> int (owed_la A w q) \<le> refs w' q \<and>
       (0 < owed_la A w q \<longrightarrow> bytes_at w' q = bytes_at w q \<and> storage w' q = storage w q))"

text \<open>
  What \<^verbatim>\<open>PyMem_Calloc\<close> returns, null or a block that was free, and \<^verbatim>\<open>PyMemoryView_FromMemory\<close>,
  null or a new object.
\<close>

definition new_block :: "ptr \<Rightarrow> ptr set \<Rightarrow> la_world \<Rightarrow> nat \<Rightarrow> ptr \<Rightarrow> ptr \<Rightarrow> bool" where
  "new_block self A w n block view \<longleftrightarrow>
     (block \<noteq> NULL \<longrightarrow> mem w block = None \<and> block \<notin> blocks_la w \<and> n < 2 ^ 63 \<and> (\<forall>q. 0 < refs w q \<longrightarrow> bytes_at w q \<noteq> block)) \<and>
     (view \<noteq> NULL \<longrightarrow> view \<notin> insert self A \<and> refs w view = 0 \<and> bytes_at w view = NULL)"

abbreviation given_la :: "pyval outcome \<Rightarrow> ptr \<Rightarrow> (ptr \<Rightarrow> nat) \<Rightarrow> ptr \<Rightarrow> nat" where
  "given_la r p user \<equiv> (if r = Ret (PyObj p) then user(p := 1) else user)"

text \<open>
  The Context has a method running while there is work, and the caller holds the object whose
  method it calls: hence the guard of \<open>drop_context\<close>. \<^verbatim>\<open>io_submit\<close> accepts a prefix of what it
  is offered; a request completes with at most the number of bytes asked for.
\<close>

inductive la_step :: "ptr \<Rightarrow> ptr set \<Rightarrow> la_sys \<Rightarrow> la_sys \<Rightarrow> bool" for self :: ptr and A :: "ptr set" where
  new_read: "p \<in> A \<Longrightarrow> la_ops (ls_w s) p = None \<Longrightarrow>
    (\<And>n fd off pri. parsed = Some (n, fd, off, pri) \<Longrightarrow> new_block self A (ls_w s) (unat n) block view) \<Longrightarrow>
    AIOOperation_read_la p parsed block view (ls_w s) = (r, w') \<Longrightarrow>
    la_step self A s (s\<lparr>ls_w := w', ls_user := given_la r p (ls_user s)\<rparr>)"
| new_write: "p \<in> A \<Longrightarrow> la_ops (ls_w s) p = None \<Longrightarrow>
    (\<And>obj fd off pri. parsed = Some (obj, fd, off, pri) \<Longrightarrow> obj \<noteq> NULL \<and> 0 < refs (ls_w s) obj) \<Longrightarrow>
    AIOOperation_write_la p parsed as_string (ls_w s) = (r, w') \<Longrightarrow>
    la_step self A s (s\<lparr>ls_w := w', ls_user := given_la r p (ls_user s)\<rparr>)"
| new_sync: "p \<in> A \<Longrightarrow> la_ops (ls_w s) p = None \<Longrightarrow> code \<in> {IOCB_CMD_FSYNC, IOCB_CMD_FDSYNC} \<Longrightarrow>
    AIOOperation_sync_la code p parsed_sync (ls_w s) = (r, w') \<Longrightarrow>
    la_step self A s (s\<lparr>ls_w := w', ls_user := given_la r p (ls_user s)\<rparr>)"
| set_callback: "la_ops (ls_w s) p \<noteq> None \<Longrightarrow> (\<And>c. cb = Some c \<Longrightarrow> callable \<Longrightarrow> c \<notin> insert self A \<and> 0 < refs (ls_w s) c) \<Longrightarrow>
    AIOOperation_set_callback_la p cb callable (ls_w s) = (r, w') \<Longrightarrow> la_step self A s (s\<lparr>ls_w := w'\<rparr>)"
| submit: "0 < ls_user s self \<Longrightarrow> le_submit env = (\<lambda>ctx ps w. (answer ps, errno ps, w)) \<Longrightarrow> (\<And>ps. answer ps \<le> int (length ps)) \<Longrightarrow>
    AIOContext_submit_la env self args (ls_w s) = (r, w') \<Longrightarrow> ps = taken_la self args (ls_w s) r \<Longrightarrow>
    la_step self A s (s\<lparr>ls_w := w', ls_kernel := ls_kernel s @ map (\<lambda>p. lo_iocb (op_la w' p)) ps,
      ls_accepted := ls_accepted s @ ps\<rparr>)"
| kernel_post: "ls_kernel s = bs @ b # cs \<Longrightarrow> (0 \<le> sint res \<Longrightarrow> res \<le> aio_nbytes b) \<Longrightarrow>
    la_step self A s (s\<lparr>ls_w := kernel_stores b data (ls_w s), ls_kernel := bs @ cs,
      ls_events := ls_events s @ [\<lparr>ev_data = aio_data b, ev_res = res\<rparr>]\<rparr>)"
| collect: "0 < ls_user s self \<Longrightarrow> ls_events s = evs @ rest \<Longrightarrow>
    la_step self A s (s\<lparr>ls_events := rest, ls_work := map (\<lambda>ev. (ev, Got)) evs @ ls_work s\<rparr>)"
| cancel: "0 < ls_user s self \<Longrightarrow> ls_kernel s = bs @ b # cs \<Longrightarrow> (0 \<le> sint res \<Longrightarrow> res \<le> aio_nbytes b) \<Longrightarrow>
    la_step self A s (s\<lparr>ls_kernel := bs @ cs, ls_work := (\<lparr>ev_data = aio_data b, ev_res = res\<rparr>, Got) # ls_work s\<rparr>)"
| store: "ls_work s = us @ (ev, Got) # vs \<Longrightarrow>
    la_step self A s (s\<lparr>ls_w := complete_event (ev_data ev) (ev_res ev) (ls_w s), ls_work := us @ (ev, Stored) # vs,
      ls_completed := ls_completed s @ [ev_data ev]\<rparr>)"
| call: "ls_work s = us @ (ev, Stored) # vs \<Longrightarrow>
    la_step self A s (s\<lparr>ls_w := run_callback (\<lambda>cb v w. (verdict cb v, w)) (lo_callback (op_la (ls_w s) (ev_data ev)))
        (PyLong (uint (ev_res ev))) (ls_w s), ls_work := us @ (ev, Called) # vs, ls_called := ls_called s @ [ev_data ev]\<rparr>)"
| release: "ls_work s = us @ (ev, Called) # vs \<Longrightarrow>
    la_step self A s (s\<lparr>ls_w := decref_op_la (ev_data ev) (ls_w s), ls_work := us @ vs\<rparr>)"
| drop: "p \<in> A \<Longrightarrow> 0 < ls_user s p \<Longrightarrow>
    la_step self A s (s\<lparr>ls_w := decref_op_la p (ls_w s), ls_user := (ls_user s)(p := ls_user s p - 1)\<rparr>)"
| drop_context: "0 < ls_user s self \<Longrightarrow> ls_work s = [] \<or> 1 < ls_user s self \<Longrightarrow>
    la_step self A s (s\<lparr>ls_w := decref_ctx_la self (ls_w s), ls_user := (ls_user s)(self := ls_user s self - 1)\<rparr>)"
| share: "p \<in> insert self A \<Longrightarrow> 0 < ls_user s p \<Longrightarrow>
    la_step self A s (s\<lparr>ls_w := Py_INCREF p (ls_w s), ls_user := (ls_user s)(p := ls_user s p + 1)\<rparr>)"
| program: "program_step_la self A (ls_w s) w' \<Longrightarrow> la_step self A s (s\<lparr>ls_w := w'\<rparr>)"

section \<open>The accounts and the data of a state\<close>

definition phase_la :: "AIOOperation_la \<Rightarrow> phase" where
  "phase_la x = (if lo_in_progress x = 0 then Fresh else if lo_done x = 0 then Flight else Done)"

text \<open>Where an operation in flight can be: with the kernel, among its events, or collected.\<close>

definition with_stage :: "(stage \<Rightarrow> bool) \<Rightarrow> la_sys \<Rightarrow> ptr list" where
  "with_stage P s = map (ev_data \<circ> fst) (filter (P \<circ> snd) (ls_work s))"

definition places_la :: "la_sys \<Rightarrow> ptr list" where
  "places_la s = map aio_data (ls_kernel s) @ map ev_data (ls_events s) @ with_stage (\<lambda>st. st = Got) s"

definition own_la :: "ptr \<Rightarrow> ptr set \<Rightarrow> la_sys \<Rightarrow> ptr own" where
  "own_la self A s = \<lparr>ow_phase = (\<lambda>p. map_option phase_la (la_ops (ls_w s) p)),
     ow_refs = (\<lambda>p. if p \<in> insert self A then refs (ls_w s) p else 0), ow_user = ls_user s,
     ow_flight = mset (places_la s), ow_batch = mset (with_stage (\<lambda>st. st \<noteq> Got) s)\<rparr>"

text \<open>The three states of an Operation; its control block names it.\<close>

definition op_form_la :: "ptr \<Rightarrow> ptr set \<Rightarrow> ptr \<Rightarrow> AIOOperation_la \<Rightarrow> bool" where
  "op_form_la self A p x \<longleftrightarrow> aio_lio_opcode (lo_iocb x) \<in> {IOCB_CMD_PREAD, IOCB_CMD_PWRITE, IOCB_CMD_FSYNC, IOCB_CMD_FDSYNC} \<and>
     aio_data (lo_iocb x) = p \<and> (lo_in_progress x, lo_context x, lo_done x) \<in> {(0, NULL, 0), (1, self, 0), (1, NULL, 1)} \<and>
     lo_callback x \<notin> insert self A \<and> lo_py_buffer x \<notin> insert self A"

definition layout_la :: "ptr \<Rightarrow> ptr set \<Rightarrow> bool" where
  "layout_la self A \<longleftrightarrow> finite A \<and> self \<notin> A \<and> self \<noteq> NULL \<and> NULL \<notin> A"

definition history_la :: "la_sys \<Rightarrow> bool" where
  "history_la s \<longleftrightarrow> mset (ls_accepted s) = mset (ls_completed s) + mset (places_la s) \<and>
     mset (ls_completed s) = mset (ls_called s) + mset (with_stage (\<lambda>st. st = Stored) s)"

definition data_la :: "ptr \<Rightarrow> ptr set \<Rightarrow> la_sys \<Rightarrow> bool" where
  "data_la self A s \<longleftrightarrow> layout_la self A \<and> (\<forall>p x. la_ops (ls_w s) p = Some x \<longrightarrow> op_form_la self A p x) \<and>
     (case la_ctxs (ls_w s) self of None \<Rightarrow> refs (ls_w s) self = 0 | Some c \<Rightarrow> 0 < refs (ls_w s) self \<and> lc_ctx c \<noteq> 0) \<and>
     (\<forall>q\<in>insert self A. bytes_at (ls_w s) q = NULL) \<and> (ls_work s \<noteq> [] \<longrightarrow> 0 < ls_user s self) \<and> history_la s"

section \<open>How a system starts\<close>

text \<open>After \<^verbatim>\<open>Context.__init__\<close> succeeded, before any Operation; \<^verbatim>\<open>io_setup\<close> stores the address of the kernel's context.\<close>

inductive la_start :: "ptr \<Rightarrow> ptr set \<Rightarrow> la_sys \<Rightarrow> bool" for self :: ptr and A :: "ptr set" where
  "layout_la self A \<Longrightarrow> AIOContext_init_la eventfd parsed setup new_ctx_la = (Ret (), c) \<Longrightarrow>
   (\<And>n r errno ctx. setup n = (r, errno, ctx) \<Longrightarrow> 0 \<le> r \<Longrightarrow> ctx \<noteq> 0) \<Longrightarrow>
   0 < n \<Longrightarrow> (\<And>q. 0 \<le> refs w q) \<Longrightarrow> (\<And>p. p \<in> A \<Longrightarrow> refs w p = 0) \<Longrightarrow> (\<And>q. q \<in> insert self A \<Longrightarrow> bytes_at w q = NULL) \<Longrightarrow> runtime_ok w \<Longrightarrow>
   la_start self A \<lparr>ls_w = w\<lparr>refs := (refs w)(self := int n), la_ops := Map.empty, la_ctxs := [self \<mapsto> c]\<rparr>,
     ls_kernel = [], ls_events = [], ls_work = [], ls_user = (\<lambda>_. 0)(self := n), ls_accepted = [], ls_completed = [], ls_called = []\<rparr>"

definition la_reaches :: "ptr \<Rightarrow> ptr set \<Rightarrow> la_sys \<Rightarrow> bool" where
  "la_reaches self A s \<longleftrightarrow> (\<exists>s0. la_start self A s0 \<and> (la_step self A)\<^sup>*\<^sup>* s0 s)"

end
