(* ===== verification/Laio_Steps.thy ===== *)
theory Laio_Steps
  imports Laio_System
begin

text \<open>
  Every step of the kernel AIO system is a run of the ownership protocol and keeps what holds
  of the data: one lemma for each kind of step, and the interpretation of \<open>backend\<close>.
\<close>

section \<open>What holds of a state\<close>

lemma la_opD:
  assumes data: "data_la self A s" and inv: "own_inv self A (own_la self A s)" and x: "la_ops (ls_w s) p = Some x"
  shows "p \<in> A" "p \<noteq> self" "p \<noteq> NULL" "op_form_la self A p x" "0 < refs (ls_w s) p"
    "p \<in> set (places_la s) \<longleftrightarrow> phase_la x = Flight" "bytes_at (ls_w s) p = NULL"
proof -
  have c: "counted (p \<in> A) (Some (phase_la x)) (if p \<in> insert self A then refs (ls_w s) p else 0) (ls_user s p)
      (count (mset (places_la s)) p) (count (mset (with_stage (\<lambda>st. st \<noteq> Got) s)) p)"
    using own_invD(3) [OF inv, of p] x by (simp add: own_la_def)
  then show A: "p \<in> A" by (simp add: counted_def)
  then show "p \<noteq> self" "p \<noteq> NULL" "op_form_la self A p x" "bytes_at (ls_w s) p = NULL"
    using data x by (auto simp: data_la_def layout_la_def)
  show "0 < refs (ls_w s) p" using c A by (auto simp: counted_def)
  have "count (mset (places_la s)) p = (if phase_la x = Flight then 1 else 0)" using c by (auto simp: counted_def)
  then show "p \<in> set (places_la s) \<longleftrightarrow> phase_la x = Flight"
    by (metis count_eq_zero_iff set_mset_mset zero_neq_one)
qed

lemma la_absent:
  assumes inv: "own_inv self A (own_la self A s)" and "p \<in> A" "la_ops (ls_w s) p = None"
  shows "refs (ls_w s) p = 0"
  using own_invD(3) [OF inv, of p] assms(2,3) by (simp add: own_la_def counted_def)

lemma la_ctxD:
  assumes data: "data_la self A s" and inv: "own_inv self A (own_la self A s)" and user: "0 < ls_user s self"
  obtains c where "la_ctxs (ls_w s) self = Some c" "ctx_la (ls_w s) self = c" "lc_ctx c \<noteq> 0"
    "refs (ls_w s) self = int (ls_user s self) + int (length (places_la s))"
proof -
  have "refs (ls_w s) self = int (ls_user s self) + int (length (places_la s))"
    using own_invD(2) [OF inv] by (simp add: own_la_def)
  with data user that show thesis by (auto simp: data_la_def ctx_la_def split: option.splits)
qed

lemma own_la_sel:
  "ow_user (own_la self A s) = ls_user s" "ow_batch (own_la self A s) = mset (with_stage (\<lambda>st. st \<noteq> Got) s)"
  "ow_flight (own_la self A s) = mset (places_la s)" "ow_phase (own_la self A s) p = map_option phase_la (la_ops (ls_w s) p)"
  by (simp_all add: own_la_def)

text \<open>An operation in a place is in flight, and holds the Context.\<close>

lemma la_in_flight:
  assumes data: "data_la self A s" and inv: "own_inv self A (own_la self A s)" and p: "p \<in> set (places_la s)"
  obtains x where "la_ops (ls_w s) p = Some x" "phase_la x = Flight" "lo_context x = self" "lo_in_progress x = 1" "lo_done x = 0"
proof -
  have "ow_phase (own_la self A s) p = Some Flight" using p by (intro in_flight_alive(1) [OF inv]) (simp add: own_la_def)
  then obtain x where x: "la_ops (ls_w s) p = Some x" "phase_la x = Flight" by (auto simp: own_la_def)
  then show thesis using that la_opD(4) [OF data inv x(1)] by (auto simp: op_form_la_def phase_la_def split: if_splits)
qed

text \<open>Steps that touch neither Operations nor the Context, nor references on them.\<close>

lemma places_la_world [simp]: "places_la (s\<lparr>ls_w := w\<rparr>) = places_la s" "with_stage P (s\<lparr>ls_w := w\<rparr>) = with_stage P s"
  "places_la (s\<lparr>ls_user := u\<rparr>) = places_la s" "with_stage P (s\<lparr>ls_user := u\<rparr>) = with_stage P s"
  by (simp_all add: places_la_def with_stage_def)

lemma history_la_world [simp]: "history_la (s\<lparr>ls_w := w\<rparr>) = history_la s" "history_la (s\<lparr>ls_user := u\<rparr>) = history_la s"
  by (simp_all add: history_la_def)

lemma quiet_la:
  assumes "la_ops w' = la_ops (ls_w s)" "la_ctxs w' = la_ctxs (ls_w s)"
    "\<forall>q\<in>insert self A. refs w' q = refs (ls_w s) q \<and> bytes_at w' q = bytes_at (ls_w s) q"
  shows "own_la self A (s\<lparr>ls_w := w'\<rparr>) = own_la self A s" "data_la self A (s\<lparr>ls_w := w'\<rparr>) = data_la self A s"
proof -
  show "own_la self A (s\<lparr>ls_w := w'\<rparr>) = own_la self A s" using assms(1,3) by (auto simp: own_la_def fun_eq_iff)
  show "data_la self A (s\<lparr>ls_w := w'\<rparr>) = data_la self A s"
    using assms by (simp add: data_la_def split: option.split)
qed

subsection \<open>Constructors\<close>

lemma fresh_la_form:
  "layout_la self A \<Longrightarrow> fresh_la p x \<Longrightarrow> lo_py_buffer x \<notin> insert self A \<Longrightarrow> op_form_la self A p x \<and> phase_la x = Fresh"
  by (auto simp: fresh_la_def op_form_la_def phase_la_def layout_la_def)

lemma constructor_la_refines:
  assumes data: "data_la self A s" and inv: "own_inv self A (own_la self A s)"
    and p: "p \<in> A" "la_ops (ls_w s) p = None"
    and result: "(\<exists>e. r = Raise e) \<and> discarded_la p (ls_w s) w' \<or> r = Ret (PyObj p) \<and>
      (\<exists>x. constructed_la p x (ls_w s) w' \<and> lo_py_buffer x \<notin> insert self A \<and>
         (\<forall>q\<in>insert self A. bytes_at w' q = bytes_at (ls_w s) q \<and> (q \<noteq> p \<longrightarrow> refs w' q = refs (ls_w s) q)))"
  defines "s' \<equiv> s\<lparr>ls_w := w', ls_user := given_la r p (ls_user s)\<rparr>"
  shows "data_la self A s' \<and> (own_step self A)\<^sup>*\<^sup>* (own_la self A s) (own_la self A s')"
  using result
proof (elim disjE conjE exE)
  fix e assume r: "r = Raise e" and gone: "discarded_la p (ls_w s) w'"
  have "(la_ops (ls_w s))(p := None) = la_ops (ls_w s)" using p(2) by (simp add: fun_upd_idem)
  moreover have "(refs (ls_w s))(p := 0) = refs (ls_w s)" using la_absent [OF inv p] by (simp add: fun_upd_idem)
  ultimately have "la_ops w' = la_ops (ls_w s)" "la_ctxs w' = la_ctxs (ls_w s)"
    "\<forall>q\<in>insert self A. refs w' q = refs (ls_w s) q \<and> bytes_at w' q = bytes_at (ls_w s) q"
    using gone by (simp_all add: discarded_la_def)
  then show ?thesis using quiet_la data by (simp add: s'_def r)
next
  fix x
  assume r: "r = Ret (PyObj p)" and new: "constructed_la p x (ls_w s) w'" and pb: "lo_py_buffer x \<notin> insert self A"
    and frame: "\<forall>q\<in>insert self A. bytes_at w' q = bytes_at (ls_w s) q \<and> (q \<noteq> p \<longrightarrow> refs w' q = refs (ls_w s) q)"
  have lay: "layout_la self A" and bytes: "\<forall>q\<in>insert self A. bytes_at (ls_w s) q = NULL" using data by (simp_all add: data_la_def)
  then have ne: "p \<noteq> self" using p(1) by (auto simp: layout_la_def)
  have w': "la_ops w' = (la_ops (ls_w s))(p \<mapsto> x)" "la_ctxs w' = la_ctxs (ls_w s)" "refs w' p = 1"
    using new by (simp_all add: constructed_la_def)
  have x: "op_form_la self A p x" "phase_la x = Fresh"
    using fresh_la_form [OF lay _ pb, of p] new by (simp_all add: constructed_la_def)
  have self: "refs w' self = refs (ls_w s) self" using frame ne by simp
  have s': "s' = s\<lparr>ls_w := w', ls_user := (ls_user s)(p := 1)\<rparr>" by (simp add: s'_def r)
  have "data_la self A s'"
    using data frame bytes x(1) ne by (auto simp: data_la_def s' w' self split: option.splits if_splits)
  moreover have "own_la self A s' = (own_la self A s)\<lparr>ow_phase := (ow_phase (own_la self A s))(p \<mapsto> Fresh),
      ow_refs := (ow_refs (own_la self A s))(p := 1), ow_user := (ow_user (own_la self A s))(p := 1)\<rparr>"
    using frame p(1) x(2) w'(3) ne by (intro own.equality) (auto simp: own_la_def s' w' fun_eq_iff)
  moreover have "ow_phase (own_la self A s) p = None" using p(2) by (simp add: own_la_def)
  ultimately show ?thesis using own_step.create [OF p(1), of "own_la self A s" self] by auto
qed

lemma addresses_la:
  assumes "data_la self A s" "p \<in> A"
  shows "p \<noteq> NULL" "bytes_at (ls_w s) p = NULL" "NULL \<notin> insert self A" "\<forall>q\<in>insert self A. bytes_at (ls_w s) q = NULL"
  using assms by (auto simp: data_la_def layout_la_def)

lemma new_read_refines:
  assumes data: "data_la self A s" and inv: "own_inv self A (own_la self A s)"
    and p: "p \<in> A" "la_ops (ls_w s) p = None"
    and new: "\<And>n fd off pri. parsed = Some (n, fd, off, pri) \<Longrightarrow> new_block self A (ls_w s) (unat n) block view"
    and run: "AIOOperation_read_la p parsed block view (ls_w s) = (r, w')"
  defines "s' \<equiv> s\<lparr>ls_w := w', ls_user := given_la r p (ls_user s)\<rparr>"
  shows "data_la self A s' \<and> (own_step self A)\<^sup>*\<^sup>* (own_la self A s) (own_la self A s')"
proof -
  note a = addresses_la [OF data p(1)]
  have "parsed \<noteq> None \<Longrightarrow> \<exists>n. new_block self A (ls_w s) n block view" using new by auto
  then have b: "parsed \<noteq> None \<longrightarrow> block \<noteq> NULL \<longrightarrow> mem (ls_w s) block = None"
    and v: "parsed \<noteq> None \<Longrightarrow> view \<noteq> NULL \<Longrightarrow> view \<notin> insert self A" by (auto simp: new_block_def)
  have "parsed \<noteq> None \<longrightarrow> view \<noteq> p" using v a(1) p(1) by auto
  from read_effect_la [OF run a(1) b this] show ?thesis
    unfolding s'_def by (intro constructor_la_refines [OF data inv p]) (use v in fastforce)
qed

lemma new_write_refines:
  assumes data: "data_la self A s" and inv: "own_inv self A (own_la self A s)"
    and p: "p \<in> A" "la_ops (ls_w s) p = None"
    and run: "AIOOperation_write_la p parsed as_string (ls_w s) = (r, w')"
  defines "s' \<equiv> s\<lparr>ls_w := w', ls_user := given_la r p (ls_user s)\<rparr>"
  shows "data_la self A s' \<and> (own_step self A)\<^sup>*\<^sup>* (own_la self A s) (own_la self A s')"
proof -
  note a = addresses_la [OF data p(1)]
  have pb: "bytes_at (ls_w s) pb \<noteq> NULL \<Longrightarrow> pb \<notin> insert self A" for pb using a(4) by auto
  from write_effect_la [OF run a(1,2)] show ?thesis
    unfolding s'_def by (intro constructor_la_refines [OF data inv p]) (use pb in fastforce)
qed

lemma new_sync_refines:
  assumes data: "data_la self A s" and inv: "own_inv self A (own_la self A s)"
    and p: "p \<in> A" "la_ops (ls_w s) p = None" and code: "code \<in> {IOCB_CMD_FSYNC, IOCB_CMD_FDSYNC}"
    and run: "AIOOperation_sync_la code p parsed (ls_w s) = (r, w')"
  defines "s' \<equiv> s\<lparr>ls_w := w', ls_user := given_la r p (ls_user s)\<rparr>"
  shows "data_la self A s' \<and> (own_step self A)\<^sup>*\<^sup>* (own_la self A s) (own_la self A s')"
proof -
  note a = addresses_la [OF data p(1)]
  from sync_effect_la [OF run a(1) code] show ?thesis
    unfolding s'_def by (intro constructor_la_refines [OF data inv p]) (use a(3) in fastforce)
qed

lemma set_callback_la_refines:
  assumes data: "data_la self A s" and inv: "own_inv self A (own_la self A s)" and x: "la_ops (ls_w s) p \<noteq> None"
    and cb: "\<And>c. parsed = Some c \<Longrightarrow> callable \<Longrightarrow> c \<notin> insert self A"
    and run: "AIOOperation_set_callback_la p parsed callable (ls_w s) = (r, w')"
  shows "data_la self A (s\<lparr>ls_w := w'\<rparr>) \<and> own_la self A (s\<lparr>ls_w := w'\<rparr>) = own_la self A s"
proof -
  from x obtain x where x: "la_ops (ls_w s) p = Some x" by auto
  note p = la_opD [OF data inv x] and eff = set_callback_effect_la [OF run x]
  show ?thesis
  proof (cases "\<exists>c. parsed = Some c \<and> callable")
    case False
    then have "w' = ls_w s" using eff by (auto split: option.splits)
    then show ?thesis using data by simp
  next
    case True
    then obtain c where c: "parsed = Some c" "callable" by blast
    then have w': "la_ctxs w' = la_ctxs (ls_w s)" "bytes_at w' = bytes_at (ls_w s)"
      "la_ops w' = (la_ops (ls_w s))(p \<mapsto> x\<lparr>lo_callback := c\<rparr>)"
      "\<And>q. refs w' q = refs (ls_w s) q + (if q = c then 1 else 0) - (if q = lo_callback x \<and> q \<noteq> NULL then 1 else 0)"
      using eff by simp_all
    have cbs: "c \<notin> insert self A" "lo_callback x \<notin> insert self A" using cb [OF c] p(4) by (simp_all add: op_form_la_def)
    then have rf: "\<forall>q\<in>insert self A. refs w' q = refs (ls_w s) q" by (auto simp: w'(4))
    have form: "op_form_la self A p (x\<lparr>lo_callback := c\<rparr>)" "phase_la (x\<lparr>lo_callback := c\<rparr>) = phase_la x"
      using p(4) cbs by (simp_all add: op_form_la_def phase_la_def)
    have "own_la self A (s\<lparr>ls_w := w'\<rparr>) = own_la self A s"
      using rf x form(2) by (auto simp: own_la_def w'(3) fun_eq_iff)
    moreover have "data_la self A (s\<lparr>ls_w := w'\<rparr>)"
      using data form(1) rf by (auto simp: data_la_def w'(1-3) split: option.splits if_splits)
    ultimately show ?thesis by simp
  qed
qed

subsection \<open>The kernel and its events\<close>

text \<open>Moving an operation in flight from one place to another.\<close>

lemma moved_refines:
  assumes data: "data_la self A s" and "mset (places_la s') = mset (places_la s)" "mset (with_stage (\<lambda>st. st = Stored) s') = mset (with_stage (\<lambda>st. st = Stored) s)"
    and "mset (with_stage (\<lambda>st. st \<noteq> Got) s') = mset (with_stage (\<lambda>st. st \<noteq> Got) s)"
    and "la_ops (ls_w s') = la_ops (ls_w s)" "la_ctxs (ls_w s') = la_ctxs (ls_w s)" "refs (ls_w s') = refs (ls_w s)" "bytes_at (ls_w s') = bytes_at (ls_w s)"
    and "ls_user s' = ls_user s" "ls_accepted s' = ls_accepted s" "ls_completed s' = ls_completed s" "ls_called s' = ls_called s"
    and "ls_work s' \<noteq> [] \<Longrightarrow> 0 < ls_user s self"
  shows "data_la self A s' \<and> own_la self A s' = own_la self A s"
  using assms by (simp add: data_la_def history_la_def own_la_def cong: option.case_cong if_cong)

lemma kernel_stores_frame [simp]:
  "la_ops (kernel_stores b d w) = la_ops w" "la_ctxs (kernel_stores b d w) = la_ctxs w"
  "refs (kernel_stores b d w) = refs w" "bytes_at (kernel_stores b d w) = bytes_at w"
  by (simp_all add: kernel_stores_def store_bytes_def)

lemma kernel_post_la_refines:
  fixes d :: "u8 list" and res :: u64
  assumes data: "data_la self A s" and kernel: "ls_kernel s = bs @ b # cs"
  defines "s' \<equiv> s\<lparr>ls_w := kernel_stores b d (ls_w s), ls_kernel := bs @ cs, ls_events := ls_events s @ [\<lparr>ev_data = aio_data b, ev_res = res\<rparr>]\<rparr>"
  shows "data_la self A s' \<and> own_la self A s' = own_la self A s"
  unfolding s'_def using data kernel
  by (intro moved_refines [OF data]) (simp_all add: places_la_def with_stage_def data_la_def)

lemma filter_got [simp]: "filter (P \<circ> snd) (map (\<lambda>ev. (ev, st)) evs) = (if P st then map (\<lambda>ev. (ev, st)) evs else [])"
  by (induction evs) auto

lemma collect_refines:
  assumes data: "data_la self A s" and events: "ls_events s = evs @ rest" and user: "0 < ls_user s self"
  defines "s' \<equiv> s\<lparr>ls_events := rest, ls_work := map (\<lambda>ev. (ev, Got)) evs @ ls_work s\<rparr>"
  shows "data_la self A s' \<and> own_la self A s' = own_la self A s"
  unfolding s'_def using events user
  by (intro moved_refines [OF data]) (simp_all add: places_la_def with_stage_def comp_assoc comp_def [of fst] comp_def [of _ "\<lambda>x. x"])

lemma cancel_la_refines:
  fixes res :: u64
  assumes data: "data_la self A s" and kernel: "ls_kernel s = bs @ b # cs" and user: "0 < ls_user s self"
  defines "s' \<equiv> s\<lparr>ls_kernel := bs @ cs, ls_work := (\<lparr>ev_data = aio_data b, ev_res = res\<rparr>, Got) # ls_work s\<rparr>"
  shows "data_la self A s' \<and> own_la self A s' = own_la self A s"
  unfolding s'_def using kernel user
  by (intro moved_refines [OF data]) (simp_all add: places_la_def with_stage_def)

subsection \<open>Completing\<close>

text \<open>What an event that was collected leaves in its operation, in closed form.\<close>

lemma with_stage_at:
  "ls_work s = us @ (ev, st) # vs \<Longrightarrow> mset (with_stage P s) =
     mset (map (ev_data \<circ> fst) (filter (P \<circ> snd) (us @ vs))) + (if P st then {#ev_data ev#} else {#})"
  by (simp add: with_stage_def)

lemma collected_in_place: "ls_work s = us @ (ev, Got) # vs \<Longrightarrow> ev_data ev \<in> set (places_la s)"
  by (simp add: places_la_def with_stage_def)

lemma stored_closed:
  assumes data: "data_la self A s" and inv: "own_inv self A (own_la self A s)" and work: "ls_work s = us @ (ev, Got) # vs"
  obtains x where "la_ops (ls_w s) (ev_data ev) = Some x" "lo_in_progress x = 1" "lo_done x = 0"
    "complete_event (ev_data ev) (ev_res ev) (ls_w s) = (ls_w s)\<lparr>refs := (refs (ls_w s))(self := refs (ls_w s) self - 1),
       la_ops := (la_ops (ls_w s))(ev_data ev \<mapsto> completed_op_la (ev_res ev) x)\<rparr>"
proof -
  have user: "0 < ls_user s self" using data work by (simp add: data_la_def)
  obtain c where rs: "refs (ls_w s) self = int (ls_user s self) + int (length (places_la s))"
    by (rule la_ctxD [OF data inv user])
  have p: "ev_data ev \<in> set (places_la s)" by (rule collected_in_place [OF work])
  then have "0 < length (places_la s)" by (metis length_pos_if_in_set)
  then have rf: "1 < refs (ls_w s) self" using rs user by linarith
  obtain x where x: "la_ops (ls_w s) (ev_data ev) = Some x" "lo_context x = self" "lo_in_progress x = 1" "lo_done x = 0"
    by (rule la_in_flight [OF data inv p])
  have "self \<noteq> NULL" using data by (simp add: data_la_def layout_la_def)
  from complete_event_closed [OF x(1,2) this rf] show thesis using that x by blast
qed

lemma store_refines:
  assumes data: "data_la self A s" and inv: "own_inv self A (own_la self A s)" and work: "ls_work s = us @ (ev, Got) # vs"
  defines "s' \<equiv> s\<lparr>ls_w := complete_event (ev_data ev) (ev_res ev) (ls_w s), ls_work := us @ (ev, Stored) # vs,
      ls_completed := ls_completed s @ [ev_data ev]\<rparr>"
  shows "data_la self A s' \<and> (own_step self A)\<^sup>*\<^sup>* (own_la self A s) (own_la self A s')"
proof -
  let ?p = "ev_data ev"
  have user: "0 < ls_user s self" using data work by (simp add: data_la_def)
  obtain x where x: "la_ops (ls_w s) ?p = Some x" "lo_in_progress x = 1" "lo_done x = 0"
    and w: "complete_event ?p (ev_res ev) (ls_w s) = (ls_w s)\<lparr>refs := (refs (ls_w s))(self := refs (ls_w s) self - 1),
       la_ops := (la_ops (ls_w s))(?p \<mapsto> completed_op_la (ev_res ev) x)\<rparr>"
    by (rule stored_closed [OF data inv work])
  note p = la_opD [OF data inv x(1)]
  obtain c where c: "la_ctxs (ls_w s) self = Some c" and rs: "refs (ls_w s) self = int (ls_user s self) + int (length (places_la s))"
    by (rule la_ctxD [OF data inv user])
  have "0 < length (places_la s)" using collected_in_place [OF work] by (metis length_pos_if_in_set)
  then have rf: "1 < refs (ls_w s) self" using rs user by linarith
  have self: "self \<notin> A" using data by (simp add: data_la_def layout_la_def)
  have x': "op_form_la self A ?p (completed_op_la (ev_res ev) x)" "phase_la (completed_op_la (ev_res ev) x) = Done"
    using p(4) x(2) by (auto simp: op_form_la_def phase_la_def completed_op_la_def)
  have work': "ls_work s' = us @ (ev, Stored) # vs" by (simp add: s'_def)
  note at = with_stage_at [OF work] with_stage_at [OF work']
  have pl: "mset (places_la s) = add_mset ?p (mset (places_la s'))"
    using at [of "\<lambda>st. st = Got"] by (simp add: places_la_def) (simp add: s'_def)
  have st: "mset (with_stage (\<lambda>st. st = Stored) s') = add_mset ?p (mset (with_stage (\<lambda>st. st = Stored) s))"
    "mset (with_stage (\<lambda>st. st \<noteq> Got) s') = add_mset ?p (mset (with_stage (\<lambda>st. st \<noteq> Got) s))"
    unfolding at by simp_all
  have "data_la self A s'"
    unfolding data_la_def
  proof (intro conjI allI impI)
    show "history_la s'" using data pl st(1) by (simp add: data_la_def history_la_def) (simp add: s'_def)
    show "op_form_la self A q y" if "la_ops (ls_w s') q = Some y" for q y
      using that x'(1) data by (auto simp: s'_def w data_la_def split: if_splits)
  qed (use data user c rf self in \<open>simp_all add: s'_def w data_la_def\<close>)
  moreover have "own_la self A s' = (own_la self A s)\<lparr>ow_phase := (ow_phase (own_la self A s))(?p \<mapsto> Done),
      ow_refs := (ow_refs (own_la self A s))(self := ow_refs (own_la self A s) self - 1),
      ow_flight := ow_flight (own_la self A s) - {#?p#}, ow_batch := add_mset ?p (ow_batch (own_la self A s))\<rparr>"
    using self x'(2) by (intro own.equality; simp add: own_la_def pl st(2)) (auto simp: s'_def w fun_eq_iff)
  moreover have "?p \<in># ow_flight (own_la self A s)" by (simp add: own_la_sel pl)
  ultimately show ?thesis using own_step.complete [of "own_la self A s" self ?p A] user by (auto simp: own_la_sel)
qed

lemma run_callback_la_frame:
  fixes w :: la_world
  shows "la_ops (run_callback (\<lambda>cb v w. (verdict cb v, w)) cb v w) = la_ops w"
    "la_ctxs (run_callback (\<lambda>cb v w. (verdict cb v, w)) cb v w) = la_ctxs w"
    "refs (run_callback (\<lambda>cb v w. (verdict cb v, w)) cb v w) = refs w"
    "bytes_at (run_callback (\<lambda>cb v w. (verdict cb v, w)) cb v w) = bytes_at w"
  by (simp_all add: run_callback_def rt_simps Let_def)

lemma call_la_refines:
  fixes verdict :: "ptr \<Rightarrow> pyval \<Rightarrow> bool" and cb :: ptr and v :: pyval
  assumes data: "data_la self A s" and work: "ls_work s = us @ (ev, Stored) # vs"
  defines "s' \<equiv> s\<lparr>ls_w := run_callback (\<lambda>cb v w. (verdict cb v, w)) cb v (ls_w s),
      ls_work := us @ (ev, Called) # vs, ls_called := ls_called s @ [ev_data ev]\<rparr>"
  shows "data_la self A s' \<and> own_la self A s' = own_la self A s"
proof -
  have work': "ls_work s' = us @ (ev, Called) # vs" by (simp add: s'_def)
  note at = with_stage_at [OF work] with_stage_at [OF work']
  have pl: "mset (places_la s') = mset (places_la s)" using at [of "\<lambda>st. st = Got"] by (simp add: places_la_def) (simp add: s'_def)
  have st: "mset (with_stage (\<lambda>st. st = Stored) s) = add_mset (ev_data ev) (mset (with_stage (\<lambda>st. st = Stored) s'))"
    "mset (with_stage (\<lambda>st. st \<noteq> Got) s') = mset (with_stage (\<lambda>st. st \<noteq> Got) s)" unfolding at by simp_all
  have "own_la self A s' = own_la self A s"
    by (intro own.equality; simp add: own_la_def pl st) (simp_all add: s'_def run_callback_la_frame cong: if_cong)
  moreover have "data_la self A s'"
    using data pl st work by (simp add: data_la_def history_la_def) (simp add: s'_def run_callback_la_frame cong: option.case_cong)
  ultimately show ?thesis by simp
qed

text \<open>One reference on an Operation given up, by the backend or by the program.\<close>

lemma decref_op_la_refines:
  assumes data: "data_la self A s" and inv: "own_inv self A (own_la self A s)"
    and x: "la_ops (ls_w s) p = Some x" and idle: "refs (ls_w s) p = 1 \<Longrightarrow> phase_la x \<noteq> Flight"
  shows "data_la self A (s\<lparr>ls_w := decref_op_la p (ls_w s)\<rparr>) \<and>
    own_la self A (s\<lparr>ls_w := decref_op_la p (ls_w s)\<rparr>) = ow_drop p (own_la self A s)"
proof -
  let ?w' = "decref_op_la p (ls_w s)"
  note p = la_opD [OF data inv x]
  have "la_ctxs ?w' = la_ctxs (ls_w s) \<and> bytes_at ?w' = bytes_at (ls_w s) \<and>
    la_ops ?w' = (if refs (ls_w s) p = 1 then (la_ops (ls_w s))(p := None) else la_ops (ls_w s)) \<and>
    (\<forall>q\<in>insert self A. refs ?w' q = refs (ls_w s) q - (if q = p then 1 else 0))"
  proof (cases "refs (ls_w s) p = 1")
    case True
    then have "phase_la x \<noteq> Flight" by (rule idle)
    then have null: "lo_context x = NULL" and foreign: "lo_callback x \<notin> insert self A" "lo_py_buffer x \<notin> insert self A"
      using p(4) by (auto simp: op_form_la_def phase_la_def)
    show ?thesis using decref_op_la_frame [OF x null] foreign by auto
  qed (simp add: decref_op_la_alive)
  then have frame: "la_ctxs ?w' = la_ctxs (ls_w s)" "bytes_at ?w' = bytes_at (ls_w s)"
    "la_ops ?w' = (if refs (ls_w s) p = 1 then (la_ops (ls_w s))(p := None) else la_ops (ls_w s))"
    "\<And>q. q \<in> insert self A \<Longrightarrow> refs ?w' q = refs (ls_w s) q - (if q = p then 1 else 0)"
    by blast+
  have "own_la self A (s\<lparr>ls_w := ?w'\<rparr>) = ow_drop p (own_la self A s)"
    using p(1,2) by (intro own.equality) (auto simp: own_la_def ow_drop_def frame(3,4) fun_eq_iff)
  moreover have "data_la self A (s\<lparr>ls_w := ?w'\<rparr>)"
    using data p(1,2) by (auto simp: data_la_def frame split: option.splits if_splits)
  ultimately show ?thesis by simp
qed

lemma release_la_refines:
  assumes data: "data_la self A s" and inv: "own_inv self A (own_la self A s)" and work: "ls_work s = us @ (ev, Called) # vs"
  defines "s' \<equiv> s\<lparr>ls_w := decref_op_la (ev_data ev) (ls_w s), ls_work := us @ vs\<rparr>"
  shows "data_la self A s' \<and> (own_step self A)\<^sup>*\<^sup>* (own_la self A s) (own_la self A s')"
proof -
  let ?p = "ev_data ev" and ?s = "s\<lparr>ls_w := decref_op_la (ev_data ev) (ls_w s)\<rparr>"
  have stage: "mset (with_stage P s) = mset (with_stage P s') + (if P Called then {#?p#} else {#})" for P
    using with_stage_at [OF work, of P] by (simp add: with_stage_def s'_def)
  have inb: "?p \<in># ow_batch (own_la self A s)" using stage [of "\<lambda>st. st \<noteq> Got"] by (simp add: own_la_sel)
  from in_batch_alive(1) [OF inv this] obtain x where x: "la_ops (ls_w s) ?p = Some x" "phase_la x = Done"
    by (auto simp: own_la_sel)
  note d = decref_op_la_refines [OF data inv x(1)]
  have pl: "mset (places_la s') = mset (places_la s)" using stage [of "\<lambda>st. st = Got"] by (simp add: places_la_def) (simp add: s'_def)
  have "own_la self A s' = (own_la self A ?s)\<lparr>ow_batch := mset (with_stage (\<lambda>st. st \<noteq> Got) s')\<rparr>"
    by (intro own.equality; simp add: own_la_def pl) (simp_all add: s'_def cong: if_cong)
  then have "own_la self A s' = (ow_drop ?p (own_la self A s))\<lparr>ow_batch := ow_batch (own_la self A s) - {#?p#}\<rparr>"
    using d x(2) stage [of "\<lambda>st. st \<noteq> Got"] by (simp add: own_la_sel)
  moreover have "data_la self A s'"
    using d x(2) stage [of "\<lambda>st. st = Stored"] work by (simp add: data_la_def history_la_def pl) (simp add: s'_def cong: option.case_cong)
  ultimately show ?thesis using own_step.release [OF inb, of self A] by auto
qed

subsection \<open>Submit\<close>

lemma data_la_ready:
  assumes data: "data_la self A s" and inv: "own_inv self A (own_la self A s)" and user: "0 < ls_user s self"
  shows "ready_la self (ls_w s)"
proof -
  obtain c where c: "la_ctxs (ls_w s) self = Some c" by (rule la_ctxD [OF data inv user])
  have "la_ops (ls_w s) self = None" using own_inv_self(1) [OF inv] by (simp add: own_la_sel)
  moreover have "if lo_in_progress x = 0 then lo_context x = NULL else lo_in_progress x = 1" if "la_ops (ls_w s) p = Some x" for p x
    using la_opD(4) [OF data inv that] by (auto simp: op_form_la_def)
  ultimately show ?thesis using c data by (auto simp: ready_la_def data_la_def layout_la_def)
qed

text \<open>A submission: some operations were claimed, a prefix of them was accepted, the rest rolled back.\<close>

lemma submit_effect:
  assumes data: "data_la self A s" and inv: "own_inv self A (own_la self A s)" and user: "0 < ls_user s self"
    and env: "le_submit env = (\<lambda>ctx ps w. (answer ps, errno ps, w))" "\<And>ps. answer ps \<le> int (length ps)"
    and run: "AIOContext_submit_la env self args (ls_w s) = (r, w')"
  obtains acc rej where "claimable_la self (acc @ rej) (ls_w s)" "w' = submitted_la self acc rej (ls_w s)"
    "taken_la self args (ls_w s) r = acc"
proof -
  let ?w = "ls_w s"
  obtain c where c: "la_ctxs ?w self = Some c" "ctx_la ?w self = c" "lc_ctx c \<noteq> 0"
    and rs: "refs ?w self = int (ls_user s self) + int (length (places_la s))" by (rule la_ctxD [OF data inv user])
  note ready = data_la_ready [OF data inv user]
  have none: "claimable_la self [] ?w" using ready rs user by (simp add: claimable_la_def)
  show thesis
  proof (cases "\<exists>ps. args = Some ps \<and> ps \<noteq> [] \<and> (\<forall>p\<in>set ps. la_ops ?w p \<noteq> None) \<and> le_memory env")
    case False
    then have "w' = ?w" "taken_la self args ?w r = []"
      using run c wrong_type_None [of "la_ops ?w" 0]
      by (auto simp: AIOContext_submit_la_def taken_la_def split: option.splits if_splits)
    then show ?thesis using that [of "[]" "[]"] none by simp
  next
    case True
    then obtain ps where ps: "args = Some ps" "ps \<noteq> []" "\<forall>p\<in>set ps. la_ops ?w p \<noteq> None" "le_memory env" by blast
    obtain cs w1 where claim: "claim_all_la self ps ?w = (cs, w1)" by fastforce
    note cs = claim_all_la_spec [OF ready ps(3) claim]
    have "0 < refs ?w p" if "free_la ?w p" for p
      using that la_opD(5) [OF data inv] by (auto simp: free_la_def split: option.splits)
    then have can: "claimable_la self cs ?w" using cs ready rs user by (simp add: claimable_la_def)
    have w1: "w1 = submitted_la self cs [] ?w" using cs by simp
    define n where "n = (if cs = [] then 0 else nat (answer cs))"
    have run': "w' = fold rollback_la (drop n cs) w1" "taken_la self args ?w r = take n cs"
      using run c ps wrong_type_None [of "la_ops ?w" 0 ps] claim w1
      by (auto simp: AIOContext_submit_la_def taken_la_def env n_def io_submit_error_def split: if_splits)
    show ?thesis
      using that [of "take n cs" "drop n cs"] can run' rollbacks_take_drop [OF can, of n] by (simp add: w1)
  qed
qed

lemma submit_la_refines:
  assumes data: "data_la self A s" and inv: "own_inv self A (own_la self A s)" and user: "0 < ls_user s self"
    and env: "le_submit env = (\<lambda>ctx ps w. (answer ps, errno ps, w))" "\<And>ps. answer ps \<le> int (length ps)"
    and run: "AIOContext_submit_la env self args (ls_w s) = (r, w')" and ps: "ps = taken_la self args (ls_w s) r"
  defines "s' \<equiv> s\<lparr>ls_w := w', ls_kernel := ls_kernel s @ map (\<lambda>p. lo_iocb (op_la w' p)) ps, ls_accepted := ls_accepted s @ ps\<rparr>"
  shows "data_la self A s' \<and> (own_step self A)\<^sup>*\<^sup>* (own_la self A s) (own_la self A s')"
proof -
  obtain rej where can: "claimable_la self (ps @ rej) (ls_w s)" and w': "w' = submitted_la self ps rej (ls_w s)"
    by (rule submit_effect [OF data inv user env run]) (simp add: ps)
  obtain c where c: "la_ctxs (ls_w s) self = Some c" "lc_ctx c \<noteq> 0"
    and rs: "refs (ls_w s) self = int (ls_user s self) + int (length (places_la s))" by (rule la_ctxD [OF data inv user])
  let ?fd = "lc_fileno (ctx_la (ls_w s) self)"
  have free: "\<exists>x. la_ops (ls_w s) p = Some x \<and> lo_in_progress x = 0" if "p \<in> set ps \<union> set rej" for p
  proof -
    have "free_la (ls_w s) p" using can that by (auto simp: claimable_la_def)
    then show ?thesis by (auto simp: free_la_def split: option.splits)
  qed
  have form: "op_form_la self A p (held_la self ?fd x) \<and> phase_la (held_la self ?fd x) = Flight" "op_form_la self A p (flagged_la ?fd x) \<and> phase_la (flagged_la ?fd x) = phase_la x"
    if "la_ops (ls_w s) p = Some x" "lo_in_progress x = 0" for p x
    using la_opD(4) [OF data inv that(1)] that(2) by (auto simp: op_form_la_def phase_la_def)
  have psA: "set ps \<subseteq> A" and self: "self \<notin> A" using free la_opD(1) [OF data inv] data by (fastforce simp: data_la_def layout_la_def)+
  have names: "map (\<lambda>p. aio_data (lo_iocb (op_la w' p))) ps = ps"
  proof (rule map_idI)
    fix p assume p: "p \<in> set ps"
    with free obtain x where x: "la_ops (ls_w s) p = Some x" "lo_in_progress x = 0" by blast
    then show "aio_data (lo_iocb (op_la w' p)) = p" using form(1) [OF x] p by (simp add: w' op_la_def op_form_la_def)
  qed
  have pl: "mset (places_la s') = mset ps + mset (places_la s)"
    using names by (simp add: s'_def places_la_def with_stage_def comp_def)
  have st: "with_stage P s' = with_stage P s" for P by (simp add: s'_def with_stage_def)
  have ops: "la_ops w' q = (if q \<in> set ps then map_option (held_la self ?fd) (la_ops (ls_w s) q)
      else if q \<in> set rej then map_option (flagged_la ?fd) (la_ops (ls_w s) q) else la_ops (ls_w s) q)" for q
    by (simp add: w')
  have rf: "refs w' q = refs (ls_w s) q + (if q \<in> set ps then 1 else 0) + (if q = self then int (length ps) else 0)" for q
    by (simp add: w')
  have phase: "map_option phase_la (la_ops w' p) = (if p \<in> set ps then Some Flight else map_option phase_la (la_ops (ls_w s) p))" for p
  proof (cases "p \<in> set ps \<union> set rej")
    case True
    with free obtain x where x: "la_ops (ls_w s) p = Some x" "lo_in_progress x = 0" by blast
    then show ?thesis using form [OF x] True by (auto simp: ops)
  qed (simp add: ops)
  have "data_la self A s'"
    unfolding data_la_def
  proof (intro conjI allI impI)
    show "history_la s'" using data pl st by (simp add: data_la_def history_la_def) (simp add: s'_def)
    fix q y assume y: "la_ops (ls_w s') q = Some y"
    show "op_form_la self A q y"
    proof (cases "q \<in> set ps \<union> set rej")
      case True
      with free obtain x where x: "la_ops (ls_w s) q = Some x" "lo_in_progress x = 0" by blast
      then show ?thesis using form [OF x] y True by (auto simp: s'_def ops split: if_splits)
    next
      case False
      then show ?thesis using y data by (auto simp: s'_def ops data_la_def)
    qed
  qed (use data user c rs in \<open>simp_all add: s'_def data_la_def w'\<close>)
  moreover have "own_la self A s' = (own_la self A s)\<lparr>
      ow_phase := (\<lambda>p. if p \<in> set ps then Some Flight else ow_phase (own_la self A s) p),
      ow_refs := (\<lambda>q. ow_refs (own_la self A s) q + (if q \<in> set ps then 1 else 0) + (if q = self then int (length ps) else 0)),
      ow_flight := mset ps + ow_flight (own_la self A s)\<rparr>"
    using psA self by (intro own.equality; simp add: own_la_def pl st) (auto simp: s'_def phase rf own_la_sel(4) fun_eq_iff)
  moreover have "\<forall>p\<in>set ps. ow_phase (own_la self A s) p = Some Fresh"
    using free by (fastforce simp: own_la_sel phase_la_def)
  moreover have "distinct ps" using can by (simp add: claimable_la_def)
  ultimately show ?thesis using own_claim_all [of "own_la self A s" self ps A] user psA self by (auto simp: own_la_sel)
qed

subsection \<open>References of the program\<close>

lemma drop_la_refines:
  assumes data: "data_la self A s" and inv: "own_inv self A (own_la self A s)" and p: "p \<in> A" "0 < ls_user s p"
  defines "s' \<equiv> s\<lparr>ls_w := decref_op_la p (ls_w s), ls_user := (ls_user s)(p := ls_user s p - 1)\<rparr>"
  shows "data_la self A s' \<and> (own_step self A)\<^sup>*\<^sup>* (own_la self A s) (own_la self A s')"
proof -
  let ?s = "s\<lparr>ls_w := decref_op_la p (ls_w s)\<rparr>"
  have acc: "counted True (map_option phase_la (la_ops (ls_w s) p)) (refs (ls_w s) p) (ls_user s p)
      (count (mset (places_la s)) p) (count (mset (with_stage (\<lambda>st. st \<noteq> Got) s)) p)"
    using own_invD(3) [OF inv, of p] p(1) by (simp add: own_la_def)
  then obtain x where x: "la_ops (ls_w s) p = Some x" using p(2) by (auto simp: counted_def)
  have "phase_la x \<noteq> Flight" if "refs (ls_w s) p = 1" using acc x p(2) that by (auto simp: counted_def)
  note d = decref_op_la_refines [OF data inv x this]
  have ne: "p \<noteq> self" using data p(1) by (auto simp: data_la_def layout_la_def)
  have s': "s' = ?s\<lparr>ls_user := (ls_user ?s)(p := ls_user ?s p - 1)\<rparr>" by (simp add: s'_def)
  have "own_la self A s' = (own_la self A ?s)\<lparr>ow_user := (ls_user s)(p := ls_user s p - 1)\<rparr>"
    unfolding s' by (intro own.equality; simp only: own_la_def places_la_world) (simp_all cong: if_cong)
  then have "own_la self A s' = (ow_drop p (own_la self A s))\<lparr>ow_user := (ow_user (own_la self A s))(p := ow_user (own_la self A s) p - 1)\<rparr>"
    using d by (simp add: own_la_sel)
  moreover have "data_la self A s'" using d ne unfolding s' by (simp add: data_la_def cong: option.case_cong)
  ultimately show ?thesis using own_step.drop [OF p(1), of "own_la self A s" self] p(2) by (auto simp: own_la_def)
qed

lemma drop_context_la_refines:
  assumes data: "data_la self A s" and inv: "own_inv self A (own_la self A s)" and user: "0 < ls_user s self" "ls_work s = [] \<or> 1 < ls_user s self"
  defines "s' \<equiv> s\<lparr>ls_w := decref_ctx_la self (ls_w s), ls_user := (ls_user s)(self := ls_user s self - 1)\<rparr>"
  shows "data_la self A s' \<and> (own_step self A)\<^sup>*\<^sup>* (own_la self A s) (own_la self A s')"
proof -
  obtain c where c: "la_ctxs (ls_w s) self = Some c" "lc_ctx c \<noteq> 0"
    and rs: "refs (ls_w s) self = int (ls_user s self) + int (length (places_la s))" by (rule la_ctxD [OF data inv user(1)])
  have self: "self \<notin> A" using data by (simp add: data_la_def layout_la_def)
  have st: "places_la s' = places_la s" "with_stage P s' = with_stage P s" for P by (simp_all add: s'_def places_la_def with_stage_def)
  have "own_la self A s' = (own_la self A s)\<lparr>ow_refs := (ow_refs (own_la self A s))(self := ow_refs (own_la self A s) self - 1),
      ow_user := (ow_user (own_la self A s))(self := ow_user (own_la self A s) self - 1)\<rparr>"
    by (intro own.equality; simp add: own_la_def st) (auto simp: s'_def decref_ctx_la_frame fun_eq_iff)
  moreover have "data_la self A s'"
    using data self c rs user by (simp add: data_la_def history_la_def st) (auto simp: s'_def decref_ctx_la_frame)
  ultimately show ?thesis using own_step.drop_self [of "own_la self A s" self A] user(1) by (auto simp: own_la_sel)
qed

lemma share_la_refines:
  assumes data: "data_la self A s" and inv: "own_inv self A (own_la self A s)" and p: "p \<in> insert self A" "0 < ls_user s p"
  defines "s' \<equiv> s\<lparr>ls_w := Py_INCREF p (ls_w s), ls_user := (ls_user s)(p := ls_user s p + 1)\<rparr>"
  shows "data_la self A s' \<and> (own_step self A)\<^sup>*\<^sup>* (own_la self A s) (own_la self A s')"
proof -
  have st: "places_la s' = places_la s" "with_stage P s' = with_stage P s" for P by (simp_all add: s'_def places_la_def with_stage_def)
  have ctx: "p = self \<Longrightarrow> la_ctxs (ls_w s) self \<noteq> None" using la_ctxD [OF data inv] p(2) by (metis option.distinct(1))
  have "own_la self A s' = (own_la self A s)\<lparr>ow_refs := (ow_refs (own_la self A s))(p := ow_refs (own_la self A s) p + 1),
      ow_user := (ow_user (own_la self A s))(p := ow_user (own_la self A s) p + 1)\<rparr>"
    using p(1) by (intro own.equality; simp add: own_la_def st) (auto simp: s'_def rt_simps fun_eq_iff)
  moreover have "data_la self A s'"
    using data ctx by (simp add: data_la_def history_la_def st) (auto simp: s'_def rt_simps split: option.splits)
  ultimately show ?thesis using own_step.share [OF p(1), of "own_la self A s"] p(2) by (auto simp: own_la_sel)
qed

section \<open>Every step\<close>

lemma la_step_refines:
  assumes "la_step self A s s'" and data: "data_la self A s" and inv: "own_inv self A (own_la self A s)"
  shows "data_la self A s' \<and> (own_step self A)\<^sup>*\<^sup>* (own_la self A s) (own_la self A s')"
  using assms(1)
proof cases
  case (new_read p parsed block view r w')
  from new_read_refines [OF data inv new_read(2-5)] show ?thesis unfolding new_read(1) .
next
  case (new_write p parsed as_string r w')
  from new_write_refines [OF data inv new_write(2,3,5)] show ?thesis unfolding new_write(1) .
next
  case (new_sync p code parsed r w')
  from new_sync_refines [OF data inv new_sync(2-5)] show ?thesis unfolding new_sync(1) .
next
  case (set_callback p cb callable r w')
  from set_callback_la_refines [OF data inv set_callback(2) _ set_callback(4)] set_callback(3)
  show ?thesis unfolding set_callback(1) by simp
next
  case (submit env answer errno args r w' ps)
  from submit_la_refines [OF data inv submit(2-6)] show ?thesis unfolding submit(1) .
next
  case (kernel_post bs b cs res d)
  from kernel_post_la_refines [OF data kernel_post(2), where d = d and res = res] show ?thesis unfolding kernel_post(1) by simp
next
  case (collect evs rest)
  from collect_refines [OF data collect(3,2)] show ?thesis unfolding collect(1) by simp
next
  case (cancel bs b cs res)
  from cancel_la_refines [OF data cancel(3,2), where res = res] show ?thesis unfolding cancel(1) by simp
next
  case (store us ev vs)
  from store_refines [OF data inv store(2)] show ?thesis unfolding store(1) .
next
  case (call us ev vs verdict)
  from call_la_refines [OF data call(2)] show ?thesis unfolding call(1) by simp
next
  case (release us ev vs)
  from release_la_refines [OF data inv release(2)] show ?thesis unfolding release(1) .
next
  case (drop p)
  from drop_la_refines [OF data inv drop(2,3)] show ?thesis unfolding drop(1) .
next
  case drop_context
  from drop_context_la_refines [OF data inv drop_context(2,3)] show ?thesis unfolding drop_context(1) .
next
  case (share p)
  from share_la_refines [OF data inv share(2,3)] show ?thesis unfolding share(1) .
next
  case (program w')
  then have "la_ops w' = la_ops (ls_w s)" "la_ctxs w' = la_ctxs (ls_w s)"
    "\<forall>q\<in>insert self A. refs w' q = refs (ls_w s) q \<and> bytes_at w' q = bytes_at (ls_w s) q"
    by (simp_all add: program_step_la_def)
  from quiet_la [OF this] show ?thesis using data program by simp
qed

lemma init_la_ctx:
  assumes "AIOContext_init_la eventfd parsed setup c0 = (Ret (), c)" and "\<And>n r errno ctx. setup n = (r, errno, ctx) \<Longrightarrow> 0 \<le> r \<Longrightarrow> ctx \<noteq> 0"
  shows "lc_ctx c \<noteq> 0"
  using assms(1) by (auto simp: AIOContext_init_la_def Let_def dest: assms(2) split: prod.splits option.splits if_splits)

lemma la_start_inv: "la_start self A s \<Longrightarrow> data_la self A s \<and> own_inv self A (own_la self A s)"
proof (induction rule: la_start.induct)
  case (1 eventfd parsed init c n w)
  have "self \<notin> A" using 1(1) by (simp add: layout_la_def)
  then show ?case
    using 1 init_la_ctx [OF 1(2,3)]
    by (auto simp: data_la_def history_la_def own_inv_def own_la_def counted_def places_la_def with_stage_def)
qed

interpretation laio_sys: backend "la_start self A" "la_step self A" "own_la self A" "data_la self A" self A for self A
  by unfold_locales (simp_all add: la_start_inv la_step_refines)

lemma la_reaches_inv:
  assumes "la_reaches self A s"
  shows "data_la self A s" "own_inv self A (own_la self A s)"
  using assms laio_sys.reachable_owned by (auto simp: la_reaches_def)

end
