(* ===== verification/Laio_Memory.thy ===== *)
theory Laio_Memory
  imports Laio_Steps
begin

text \<open>
  The buffers the kernel reads and writes. A request the kernel has accepted is the control
  block of an operation in flight; a read owns the block it points to, a write holds the bytes
  object whose storage it points to; so the memory is there, and long enough, until the
  operation has completed, whatever the program drops meanwhile.
\<close>

section \<open>What the Operations hold\<close>

lemma holds_la_simps [simp]:
  "holds_la None q = 0" "holds_la (Some x) q = of_bool (q = lo_callback x) + of_bool (q = lo_py_buffer x)"
  by (simp_all add: holds_la_def)

lemma owed_la_upd:
  assumes "finite A" "p \<in> A" "la_ops w' = (la_ops w)(p := v)"
  shows "owed_la A w' q + holds_la (la_ops w p) q = owed_la A w q + holds_la v q"
  using sum_fun_upd [OF assms(1,2), of "\<lambda>x. holds_la x q" "la_ops w" v] assms(3) by (simp add: owed_la_def)

lemma owed_la_pos:
  assumes "finite A" "p \<in> A" "la_ops w p = Some x" "q = lo_callback x \<or> q = lo_py_buffer x"
  shows "0 < owed_la A w q"
  using assms by (auto simp: owed_la_def sum.remove)

lemma owed_la_cong: "(\<And>p. holds_la (la_ops w' p) = holds_la (la_ops w p)) \<Longrightarrow> owed_la A w' = owed_la A w"
  by (simp add: owed_la_def fun_eq_iff)

definition refs_ok_la :: "ptr \<Rightarrow> ptr set \<Rightarrow> la_world \<Rightarrow> bool" where
  "refs_ok_la self A w \<longleftrightarrow> (\<forall>q. q \<noteq> NULL \<longrightarrow> q \<notin> insert self A \<longrightarrow> int (owed_la A w q) \<le> refs w q)"

definition buffer_la :: "la_world \<Rightarrow> AIOOperation_la \<Rightarrow> bool" where
  "buffer_la w x \<longleftrightarrow> (let b = lo_iocb x in
     (aio_lio_opcode b = IOCB_CMD_PREAD \<longrightarrow> aio_buf b = lo_buffer x \<and>
       (if lo_buffer x = NULL then aio_nbytes b = 0
        else \<exists>n < 2 ^ 63. map_option length (mem w (lo_buffer x)) = Some n \<and> unat (aio_nbytes b) \<le> n)) \<and>
     (aio_lio_opcode b = IOCB_CMD_PWRITE \<longrightarrow> aio_buf b = lo_buffer x \<and> lo_py_buffer x \<noteq> NULL \<and> lo_buffer x \<noteq> NULL \<and>
       lo_buffer x = bytes_at w (lo_py_buffer x) \<and> (\<exists>n < 2 ^ 63. storage w (lo_py_buffer x) = Some n \<and> unat (aio_nbytes b) \<le> n)))"

definition world_ok_la :: "ptr \<Rightarrow> ptr set \<Rightarrow> la_world \<Rightarrow> bool" where
  "world_ok_la self A w \<longleftrightarrow> runtime_ok w \<and> apart_la w \<and> refs_ok_la self A w \<and> (\<forall>p x. la_ops w p = Some x \<longrightarrow> buffer_la w x) \<and>
     (\<forall>p q x y. la_ops w p = Some x \<and> la_ops w q = Some y \<and> block_of x \<noteq> NULL \<and> block_of x = block_of y \<longrightarrow> p = q)"

text \<open>
  A request is the control block of its operation; the result in an event is at most what the
  operation asked for.
\<close>

definition entries_la :: "la_sys \<Rightarrow> bool" where
  "entries_la s \<longleftrightarrow> (\<forall>b\<in>set (ls_kernel s). \<exists>x. la_ops (ls_w s) (aio_data b) = Some x \<and> lo_iocb x = b) \<and>
     (\<forall>e. e \<in> set (ls_events s) \<or> (e, Got) \<in> set (ls_work s) \<longrightarrow>
       (\<exists>x. la_ops (ls_w s) (ev_data e) = Some x \<and> (0 \<le> sint (ev_res e) \<longrightarrow> ev_res e \<le> aio_nbytes (lo_iocb x))))"

definition mem_la :: "ptr \<Rightarrow> ptr set \<Rightarrow> la_sys \<Rightarrow> bool" where
  "mem_la self A s \<longleftrightarrow> world_ok_la self A (ls_w s) \<and> entries_la s"

lemma world_ok_laD:
  assumes "world_ok_la self A w"
  shows "runtime_ok w" "apart_la w" "refs_ok_la self A w" "la_ops w p = Some x \<Longrightarrow> buffer_la w x"
    "la_ops w p = Some x \<Longrightarrow> la_ops w q = Some y \<Longrightarrow> block_of x \<noteq> NULL \<Longrightarrow> block_of x = block_of y \<Longrightarrow> p = q"
  using assms unfolding world_ok_la_def by blast+

lemma mem_laD:
  assumes "mem_la self A s"
  shows "runtime_ok (ls_w s)" "apart_la (ls_w s)" "refs_ok_la self A (ls_w s)" "la_ops (ls_w s) p = Some x \<Longrightarrow> buffer_la (ls_w s) x"
    "entries_la s"
  using assms world_ok_laD [of self A "ls_w s"] by (auto simp: mem_la_def)

lemma blocks_laI: "la_ops w p = Some x \<Longrightarrow> block_of x \<noteq> NULL \<Longrightarrow> block_of x \<in> blocks_la w"
  by (auto simp: blocks_la_def)

lemma held_alive_la:
  assumes data: "data_la self A s" and inv: "own_inv self A (own_la self A s)" and refs: "refs_ok_la self A (ls_w s)"
    and x: "la_ops (ls_w s) p = Some x" and q: "q = lo_callback x \<or> q = lo_py_buffer x" "q \<noteq> NULL"
  shows "0 < refs (ls_w s) q"
proof -
  note p = la_opD [OF data inv x]
  have foreign: "q \<notin> insert self A" using p(4) q(1) by (auto simp: op_form_la_def)
  have "0 < owed_la A (ls_w s) q" using owed_la_pos [OF _ p(1) x q(1)] data by (simp add: data_la_def layout_la_def)
  then show "0 < refs (ls_w s) q" using refs q(2) foreign by (fastforce simp: refs_ok_la_def)
qed

section \<open>What a step takes away\<close>

text \<open>
  From \<open>w\<close> to \<open>w'\<close> no object with storage comes to life, those that stay keep their storage, and
  memory that belongs to no object keeps its length, but for the addresses \<open>B\<close>.
\<close>

definition shrinks :: "ptr set \<Rightarrow> la_world \<Rightarrow> la_world \<Rightarrow> bool" where
  "shrinks B w w' \<longleftrightarrow> bytes_at w' = bytes_at w \<and>
     (\<forall>q. 0 < refs w' q \<and> bytes_at w q \<noteq> NULL \<longrightarrow> 0 < refs w q \<and> storage w' q = storage w q) \<and>
     (\<forall>a. a \<notin> B \<and> a \<noteq> NULL \<and> (\<forall>q. 0 < refs w q \<longrightarrow> bytes_at w q \<noteq> a) \<longrightarrow> map_option length (mem w' a) = map_option length (mem w a))"

lemma shrinks_runtime: "runtime_ok w \<Longrightarrow> shrinks B w w' \<Longrightarrow> runtime_ok w'"
  unfolding runtime_ok_def shrinks_def by metis

lemma shrinks_trans:
  assumes "shrinks B w v" "shrinks C v u"
  shows "shrinks (B \<union> C) w u"
  using assms unfolding shrinks_def by (metis UnCI)

text \<open>Steps that change no length of any block.\<close>

lemma shrinks_same:
  assumes "bytes_at w' = bytes_at w" "\<And>q. 0 < refs w' q \<Longrightarrow> 0 < refs w q \<or> bytes_at w q = NULL"
    "\<And>a. map_option length (mem w' a) = map_option length (mem w a)"
  shows "shrinks {} w w'"
  using assms by (auto simp: shrinks_def storage_def)

lemma xdecref_shrinks:
  assumes ok: "runtime_ok w" and p: "p \<noteq> NULL \<Longrightarrow> 0 < refs w p"
  shows "shrinks {} w (Py_XDECREF p w)"
  unfolding shrinks_def
proof (intro conjI allI impI)
  fix q assume q: "0 < refs (Py_XDECREF p w) q \<and> bytes_at w q \<noteq> NULL"
  then show live: "0 < refs w q" by (auto split: if_splits)
  show "storage (Py_XDECREF p w) q = storage w q"
  proof (cases "p \<noteq> NULL \<and> refs w p = 1 \<and> bytes_at w p \<noteq> NULL")
    case True
    have "bytes_at w q \<noteq> bytes_at w p"
    proof
      assume "bytes_at w q = bytes_at w p"
      then have "q = p" using ok live p q True unfolding runtime_ok_def by metis
      then show False using q True by simp
    qed
    then show ?thesis by (simp add: storage_def la_xdecref_mem)
  qed (auto simp: storage_def la_xdecref_mem)
next
  fix a assume "a \<notin> {} \<and> a \<noteq> NULL \<and> (\<forall>q. 0 < refs w q \<longrightarrow> bytes_at w q \<noteq> a)"
  then show "map_option length (mem (Py_XDECREF p w) a) = map_option length (mem w a)"
    using p by (auto simp: la_xdecref_mem)
qed simp

lemma free_shrinks:
  assumes "\<And>q. 0 < refs w q \<Longrightarrow> bytes_at w q \<noteq> NULL \<Longrightarrow> bytes_at w q \<noteq> b"
  shows "shrinks {b} w (PyMem_Free b w)"
  using assms by (auto simp: shrinks_def storage_def)

text \<open>The death of an Operation: its callback, its block and its Python buffer.\<close>

lemma released_shrinks:
  assumes ok: "runtime_ok w" and live: "\<And>q. q \<noteq> NULL \<Longrightarrow> int (holds_la (Some x) q) \<le> refs w q"
    and apart: "\<And>q. 0 < refs w q \<Longrightarrow> bytes_at w q \<noteq> NULL \<Longrightarrow> bytes_at w q \<noteq> block_of x"
  shows "shrinks {block_of x} w (released_la x w)"
proof -
  let ?u = "Py_XDECREF (lo_callback x) w" and ?v = "PyMem_Free (block_of x) (Py_XDECREF (lo_callback x) w)"
  have u: "shrinks {} w ?u" using live [of "lo_callback x"] by (intro xdecref_shrinks [OF ok]) (auto simp: of_bool_def split: if_splits)
  have v: "shrinks {block_of x} ?u ?v"
    using apart u by (intro free_shrinks) (auto simp: shrinks_def split: if_splits)
  have wv: "shrinks {block_of x} w ?v" using shrinks_trans [OF u v] by simp
  have "0 < refs ?v (lo_py_buffer x)" if "lo_py_buffer x \<noteq> NULL"
    using live [OF that] that by (auto simp: of_bool_def split: if_splits)
  then have "shrinks {} ?v (released_la x w)"
    unfolding released_la_def by (intro xdecref_shrinks [OF shrinks_runtime [OF ok wv]])
  from shrinks_trans [OF wv this] show ?thesis by simp
qed

section \<open>Keeping the buffers\<close>

text \<open>The buffer of an operation as it was, with as many bytes or fewer.\<close>

definition kept_la :: "AIOOperation_la \<Rightarrow> AIOOperation_la \<Rightarrow> bool" where
  "kept_la x y \<longleftrightarrow> lo_buffer y = lo_buffer x \<and> lo_py_buffer y = lo_py_buffer x \<and>
     aio_lio_opcode (lo_iocb y) = aio_lio_opcode (lo_iocb x) \<and> aio_buf (lo_iocb y) = aio_buf (lo_iocb x) \<and>
     aio_nbytes (lo_iocb y) \<le> aio_nbytes (lo_iocb x)"

lemma kept_la_refl [simp]: "kept_la x x"
  by (simp add: kept_la_def)

lemma kept_block: "kept_la x y \<Longrightarrow> block_of y = block_of x"
  by (simp add: kept_la_def block_of_def)

lemma buffer_la_kept:
  assumes old: "buffer_la w x" and kept: "kept_la x y"
    and len: "aio_lio_opcode (lo_iocb x) = IOCB_CMD_PREAD \<Longrightarrow> lo_buffer x \<noteq> NULL \<Longrightarrow>
      map_option length (mem w' (lo_buffer x)) = map_option length (mem w (lo_buffer x))"
    and sto: "lo_py_buffer x \<noteq> NULL \<Longrightarrow> bytes_at w (lo_py_buffer x) \<noteq> NULL \<Longrightarrow>
      bytes_at w' (lo_py_buffer x) = bytes_at w (lo_py_buffer x) \<and> storage w' (lo_py_buffer x) = storage w (lo_py_buffer x)"
  shows "buffer_la w' y"
proof -
  have k: "lo_buffer y = lo_buffer x" "lo_py_buffer y = lo_py_buffer x" "aio_lio_opcode (lo_iocb y) = aio_lio_opcode (lo_iocb x)"
    "aio_buf (lo_iocb y) = aio_buf (lo_iocb x)"
    using kept by (simp_all add: kept_la_def)
  have le: "unat (aio_nbytes (lo_iocb y)) \<le> unat (aio_nbytes (lo_iocb x))" using kept by (simp add: kept_la_def word_le_nat_alt)
  show ?thesis
    unfolding buffer_la_def Let_def k
  proof (intro conjI impI)
    assume rd: "aio_lio_opcode (lo_iocb x) = IOCB_CMD_PREAD"
    then have o: "aio_buf (lo_iocb x) = lo_buffer x" "lo_buffer x = NULL \<Longrightarrow> aio_nbytes (lo_iocb x) = 0"
      "lo_buffer x \<noteq> NULL \<Longrightarrow> \<exists>n < 2 ^ 63. map_option length (mem w (lo_buffer x)) = Some n \<and> unat (aio_nbytes (lo_iocb x)) \<le> n"
      using old by (simp_all add: buffer_la_def Let_def)
    show "aio_buf (lo_iocb x) = lo_buffer x" by (rule o(1))
    show "if lo_buffer x = NULL then aio_nbytes (lo_iocb y) = 0
      else \<exists>n < 2 ^ 63. map_option length (mem w' (lo_buffer x)) = Some n \<and> unat (aio_nbytes (lo_iocb y)) \<le> n"
    proof (cases "lo_buffer x = NULL")
      case True
      then show ?thesis using o(2) kept by (simp add: kept_la_def)
    next
      case False
      then obtain n where "n < 2 ^ 63" "map_option length (mem w (lo_buffer x)) = Some n" "unat (aio_nbytes (lo_iocb x)) \<le> n"
        using o(3) by blast
      then show ?thesis using False len [OF rd False] le by (metis order_trans)
    qed
  next
    assume wr: "aio_lio_opcode (lo_iocb x) = IOCB_CMD_PWRITE"
    then obtain n where o: "aio_buf (lo_iocb x) = lo_buffer x" "lo_py_buffer x \<noteq> NULL" "lo_buffer x \<noteq> NULL"
      "lo_buffer x = bytes_at w (lo_py_buffer x)" "n < 2 ^ 63" "storage w (lo_py_buffer x) = Some n" "unat (aio_nbytes (lo_iocb x)) \<le> n"
      using old by (auto simp: buffer_la_def Let_def)
    then have s: "bytes_at w' (lo_py_buffer x) = lo_buffer x" "storage w' (lo_py_buffer x) = Some n" using sto by simp_all
    show "aio_buf (lo_iocb x) = lo_buffer x" "lo_py_buffer x \<noteq> NULL" "lo_buffer x \<noteq> NULL" "lo_buffer x = bytes_at w' (lo_py_buffer x)"
      using o s by simp_all
    show "\<exists>n < 2 ^ 63. storage w' (lo_py_buffer x) = Some n \<and> unat (aio_nbytes (lo_iocb y)) \<le> n"
      using o s le by (intro exI [of _ n]) simp
  qed
qed

definition fresh_buffer :: "la_world \<Rightarrow> la_world \<Rightarrow> AIOOperation_la \<Rightarrow> bool" where
  "fresh_buffer w w' y \<longleftrightarrow> buffer_la w' y \<and>
     (block_of y \<noteq> NULL \<longrightarrow> block_of y \<notin> blocks_la w \<and> (\<forall>q. 0 < refs w q \<longrightarrow> bytes_at w q \<noteq> block_of y))"

lemma world_ok_la_step:
  assumes ok: "world_ok_la self A w" and data: "data_la self A s'" and inv: "own_inv self A (own_la self A s')" and w': "ls_w s' = w'"
    and sh: "shrinks B w w'" and refs: "refs_ok_la self A w'"
    and ops: "\<And>r y. la_ops w' r = Some y \<Longrightarrow>
      (\<exists>x. la_ops w r = Some x \<and> kept_la x y \<and> (block_of y = NULL \<or> block_of y \<notin> B)) \<or> r = p \<and> fresh_buffer w w' y"
  shows "world_ok_la self A w'"
proof -
  note w = world_ok_laD [OF ok]
  have bytes: "bytes_at w' = bytes_at w" using sh by (simp add: shrinks_def)
  have block: "block_of y \<in> blocks_la w \<or> r = p \<and> fresh_buffer w w' y" if "la_ops w' r = Some y" "block_of y \<noteq> NULL" for r y
    using ops [OF that(1)] blocks_laI [of w r] kept_block that(2) by fastforce
  have apart: "bytes_at w' q \<notin> blocks_la w'" if live: "0 < refs w' q" for q
  proof
    assume "bytes_at w' q \<in> blocks_la w'"
    then obtain r y where y: "la_ops w' r = Some y" "block_of y \<noteq> NULL" "bytes_at w q = block_of y" by (auto simp: blocks_la_def bytes)
    then have "0 < refs w q" using sh live unfolding shrinks_def by metis
    then show False using block [OF y(1,2)] y(3) w(2) unfolding apart_la_def fresh_buffer_def using y(2) by metis
  qed
  have buffer: "buffer_la w' y" if y: "la_ops w' r = Some y" for r y
  proof -
    consider x where "la_ops w r = Some x" "kept_la x y" "block_of y = NULL \<or> block_of y \<notin> B" | "fresh_buffer w w' y"
      using ops [OF y] by blast
    then show ?thesis
    proof cases
      case (1 x)
      note x = 1(1) and kept = 1(2) and B = 1(3)
      show ?thesis
      proof (rule buffer_la_kept [OF w(4) [OF x] kept])
        assume rd: "aio_lio_opcode (lo_iocb x) = IOCB_CMD_PREAD" "lo_buffer x \<noteq> NULL"
        then have b: "block_of y = lo_buffer x" "block_of x = lo_buffer x" using kept by (simp_all add: block_of_def kept_la_def)
        then have "lo_buffer x \<in> blocks_la w" using blocks_laI [OF x] rd(2) by metis
        then have "\<forall>q. 0 < refs w q \<longrightarrow> bytes_at w q \<noteq> lo_buffer x" using w(2) unfolding apart_la_def by metis
        then show "map_option length (mem w' (lo_buffer x)) = map_option length (mem w (lo_buffer x))"
          using sh rd(2) B b unfolding shrinks_def by metis
      next
        assume pb: "lo_py_buffer x \<noteq> NULL" "bytes_at w (lo_py_buffer x) \<noteq> NULL"
        have "lo_py_buffer x = lo_py_buffer y" using kept by (simp add: kept_la_def)
        then have "0 < refs w' (lo_py_buffer x)"
          using held_alive_la [OF data inv _ _ _ pb(1), of r y] refs y by (simp add: w')
        then show "bytes_at w' (lo_py_buffer x) = bytes_at w (lo_py_buffer x) \<and> storage w' (lo_py_buffer x) = storage w (lo_py_buffer x)"
          using sh pb(2) unfolding shrinks_def by metis
      qed
    qed (simp add: fresh_buffer_def)
  qed
  have origin: "(\<exists>x. la_ops w r = Some x \<and> block_of x = block_of y) \<or> r = p \<and> fresh_buffer w w' y" if "la_ops w' r = Some y" for r y
    using ops [OF that] kept_block by fastforce
  have "r = t" if x: "la_ops w' r = Some x" "block_of x \<noteq> NULL" and y: "la_ops w' t = Some y" "block_of x = block_of y" for r t x y
  proof -
    have fresh: "block_of z \<noteq> block_of x" if "fresh_buffer w w' z" "block_of z \<noteq> NULL" "la_ops w r' = Some x'" "block_of x' = block_of x" for z r' x'
      using that blocks_laI [of w r' x'] by (auto simp: fresh_buffer_def)
    show ?thesis using origin [OF x(1)] origin [OF y(1)]
    proof (elim disjE exE conjE)
      fix x' y' assume "la_ops w r = Some x'" "block_of x' = block_of x" "la_ops w t = Some y'" "block_of y' = block_of y"
      then show ?thesis using w(5) x(2) y(2) by metis
    qed (use fresh x(2) y(2) in \<open>metis+\<close>)
  qed
  then show ?thesis
    unfolding world_ok_la_def apart_la_def using shrinks_runtime [OF w(1) sh] apart refs buffer by blast
qed

text \<open>Requests and events stay right as long as the control blocks of what is in flight stay.\<close>

lemma entries_keep:
  assumes "entries_la s" and "\<And>p x. p \<in> set (places_la s) \<Longrightarrow> la_ops (ls_w s) p = Some x \<Longrightarrow> \<exists>y. la_ops w' p = Some y \<and> lo_iocb y = lo_iocb x"
  shows "entries_la (s\<lparr>ls_w := w'\<rparr>)"
proof -
  have k: "b \<in> set (ls_kernel s) \<Longrightarrow> aio_data b \<in> set (places_la s)" for b by (simp add: places_la_def)
  have e: "e \<in> set (ls_events s) \<or> (e, Got) \<in> set (ls_work s) \<Longrightarrow> ev_data e \<in> set (places_la s)" for e
    by (force simp: places_la_def with_stage_def)
  show ?thesis
    unfolding entries_la_def
  proof (intro conjI ballI allI impI)
    fix b assume "b \<in> set (ls_kernel (s\<lparr>ls_w := w'\<rparr>))"
    then have b: "b \<in> set (ls_kernel s)" by simp
    then obtain x where x: "la_ops (ls_w s) (aio_data b) = Some x" "lo_iocb x = b" using assms(1) unfolding entries_la_def by blast
    then show "\<exists>x. la_ops (ls_w (s\<lparr>ls_w := w'\<rparr>)) (aio_data b) = Some x \<and> lo_iocb x = b"
      using assms(2) [OF k [OF b] x(1)] by auto
  next
    fix ev assume "ev \<in> set (ls_events (s\<lparr>ls_w := w'\<rparr>)) \<or> (ev, Got) \<in> set (ls_work (s\<lparr>ls_w := w'\<rparr>))"
    then have ev: "ev \<in> set (ls_events s) \<or> (ev, Got) \<in> set (ls_work s)" by simp
    then obtain x where x: "la_ops (ls_w s) (ev_data ev) = Some x" "0 \<le> sint (ev_res ev) \<longrightarrow> ev_res ev \<le> aio_nbytes (lo_iocb x)"
      using assms(1) unfolding entries_la_def by blast
    then show "\<exists>x. la_ops (ls_w (s\<lparr>ls_w := w'\<rparr>)) (ev_data ev) = Some x \<and> (0 \<le> sint (ev_res ev) \<longrightarrow> ev_res ev \<le> aio_nbytes (lo_iocb x))"
      using assms(2) [OF e [OF ev] x(1)] by auto
  qed
qed

lemma entries_la_ghost [simp]:
  "entries_la (s\<lparr>ls_user := u\<rparr>) = entries_la s" "entries_la (s\<lparr>ls_accepted := x\<rparr>) = entries_la s"
  "entries_la (s\<lparr>ls_completed := x\<rparr>) = entries_la s" "entries_la (s\<lparr>ls_called := x\<rparr>) = entries_la s"
  by (simp_all add: entries_la_def)

lemma mem_laI:
  assumes "mem_la self A s" and "data_la self A s'" and "own_inv self A (own_la self A s')"
    and "shrinks B (ls_w s) (ls_w s')" and "refs_ok_la self A (ls_w s')" and "entries_la s'"
    and "\<And>r y. la_ops (ls_w s') r = Some y \<Longrightarrow> (\<exists>x. la_ops (ls_w s) r = Some x \<and> kept_la x y \<and> (block_of y = NULL \<or> block_of y \<notin> B)) \<or>
      r = p \<and> fresh_buffer (ls_w s) (ls_w s') y"
  shows "mem_la self A s'"
  using world_ok_la_step [OF _ assms(2,3) refl assms(4,5), of p] assms(1,6,7) unfolding mem_la_def by blast

text \<open>Steps that leave the Operations, the references and the lengths of all blocks as they are.\<close>

lemma quiet_la_mem:
  assumes mem: "mem_la self A s" and data: "data_la self A s'" and inv: "own_inv self A (own_la self A s')"
    and same: "la_ops (ls_w s') = la_ops (ls_w s)" "refs (ls_w s') = refs (ls_w s)" "bytes_at (ls_w s') = bytes_at (ls_w s)"
      "\<And>a. map_option length (mem (ls_w s') a) = map_option length (mem (ls_w s) a)"
    and entries: "entries_la s'"
  shows "mem_la self A s'"
proof (rule mem_laI [OF mem data inv, where B = "{}" and p = NULL])
  show "shrinks {} (ls_w s) (ls_w s')" using same by (intro shrinks_same) simp_all
  show "refs_ok_la self A (ls_w s')"
    using mem_laD(3) [OF mem] same(1,2) by (simp add: refs_ok_la_def owed_la_def)
qed (use entries same(1) in auto)

section \<open>The kernel and its events\<close>

lemma read_request:
  assumes mem: "mem_la self A s" and b: "b \<in> set (ls_kernel s)" and code: "aio_lio_opcode b \<in> {IOCB_CMD_PREAD, IOCB_CMD_PWRITE}"
  shows "if aio_buf b = NULL then aio_nbytes b = 0 else \<exists>bs. mem (ls_w s) (aio_buf b) = Some bs \<and> unat (aio_nbytes b) \<le> length bs"
proof -
  obtain x where x: "la_ops (ls_w s) (aio_data b) = Some x" "lo_iocb x = b" using mem b by (auto simp: mem_la_def entries_la_def)
  have buf: "buffer_la (ls_w s) x" by (rule mem_laD(4) [OF mem x(1)])
  show ?thesis
  proof (cases "aio_lio_opcode b = IOCB_CMD_PREAD")
    case True
    then show ?thesis using buf x(2) by (auto simp: buffer_la_def Let_def)
  next
    case False
    then show ?thesis using buf x(2) code by (auto simp: buffer_la_def Let_def storage_def)
  qed
qed

lemma kernel_stores_length:
  assumes mem: "mem_la self A s" and b: "b \<in> set (ls_kernel s)"
  shows "map_option length (mem (kernel_stores b d (ls_w s)) a) = map_option length (mem (ls_w s) a)"
proof (cases "aio_lio_opcode b = IOCB_CMD_PREAD")
  case True
  then have "aio_lio_opcode b \<in> {IOCB_CMD_PREAD, IOCB_CMD_PWRITE}" by simp
  from read_request [OF mem b this] show ?thesis using True
    by (cases "aio_buf b = NULL") (auto simp: kernel_stores_def store_bytes_def option.map_comp comp_def)
qed (simp add: kernel_stores_def)

lemma kernel_post_la_mem:
  fixes d :: "u8 list"
  assumes mem: "mem_la self A s" and kernel: "ls_kernel s = bs @ b # cs" and res: "0 \<le> sint res \<Longrightarrow> res \<le> aio_nbytes b"
  defines "s' \<equiv> s\<lparr>ls_w := kernel_stores b d (ls_w s), ls_kernel := bs @ cs, ls_events := ls_events s @ [\<lparr>ev_data = aio_data b, ev_res = res\<rparr>]\<rparr>"
  assumes data: "data_la self A s'" and inv: "own_inv self A (own_la self A s')"
  shows "mem_la self A s'"
proof (rule quiet_la_mem [OF mem data inv])
  have b: "b \<in> set (ls_kernel s)" using kernel by simp
  show "map_option length (mem (ls_w s') a) = map_option length (mem (ls_w s) a)" for a
    using kernel_stores_length [OF mem b] by (simp add: s'_def)
  have "\<exists>x. la_ops (ls_w s) (aio_data b) = Some x \<and> lo_iocb x = b" using mem b by (simp add: mem_la_def entries_la_def)
  then show "entries_la s'" using mem kernel res by (auto simp: mem_la_def entries_la_def s'_def)
qed (simp_all add: s'_def)

lemma collect_la_mem:
  assumes mem: "mem_la self A s" and "ls_events s = evs @ rest"
  shows "mem_la self A (s\<lparr>ls_events := rest, ls_work := map (\<lambda>ev. (ev, Got)) evs @ ls_work s\<rparr>)"
  using assms by (auto simp: mem_la_def entries_la_def)

lemma cancel_la_mem:
  assumes mem: "mem_la self A s" and kernel: "ls_kernel s = bs @ b # cs" and res: "0 \<le> sint res \<Longrightarrow> res \<le> aio_nbytes b"
  shows "mem_la self A (s\<lparr>ls_kernel := bs @ cs, ls_work := (\<lparr>ev_data = aio_data b, ev_res = res\<rparr>, Got) # ls_work s\<rparr>)"
proof -
  have "b \<in> set (ls_kernel s)" using kernel by simp
  then have "\<exists>x. la_ops (ls_w s) (aio_data b) = Some x \<and> lo_iocb x = b" using mem by (simp add: mem_la_def entries_la_def)
  then show ?thesis using mem kernel res by (auto simp: mem_la_def entries_la_def)
qed

end
