(* ===== verification/Laio_Buffers.thy ===== *)
theory Laio_Buffers
  imports Laio_Memory
begin

text \<open>
  The other steps of the kernel AIO system keep the buffers: constructing, submitting,
  completing, setting callbacks, giving up references. At the end, all steps together.
\<close>

lemma mem_la_ghost [simp]:
  "mem_la self A (s\<lparr>ls_user := u\<rparr>) = mem_la self A s" "mem_la self A (s\<lparr>ls_accepted := x\<rparr>) = mem_la self A s"
  "mem_la self A (s\<lparr>ls_completed := x\<rparr>) = mem_la self A s" "mem_la self A (s\<lparr>ls_called := x\<rparr>) = mem_la self A s"
  by (simp_all add: mem_la_def)

section \<open>Constructors\<close>

text \<open>An address that is no Operation is in no place.\<close>

lemma absent_not_in_place:
  assumes data: "data_la self A s" and inv: "own_inv self A (own_la self A s)" and "la_ops (ls_w s) p = None"
  shows "p \<notin> set (places_la s)"
  using la_in_flight [OF data inv] assms(3) by (metis option.distinct(1))

lemma constructed_la_mem:
  assumes data: "data_la self A s" and inv: "own_inv self A (own_la self A s)" and mem: "mem_la self A s"
    and p: "p \<in> A" "la_ops (ls_w s) p = None" and new: "constructed_la p x (ls_w s) w'"
    and data': "data_la self A (s\<lparr>ls_w := w', ls_user := u\<rparr>)" and inv': "own_inv self A (own_la self A (s\<lparr>ls_w := w', ls_user := u\<rparr>))"
    and sh: "shrinks {block_of x} (ls_w s) w'" and fresh: "fresh_buffer (ls_w s) w' x"
    and refs: "\<And>q. q \<noteq> NULL \<Longrightarrow> q \<notin> insert self A \<Longrightarrow> refs (ls_w s) q + of_bool (q = lo_py_buffer x) \<le> refs w' q"
  shows "mem_la self A (s\<lparr>ls_w := w', ls_user := u\<rparr>)"
proof (rule mem_laI [OF mem data' inv', where B = "{block_of x}" and p = p])
  have fin: "finite A" using data by (simp add: data_la_def layout_la_def)
  have w': "la_ops w' = (la_ops (ls_w s))(p \<mapsto> x)" "lo_callback x = NULL"
    using new by (simp_all add: constructed_la_def fresh_la_def)
  show "shrinks {block_of x} (ls_w s) (ls_w (s\<lparr>ls_w := w', ls_user := u\<rparr>))" using sh by simp
  have "int (owed_la A w' q) \<le> refs w' q" if q: "q \<noteq> NULL" "q \<notin> insert self A" for q
  proof -
    have "int (owed_la A w' q) = int (owed_la A (ls_w s) q) + of_bool (q = lo_py_buffer x)"
      using owed_la_upd [OF fin p(1) w'(1), of q] p(2) w'(2) q(1) by simp
    then show ?thesis using refs [OF q] mem_laD(3) [OF mem] q unfolding refs_ok_la_def by fastforce
  qed
  then show "refs_ok_la self A (ls_w (s\<lparr>ls_w := w', ls_user := u\<rparr>))" by (simp add: refs_ok_la_def)
  have "entries_la (s\<lparr>ls_w := w'\<rparr>)"
    using absent_not_in_place [OF data inv p(2)] by (intro entries_keep [OF mem_laD(5) [OF mem]]) (auto simp: w')
  then show "entries_la (s\<lparr>ls_w := w', ls_user := u\<rparr>)" by simp
  show "(\<exists>z. la_ops (ls_w s) r = Some z \<and> kept_la z y \<and> (block_of y = NULL \<or> block_of y \<notin> {block_of x})) \<or>
      r = p \<and> fresh_buffer (ls_w s) (ls_w (s\<lparr>ls_w := w', ls_user := u\<rparr>)) y"
    if "la_ops (ls_w (s\<lparr>ls_w := w', ls_user := u\<rparr>)) r = Some y" for r y
  proof (cases "r = p")
    case True
    then show ?thesis using that fresh by (simp add: w')
  next
    case False
    then have y: "la_ops (ls_w s) r = Some y" using that by (simp add: w')
    have "block_of y = NULL \<or> block_of y \<noteq> block_of x"
      using fresh blocks_laI [OF y] by (auto simp: fresh_buffer_def)
    then show ?thesis using y by auto
  qed
qed

lemma discarded_la_mem:
  assumes inv: "own_inv self A (own_la self A s)" and mem: "mem_la self A s"
    and p: "p \<in> A" "la_ops (ls_w s) p = None" and gone: "discarded_la p (ls_w s) w'"
    and data': "data_la self A (s\<lparr>ls_w := w', ls_user := u\<rparr>)" and inv': "own_inv self A (own_la self A (s\<lparr>ls_w := w', ls_user := u\<rparr>))"
  shows "mem_la self A (s\<lparr>ls_w := w', ls_user := u\<rparr>)"
proof -
  have "(la_ops (ls_w s))(p := None) = la_ops (ls_w s)" using p(2) by (simp add: fun_upd_idem)
  moreover have "(refs (ls_w s))(p := 0) = refs (ls_w s)" using la_absent [OF inv p] by (simp add: fun_upd_idem)
  ultimately have w': "la_ops w' = la_ops (ls_w s)" "refs w' = refs (ls_w s)" "bytes_at w' = bytes_at (ls_w s)" "mem w' = mem (ls_w s)"
    using gone by (simp_all add: discarded_la_def)
  have "entries_la (s\<lparr>ls_w := w'\<rparr>)" by (intro entries_keep [OF mem_laD(5) [OF mem]]) (auto simp: w')
  then show ?thesis by (intro quiet_la_mem [OF mem data' inv']) (simp_all add: w')
qed

lemma new_read_mem:
  assumes data: "data_la self A s" and inv: "own_inv self A (own_la self A s)" and mem: "mem_la self A s"
    and p: "p \<in> A" "la_ops (ls_w s) p = None"
    and new: "\<And>n fd off pri. parsed = Some (n, fd, off, pri) \<Longrightarrow> new_block self A (ls_w s) (unat n) block view"
    and run: "AIOOperation_read_la p parsed block view (ls_w s) = (r, w')"
    and data': "data_la self A (s\<lparr>ls_w := w', ls_user := u\<rparr>)" and inv': "own_inv self A (own_la self A (s\<lparr>ls_w := w', ls_user := u\<rparr>))"
  shows "mem_la self A (s\<lparr>ls_w := w', ls_user := u\<rparr>)"
proof -
  note a = addresses_la [OF data p(1)]
  have "\<exists>n. new_block self A (ls_w s) n block view" if "parsed \<noteq> None" using new that by auto
  then have b: "parsed \<noteq> None \<longrightarrow> block \<noteq> NULL \<longrightarrow> mem (ls_w s) block = None" and v: "parsed \<noteq> None \<longrightarrow> view \<noteq> p"
    using a(1) p(1) by (auto simp: new_block_def)
  from read_effect_la [OF run a(1) b v] show ?thesis
  proof (elim disjE conjE exE)
    fix x n fd off pri
    assume view: "view \<noteq> NULL" and some: "parsed = Some (n, fd, off, pri)" and c: "constructed_la p x (ls_w s) w'"
      and x: "aio_lio_opcode (lo_iocb x) = IOCB_CMD_PREAD" "lo_py_buffer x = view" "lo_buffer x = block" "aio_buf (lo_iocb x) = block"
        "aio_nbytes (lo_iocb x) = n" "block = NULL \<longrightarrow> n = 0"
      and w': "refs w' = (refs (ls_w s))(p := 1, view := 1)" "bytes_at w' = bytes_at (ls_w s)"
        "mem w' = (if block = NULL then mem (ls_w s) else (mem (ls_w s))(block \<mapsto> replicate (unat n) 0))"
    have nv: "view \<notin> insert self A" "refs (ls_w s) view = 0" "bytes_at (ls_w s) view = NULL"
      and nb: "block \<noteq> NULL \<Longrightarrow> block \<notin> blocks_la (ls_w s) \<and> unat n < 2 ^ 63 \<and> (\<forall>q. 0 < refs (ls_w s) q \<longrightarrow> bytes_at (ls_w s) q \<noteq> block)"
      using new [OF some] view by (simp_all add: new_block_def)
    have bl: "block_of x = block" using x by (simp add: block_of_def)
    have live: "0 < refs (ls_w s) q" if "0 < refs w' q" "bytes_at (ls_w s) q \<noteq> NULL" for q
      using that nv(3) a(2) by (auto simp: w' split: if_splits)
    have sh: "shrinks {block_of x} (ls_w s) w'"
      using live nb by (auto simp: shrinks_def w'(2,3) bl storage_def)
    have "buffer_la w' x" using x nb by (auto simp: buffer_la_def Let_def w'(3))
    then have fresh: "fresh_buffer (ls_w s) w' x" using nb by (auto simp: fresh_buffer_def bl)
    show ?thesis
      by (rule constructed_la_mem [OF data inv mem p c data' inv' sh fresh]) (use p(1) nv(2) in \<open>auto simp: w'(1) x(2)\<close>)
  qed (rule discarded_la_mem [OF inv mem p _ data' inv'])
qed

lemma new_write_mem:
  assumes data: "data_la self A s" and inv: "own_inv self A (own_la self A s)" and mem: "mem_la self A s"
    and p: "p \<in> A" "la_ops (ls_w s) p = None"
    and live: "\<And>obj fd off pri. parsed = Some (obj, fd, off, pri) \<Longrightarrow> obj \<noteq> NULL \<and> 0 < refs (ls_w s) obj"
    and run: "AIOOperation_write_la p parsed as_string (ls_w s) = (r, w')"
    and data': "data_la self A (s\<lparr>ls_w := w', ls_user := u\<rparr>)" and inv': "own_inv self A (own_la self A (s\<lparr>ls_w := w', ls_user := u\<rparr>))"
  shows "mem_la self A (s\<lparr>ls_w := w', ls_user := u\<rparr>)"
proof -
  note a = addresses_la [OF data p(1)]
  from write_effect_la [OF run a(1,2)] show ?thesis
  proof (elim disjE conjE exE)
    fix x pb fd off pri
    assume some: "parsed = Some (pb, fd, off, pri)" and c: "constructed_la p x (ls_w s) w'" and st: "bytes_at (ls_w s) pb \<noteq> NULL"
      and x: "aio_lio_opcode (lo_iocb x) = IOCB_CMD_PWRITE" "lo_py_buffer x = pb" "lo_buffer x = bytes_at (ls_w s) pb"
        "aio_buf (lo_iocb x) = bytes_at (ls_w s) pb" "aio_nbytes (lo_iocb x) = of_nat (length (the (mem (ls_w s) (bytes_at (ls_w s) pb))))"
      and w': "refs w' = (refs (ls_w s))(p := 1, pb := refs (ls_w s) pb + 1)" "bytes_at w' = bytes_at (ls_w s)" "mem w' = mem (ls_w s)"
    note pb = live [OF some]
    have bl: "block_of x = NULL" using x by (simp add: block_of_def)
    obtain n where n: "n < 2 ^ 63" "storage (ls_w s) pb = Some n"
      using mem_laD(1) [OF mem] pb st unfolding runtime_ok_def by blast
    then have "aio_nbytes (lo_iocb x) = of_nat n" using x(5) by (auto simp: storage_def)
    then have size: "unat (aio_nbytes (lo_iocb x)) = n" using n(1) by (simp add: unsigned_of_nat take_bit_nat_eq_self)
    have sh: "shrinks {block_of x} (ls_w s) w'"
      using pb a(2) by (auto simp: shrinks_def w' storage_def split: if_splits)
    have "buffer_la w' x" using x pb st n size by (auto simp: buffer_la_def Let_def w' storage_def)
    then have fresh: "fresh_buffer (ls_w s) w' x" by (simp add: fresh_buffer_def bl)
    show ?thesis
      by (rule constructed_la_mem [OF data inv mem p c data' inv' sh fresh]) (use p(1) in \<open>auto simp: w'(1) x(2)\<close>)
  qed (rule discarded_la_mem [OF inv mem p _ data' inv'])
qed

lemma new_sync_mem:
  assumes data: "data_la self A s" and inv: "own_inv self A (own_la self A s)" and mem: "mem_la self A s"
    and p: "p \<in> A" "la_ops (ls_w s) p = None" and code: "code \<in> {IOCB_CMD_FSYNC, IOCB_CMD_FDSYNC}"
    and run: "AIOOperation_sync_la code p parsed (ls_w s) = (r, w')"
    and data': "data_la self A (s\<lparr>ls_w := w', ls_user := u\<rparr>)" and inv': "own_inv self A (own_la self A (s\<lparr>ls_w := w', ls_user := u\<rparr>))"
  shows "mem_la self A (s\<lparr>ls_w := w', ls_user := u\<rparr>)"
proof -
  note a = addresses_la [OF data p(1)]
  from sync_effect_la [OF run a(1) code] show ?thesis
  proof (elim disjE conjE exE)
    fix x
    assume c: "constructed_la p x (ls_w s) w'" and x: "aio_lio_opcode (lo_iocb x) = code" "lo_py_buffer x = NULL" "lo_buffer x = NULL"
      and w': "refs w' = (refs (ls_w s))(p := 1)" "bytes_at w' = bytes_at (ls_w s)" "mem w' = mem (ls_w s)"
    have sh: "shrinks {block_of x} (ls_w s) w'" using a(2) by (auto simp: shrinks_def w' storage_def split: if_splits)
    have "fresh_buffer (ls_w s) w' x" using x code by (auto simp: fresh_buffer_def buffer_la_def block_of_def Let_def)
    then show ?thesis
      by (rule constructed_la_mem [OF data inv mem p c data' inv' sh]) (use p(1) in \<open>auto simp: w'(1) x(2)\<close>)
  qed (rule discarded_la_mem [OF inv mem p _ data' inv'])
qed

section \<open>Submitting and completing\<close>

text \<open>
  Steps that leave what Operations hold as it is, and the references on foreign objects and
  the bytes objects.
\<close>

lemma update_la_mem:
  assumes mem: "mem_la self A s" and data: "data_la self A s'" and inv: "own_inv self A (own_la self A s')"
    and bytes: "bytes_at (ls_w s') = bytes_at (ls_w s)" and memory: "mem (ls_w s') = mem (ls_w s)"
    and live: "\<And>q. 0 < refs (ls_w s') q \<Longrightarrow> 0 < refs (ls_w s) q \<or> bytes_at (ls_w s) q = NULL"
    and refs: "\<And>q. q \<noteq> NULL \<Longrightarrow> q \<notin> insert self A \<Longrightarrow> refs (ls_w s) q \<le> refs (ls_w s') q"
    and holds: "\<And>r. holds_la (la_ops (ls_w s') r) = holds_la (la_ops (ls_w s) r)"
    and kept: "\<And>r y. la_ops (ls_w s') r = Some y \<Longrightarrow> \<exists>x. la_ops (ls_w s) r = Some x \<and> kept_la x y"
    and entries: "entries_la s'"
  shows "mem_la self A s'"
proof (rule mem_laI [OF mem data inv, where B = "{}" and p = NULL])
  show "shrinks {} (ls_w s) (ls_w s')" using bytes live by (intro shrinks_same) (simp_all add: memory)
  have "owed_la A (ls_w s') = owed_la A (ls_w s)" using holds by (rule owed_la_cong)
  then show "refs_ok_la self A (ls_w s')"
    using mem_laD(3) [OF mem] refs unfolding refs_ok_la_def by (metis order_trans)
qed (use entries kept in auto)

lemma kept_submitted [simp]: "kept_la x (held_la self fd x)" "kept_la x (flagged_la fd x)"
  "kept_la x (x\<lparr>lo_callback := cb\<rparr>)"
  by (simp_all add: kept_la_def flagged_la_def)

lemma holds_submitted [simp]: "holds_la (map_option (held_la self fd) v) = holds_la v" "holds_la (map_option (flagged_la fd) v) = holds_la v"
  by (cases v; simp add: fun_eq_iff)+

lemma submit_la_mem:
  assumes data: "data_la self A s" and inv: "own_inv self A (own_la self A s)" and mem: "mem_la self A s" and user: "0 < ls_user s self"
    and env: "le_submit env = (\<lambda>ctx ps w. (answer ps, errno ps, w))" "\<And>ps. answer ps \<le> int (length ps)"
    and run: "AIOContext_submit_la env self args (ls_w s) = (r, w')" and ps: "ps = taken_la self args (ls_w s) r"
  defines "s' \<equiv> s\<lparr>ls_w := w', ls_kernel := ls_kernel s @ map (\<lambda>p. lo_iocb (op_la w' p)) ps, ls_accepted := ls_accepted s @ ps\<rparr>"
  assumes data': "data_la self A s'" and inv': "own_inv self A (own_la self A s')"
  shows "mem_la self A s'"
proof -
  obtain rej where can: "claimable_la self (ps @ rej) (ls_w s)" and w': "w' = submitted_la self ps rej (ls_w s)"
    by (rule submit_effect [OF data inv user env run]) (simp add: ps)
  have bytes: "\<forall>q\<in>insert self A. bytes_at (ls_w s) q = NULL" using data by (simp add: data_la_def)
  have free: "\<exists>x. la_ops (ls_w s) p = Some x \<and> lo_in_progress x = 0" if "p \<in> set ps \<union> set rej" for p
  proof -
    have "free_la (ls_w s) p" using can that by (auto simp: claimable_la_def)
    then show ?thesis by (auto simp: free_la_def split: option.splits)
  qed
  then have psA: "set ps \<subseteq> A" using la_opD(1) [OF data inv] by blast
  have ops: "la_ops w' q = (if q \<in> set ps then map_option (held_la self (lc_fileno (ctx_la (ls_w s) self))) (la_ops (ls_w s) q)
      else if q \<in> set rej then map_option (flagged_la (lc_fileno (ctx_la (ls_w s) self))) (la_ops (ls_w s) q) else la_ops (ls_w s) q)" for q
    by (simp add: w')
  have "entries_la (s\<lparr>ls_w := w'\<rparr>)"
  proof (rule entries_keep [OF mem_laD(5) [OF mem]])
    fix p x assume p: "p \<in> set (places_la s)" and x: "la_ops (ls_w s) p = Some x"
    have "p \<notin> set ps \<union> set rej" using free [of p] la_in_flight [OF data inv p] by (metis option.inject zero_neq_one)
    then show "\<exists>y. la_ops w' p = Some y \<and> lo_iocb y = lo_iocb x" using x by (simp add: ops)
  qed
  moreover have "\<exists>y. la_ops w' (aio_data b) = Some y \<and> lo_iocb y = b" if b: "b \<in> set (map (\<lambda>p. lo_iocb (op_la w' p)) ps)" for b
  proof -
    obtain p where p: "p \<in> set ps" "b = lo_iocb (op_la w' p)" using b by auto
    then obtain y where y: "la_ops w' p = Some y" using free [of p] by (auto simp: ops)
    then have "la_ops (ls_w s') p = Some y" by (simp add: s'_def)
    then have "aio_data (lo_iocb y) = p" using la_opD(4) [OF data' inv'] by (simp add: op_form_la_def)
    then show ?thesis using y p by (simp add: op_la_def)
  qed
  ultimately have entries: "entries_la s'" by (auto simp: entries_la_def s'_def)
  show ?thesis
  proof (rule update_la_mem [OF mem data' inv'])
    show "0 < refs (ls_w s) q \<or> bytes_at (ls_w s) q = NULL" if "0 < refs (ls_w s') q" for q
      using that bytes psA by (auto simp: s'_def w' split: if_splits)
    show "refs (ls_w s) q \<le> refs (ls_w s') q" for q by (simp add: s'_def w')
    show "holds_la (la_ops (ls_w s') r) = holds_la (la_ops (ls_w s) r)" for r by (simp add: s'_def ops)
    show "\<exists>x. la_ops (ls_w s) r = Some x \<and> kept_la x y" if "la_ops (ls_w s') r = Some y" for r y
      using that by (auto simp: s'_def ops split: if_splits)
  qed (use entries in \<open>simp_all add: s'_def w'\<close>)
qed

lemma store_la_mem:
  assumes data: "data_la self A s" and inv: "own_inv self A (own_la self A s)" and mem: "mem_la self A s"
    and work: "ls_work s = us @ (ev, Got) # vs"
  defines "s' \<equiv> s\<lparr>ls_w := complete_event (ev_data ev) (ev_res ev) (ls_w s), ls_work := us @ (ev, Stored) # vs,
      ls_completed := ls_completed s @ [ev_data ev]\<rparr>"
  assumes data': "data_la self A s'" and inv': "own_inv self A (own_la self A s')"
  shows "mem_la self A s'"
proof -
  let ?p = "ev_data ev"
  obtain x where x: "la_ops (ls_w s) ?p = Some x"
    and w: "complete_event ?p (ev_res ev) (ls_w s) = (ls_w s)\<lparr>refs := (refs (ls_w s))(self := refs (ls_w s) self - 1),
       la_ops := (la_ops (ls_w s))(?p \<mapsto> completed_op_la (ev_res ev) x)\<rparr>"
    by (rule stored_closed [OF data inv work])
  have "0 \<le> sint (ev_res ev) \<longrightarrow> ev_res ev \<le> aio_nbytes (lo_iocb x)"
    using mem_laD(5) [OF mem] work x by (auto simp: entries_la_def)
  then have kept: "kept_la x (completed_op_la (ev_res ev) x)" by (simp add: kept_la_def completed_op_la_def)
  text \<open>No other place of the operation is left.\<close>
  have "count (mset (places_la s)) ?p \<le> 1"
    using own_invD(3) [OF inv, of ?p] by (auto simp: own_la_sel counted_def)
  moreover have "mset (places_la s) = add_mset ?p (mset (places_la s'))"
    using with_stage_at [OF work, of "\<lambda>st. st = Got"] with_stage_at [of s' us ev Stored vs "\<lambda>st. st = Got"]
    by (simp add: places_la_def s'_def)
  ultimately have gone: "?p \<notin> set (places_la s')" by (simp add: count_eq_zero_iff [symmetric])
  have sub: "ls_kernel s' = ls_kernel s" "ls_events s' = ls_events s" "(e, Got) \<in> set (ls_work s') \<Longrightarrow> (e, Got) \<in> set (ls_work s)" for e
    using work by (auto simp: s'_def)
  have other: "la_ops (ls_w s') q = la_ops (ls_w s) q" if "q \<in> set (places_la s')" for q
    using that gone by (auto simp: s'_def w)
  have "entries_la s'"
    unfolding entries_la_def
  proof (intro conjI ballI allI impI)
    fix b assume b: "b \<in> set (ls_kernel s')"
    then have "aio_data b \<in> set (places_la s')" by (simp add: places_la_def)
    then show "\<exists>x. la_ops (ls_w s') (aio_data b) = Some x \<and> lo_iocb x = b"
      using mem_laD(5) [OF mem] b sub(1) other by (auto simp: entries_la_def)
  next
    fix e assume e: "e \<in> set (ls_events s') \<or> (e, Got) \<in> set (ls_work s')"
    then have "ev_data e \<in> set (places_la s')" by (force simp: places_la_def with_stage_def)
    then show "\<exists>x. la_ops (ls_w s') (ev_data e) = Some x \<and> (0 \<le> sint (ev_res e) \<longrightarrow> ev_res e \<le> aio_nbytes (lo_iocb x))"
      using mem_laD(5) [OF mem] e sub(2,3) other by (auto simp: entries_la_def)
  qed
  then show ?thesis
    using x kept by (intro update_la_mem [OF mem data' inv']) (auto simp: s'_def w fun_eq_iff split: if_splits)
qed

section \<open>Callbacks and references\<close>

lemma call_la_mem:
  fixes verdict :: "ptr \<Rightarrow> pyval \<Rightarrow> bool" and v :: pyval
  assumes data: "data_la self A s" and inv: "own_inv self A (own_la self A s)" and mem: "mem_la self A s"
    and work: "ls_work s = us @ (ev, Stored) # vs"
  defines "s' \<equiv> s\<lparr>ls_w := run_callback (\<lambda>cb v w. (verdict cb v, w)) (lo_callback (op_la (ls_w s) (ev_data ev))) v (ls_w s),
      ls_work := us @ (ev, Called) # vs, ls_called := ls_called s @ [ev_data ev]\<rparr>"
  assumes data': "data_la self A s'" and inv': "own_inv self A (own_la self A s')"
  shows "mem_la self A s'"
proof -
  let ?cb = "lo_callback (op_la (ls_w s) (ev_data ev))"
  have "ev_data ev \<in># ow_batch (own_la self A s)" using with_stage_at [OF work, of "\<lambda>st. st \<noteq> Got"] by (simp add: own_la_sel)
  from in_batch_alive(1) [OF inv this] obtain x where x: "la_ops (ls_w s) (ev_data ev) = Some x" by (auto simp: own_la_sel)
  have "?cb \<noteq> NULL \<Longrightarrow> 0 < refs (ls_w s) ?cb" using held_alive_la [OF data inv mem_laD(3) [OF mem] x] x by (simp add: op_la_def)
  from run_callback_closed [OF this] have w': "run_callback (\<lambda>cb v w. (verdict cb v, w)) ?cb v (ls_w s) = (ls_w s)\<lparr>trace := trace (ls_w s) @
      callback_events verdict ?cb v\<rparr>" by blast
  have "entries_la s'" using mem_laD(5) [OF mem] work by (auto simp: entries_la_def s'_def w')
  then show ?thesis by (intro quiet_la_mem [OF mem data' inv']) (simp_all add: s'_def w')
qed

lemma set_callback_la_mem:
  assumes data: "data_la self A s" and inv: "own_inv self A (own_la self A s)" and mem: "mem_la self A s"
    and x: "la_ops (ls_w s) p \<noteq> None" and cb: "\<And>c. parsed = Some c \<Longrightarrow> callable \<Longrightarrow> c \<notin> insert self A \<and> 0 < refs (ls_w s) c"
    and run: "AIOOperation_set_callback_la p parsed callable (ls_w s) = (r, w')"
    and data': "data_la self A (s\<lparr>ls_w := w'\<rparr>)" and inv': "own_inv self A (own_la self A (s\<lparr>ls_w := w'\<rparr>))"
  shows "mem_la self A (s\<lparr>ls_w := w'\<rparr>)"
proof (cases "\<exists>c. parsed = Some c \<and> callable")
  case False
  then have "w' = ls_w s" using run by (auto simp: AIOOperation_set_callback_la_def split: option.splits)
  then show ?thesis using mem by simp
next
  case True
  then obtain c where c: "parsed = Some c" "callable" by blast
  from x obtain x where x: "la_ops (ls_w s) p = Some x" by auto
  note p = la_opD [OF data inv x]
  have fin: "finite A" using data by (simp add: data_la_def layout_la_def)
  let ?x = "x\<lparr>lo_callback := c\<rparr>"
  define v where "v = upd_op_la p (\<lambda>x. x\<lparr>lo_callback := c\<rparr>) (Py_INCREF c (ls_w s))"
  have v: "la_ops v = (la_ops (ls_w s))(p \<mapsto> ?x)" "refs v = (refs (ls_w s))(c := refs (ls_w s) c + 1)"
    "bytes_at v = bytes_at (ls_w s)" "mem v = mem (ls_w s)"
    using x by (simp_all add: v_def rt_simps)
  have w': "w' = Py_XDECREF (lo_callback x) v"
    using run c x by (simp add: AIOOperation_set_callback_la_def v_def op_la_def)
  have one: "shrinks {} (ls_w s) v" using cb [OF c] by (intro shrinks_same) (auto simp: v split: if_splits)
  have "lo_callback x \<noteq> NULL \<Longrightarrow> 0 < refs v (lo_callback x)"
    using held_alive_la [OF data inv mem_laD(3) [OF mem] x] cb [OF c] by (auto simp: v)
  then have "shrinks {} v w'" unfolding w' by (intro xdecref_shrinks [OF shrinks_runtime [OF mem_laD(1) [OF mem] one]])
  from shrinks_trans [OF one this] have sh: "shrinks {} (ls_w s) w'" by simp
  have rw: "refs w' q = refs (ls_w s) q + of_bool (q = c) - of_bool (q = lo_callback x \<and> q \<noteq> NULL)" for q
    by (simp add: w' v)
  have refs: "refs_ok_la self A w'"
    unfolding refs_ok_la_def
  proof (intro allI impI)
    fix q assume q: "q \<noteq> NULL" "q \<notin> insert self A"
    have "owed_la A w' q + of_bool (q = lo_callback x) = owed_la A (ls_w s) q + of_bool (q = c)"
      using owed_la_upd [OF fin p(1), of w' "ls_w s" "Some ?x" q] x by (simp add: w' v)
    then have "int (owed_la A w' q) = int (owed_la A (ls_w s) q) + of_bool (q = c) - of_bool (q = lo_callback x)"
      by (cases "q = c"; cases "q = lo_callback x") simp_all
    then show "int (owed_la A w' q) \<le> refs w' q"
      using mem_laD(3) [OF mem] q unfolding refs_ok_la_def rw by fastforce
  qed
  have "entries_la (s\<lparr>ls_w := w'\<rparr>)" using x by (intro entries_keep [OF mem_laD(5) [OF mem]]) (auto simp: w' v)
  then show ?thesis
    using sh refs x by (intro mem_laI [OF mem data' inv', where B = "{}" and p = NULL]) (auto simp: w' v split: if_splits)
qed

text \<open>The death of an Operation gives up its callback, its block and its Python buffer, nothing else.\<close>

lemma decref_op_la_mem:
  assumes data: "data_la self A s" and inv: "own_inv self A (own_la self A s)" and mem: "mem_la self A s"
    and x: "la_ops (ls_w s) p = Some x" and idle: "refs (ls_w s) p = 1 \<Longrightarrow> phase_la x \<noteq> Flight"
    and data': "data_la self A s'" and inv': "own_inv self A (own_la self A s')" and s': "ls_w s' = decref_op_la p (ls_w s)"
    and rest: "ls_kernel s' = ls_kernel s" "ls_events s' = ls_events s" "\<And>e. (e, Got) \<in> set (ls_work s') \<Longrightarrow> (e, Got) \<in> set (ls_work s)"
  shows "mem_la self A s'"
proof -
  let ?w' = "decref_op_la p (ls_w s)"
  note p = la_opD [OF data inv x]
  have transfer: "entries_la s'" if "entries_la (s\<lparr>ls_w := ?w'\<rparr>)"
    using that rest by (auto simp: entries_la_def s')
  show ?thesis
  proof (cases "refs (ls_w s) p = 1")
    case False
    have eq: "?w' = (ls_w s)\<lparr>refs := (refs (ls_w s))(p := refs (ls_w s) p - 1)\<rparr>" by (rule decref_op_la_alive [OF False])
    have "entries_la (s\<lparr>ls_w := ?w'\<rparr>)" by (intro entries_keep [OF mem_laD(5) [OF mem]]) (simp add: eq)
    from transfer [OF this] show ?thesis
      using p(1,5) by (intro update_la_mem [OF mem data' inv']) (auto simp: s' eq split: if_splits)
  next
    case True
    have fin: "finite A" using data by (simp add: data_la_def layout_la_def)
    have form: "lo_context x = NULL" "lo_callback x \<notin> insert self A" "lo_py_buffer x \<notin> insert self A" "phase_la x \<noteq> Flight"
      using p(4) idle [OF True] by (auto simp: op_form_la_def phase_la_def)
    let ?v = "(ls_w s)\<lparr>refs := (refs (ls_w s))(p := 0)\<rparr>"
    have w': "?w' = AIOOperation_dealloc_la p ?v" using True by (simp add: decref_op_la_def decref_last)
    have "la_ops ?v p = Some x" using x by simp
    note d = dealloc_op_la_frame [OF this form(1), folded w']
    have ops: "la_ops ?w' = (la_ops (ls_w s))(p := None)" using d(1) by simp
    have owed: "owed_la A ?w' q + holds_la (Some x) q = owed_la A (ls_w s) q" for q
      using owed_la_upd [OF fin p(1) ops, of q] x by simp
    have foreign: "holds_la (Some x) q = 0" if "q \<in> insert self A" for q using form that by auto
    have live: "int (holds_la (Some x) q) \<le> refs (ls_w s) q" if "q \<noteq> NULL" "q \<notin> insert self A" for q
    proof -
      have "int (owed_la A (ls_w s) q) \<le> refs (ls_w s) q" using mem_laD(3) [OF mem] that unfolding refs_ok_la_def by blast
      then show ?thesis using owed [of q] by linarith
    qed
    have nonneg: "0 \<le> refs (ls_w s) q" if "q \<in> insert self A" for q
      using that own_invD(3) [OF inv, of q] own_invD(2) [OF inv] by (cases "q = self") (auto simp: own_la_def counted_def)
    have live': "int (holds_la (Some x) q) \<le> refs ?v q" if "q \<noteq> NULL" for q
      using live [OF that] foreign [of q] nonneg [of q] p(1) by (cases "q \<in> insert self A") auto
    have one: "shrinks {} (ls_w s) ?v" using p(7) by (intro shrinks_same) (auto split: if_splits)
    have apart: "bytes_at ?v q \<noteq> block_of x" if "0 < refs ?v q" "bytes_at ?v q \<noteq> NULL" for q
    proof (cases "block_of x = NULL")
      case False
      then show ?thesis
        using mem_laD(2) [OF mem] blocks_laI [OF x False] that unfolding apart_la_def by (auto split: if_splits)
    qed (use that in simp)
    have "shrinks {block_of x} ?v (released_la x ?v)"
      by (rule released_shrinks [OF shrinks_runtime [OF mem_laD(1) [OF mem] one] live' apart])
    from shrinks_trans [OF one this] have "shrinks {block_of x} (ls_w s) (released_la x ?v)" by simp
    moreover have eqs: "refs ?w' = refs (released_la x ?v)" "bytes_at ?w' = bytes_at (released_la x ?v)" "mem ?w' = mem (released_la x ?v)"
      using d by simp_all
    ultimately have sh: "shrinks {block_of x} (ls_w s) ?w'" unfolding shrinks_def storage_def eqs by (elim conjE) (intro conjI)
    have refs: "refs_ok_la self A ?w'"
      unfolding refs_ok_la_def
    proof (intro allI impI)
      fix q assume q: "q \<noteq> NULL" "q \<notin> insert self A"
      then have "refs ?w' q = refs (ls_w s) q - int (holds_la (Some x) q)" using p(1) by (auto simp: eqs(1))
      moreover have "int (owed_la A (ls_w s) q) \<le> refs (ls_w s) q" using mem_laD(3) [OF mem] q unfolding refs_ok_la_def by blast
      ultimately show "int (owed_la A ?w' q) \<le> refs ?w' q" using owed [of q] by linarith
    qed
    have gone: "p \<notin> set (places_la s)" using p(6) form(4) by simp
    have entries: "entries_la s'"
      using gone by (intro transfer entries_keep [OF mem_laD(5) [OF mem]]) (auto simp: ops)
    show ?thesis
    proof (rule mem_laI [OF mem data' inv', where B = "{block_of x}" and p = NULL], unfold s')
      fix r y assume "la_ops ?w' r = Some y"
      then have y: "la_ops (ls_w s) r = Some y" "r \<noteq> p" by (auto simp: ops split: if_splits)
      have "block_of y = NULL \<or> block_of y \<noteq> block_of x"
        using world_ok_laD(5) [OF _ y(1) x] mem y(2) unfolding mem_la_def by blast
      then show "(\<exists>z. la_ops (ls_w s) r = Some z \<and> kept_la z y \<and> (block_of y = NULL \<or> block_of y \<notin> {block_of x})) \<or>
          r = NULL \<and> fresh_buffer (ls_w s) ?w' y"
        using y by auto
    qed (rule sh refs entries)+
  qed
qed

lemma drop_context_la_mem:
  assumes data: "data_la self A s" and inv: "own_inv self A (own_la self A s)" and mem: "mem_la self A s"
    and data': "data_la self A s'" and inv': "own_inv self A (own_la self A s')"
    and s': "s' = s\<lparr>ls_w := decref_ctx_la self (ls_w s), ls_user := u\<rparr>"
  shows "mem_la self A s'"
proof (rule update_la_mem [OF mem data' inv'])
  have "entries_la (s\<lparr>ls_w := decref_ctx_la self (ls_w s)\<rparr>)"
    by (intro entries_keep [OF mem_laD(5) [OF mem]]) (simp add: decref_ctx_la_frame)
  then show "entries_la s'" by (simp add: s')
qed (auto simp: s' decref_ctx_la_frame split: if_splits)

lemma share_la_mem:
  assumes data: "data_la self A s" and mem: "mem_la self A s" and p: "p \<in> insert self A"
    and data': "data_la self A s'" and inv': "own_inv self A (own_la self A s')" and s': "s' = s\<lparr>ls_w := Py_INCREF p (ls_w s), ls_user := u\<rparr>"
  shows "mem_la self A s'"
proof (rule update_la_mem [OF mem data' inv'])
  have "entries_la (s\<lparr>ls_w := Py_INCREF p (ls_w s)\<rparr>)" by (intro entries_keep [OF mem_laD(5) [OF mem]]) simp
  then show "entries_la s'" by (simp add: s')
  have "bytes_at (ls_w s) p = NULL" using data p by (auto simp: data_la_def)
  then show "0 < refs (ls_w s) q \<or> bytes_at (ls_w s) q = NULL" if "0 < refs (ls_w s') q" for q
    using that by (auto simp: s' rt_simps split: if_splits)
qed (auto simp: s' rt_simps)

lemma program_la_mem:
  assumes data: "data_la self A s" and inv: "own_inv self A (own_la self A s)" and mem: "mem_la self A s"
    and step: "program_step_la self A (ls_w s) w'"
  shows "mem_la self A (s\<lparr>ls_w := w'\<rparr>)"
proof -
  have w': "la_ops w' = la_ops (ls_w s)" "runtime_ok w'" "apart_la w'"
    "\<And>b. b \<in> blocks_la (ls_w s) \<Longrightarrow> map_option length (mem w' b) = map_option length (mem (ls_w s) b)"
    "\<And>q. q \<noteq> NULL \<Longrightarrow> int (owed_la A (ls_w s) q) \<le> refs w' q"
    "\<And>q. q \<noteq> NULL \<Longrightarrow> 0 < owed_la A (ls_w s) q \<Longrightarrow> bytes_at w' q = bytes_at (ls_w s) q \<and> storage w' q = storage (ls_w s) q"
    using step by (simp_all add: program_step_la_def)
  have fin: "finite A" using data by (simp add: data_la_def layout_la_def)
  have refs: "refs_ok_la self A w'" using w'(5) by (simp add: refs_ok_la_def owed_la_def w'(1))
  have buffer: "buffer_la w' x" if "la_ops w' p = Some x" for p x
  proof (rule buffer_la_kept)
    have x: "la_ops (ls_w s) p = Some x" using that w'(1) by simp
    show "buffer_la (ls_w s) x" by (rule mem_laD(4) [OF mem x])
    show "map_option length (mem w' (lo_buffer x)) = map_option length (mem (ls_w s) (lo_buffer x))"
      if "aio_lio_opcode (lo_iocb x) = IOCB_CMD_PREAD" "lo_buffer x \<noteq> NULL"
      using blocks_laI [OF x] that by (intro w'(4)) (simp add: block_of_def)
    show "bytes_at w' (lo_py_buffer x) = bytes_at (ls_w s) (lo_py_buffer x) \<and> storage w' (lo_py_buffer x) = storage (ls_w s) (lo_py_buffer x)"
      if "lo_py_buffer x \<noteq> NULL"
      using owed_la_pos [OF fin la_opD(1) [OF data inv x] x] that by (intro w'(6)) simp_all
  qed simp
  have "world_ok_la self A (ls_w s)" "entries_la s" using mem by (simp_all add: mem_la_def)
  then have "world_ok_la self A w'" using w'(2,3) refs buffer unfolding world_ok_la_def w'(1) by blast
  moreover have "entries_la (s\<lparr>ls_w := w'\<rparr>)" using mem_laD(5) [OF mem] by (simp add: entries_la_def w'(1))
  ultimately show ?thesis by (simp add: mem_la_def)
qed

section \<open>Every step\<close>

lemma la_step_mem:
  assumes step: "la_step self A s s'" and data: "data_la self A s" and inv: "own_inv self A (own_la self A s)" and mem: "mem_la self A s"
  shows "mem_la self A s'"
proof -
  have data': "data_la self A s'" and inv': "own_inv self A (own_la self A s')"
    using la_step_refines [OF step data inv] own_inv_steps [OF _ inv] by blast+
  show ?thesis
    using step
  proof cases
    case (new_read p parsed block view r w')
    from new_read_mem [OF data inv mem new_read(2-5) data' [unfolded new_read(1)] inv' [unfolded new_read(1)]] show ?thesis unfolding new_read(1) .
  next
    case (new_write p parsed as_string r w')
    from new_write_mem [OF data inv mem new_write(2-5) data' [unfolded new_write(1)] inv' [unfolded new_write(1)]] show ?thesis unfolding new_write(1) .
  next
    case (new_sync p code parsed r w')
    from new_sync_mem [OF data inv mem new_sync(2-5) data' [unfolded new_sync(1)] inv' [unfolded new_sync(1)]] show ?thesis unfolding new_sync(1) .
  next
    case (set_callback p cb callable r w')
    from set_callback_la_mem [OF data inv mem set_callback(2-4) data' [unfolded set_callback(1)] inv' [unfolded set_callback(1)]] show ?thesis unfolding set_callback(1) .
  next
    case (submit env answer errno args r w' ps)
    from submit_la_mem [OF data inv mem submit(2-6) data' [unfolded submit(1)] inv' [unfolded submit(1)]] show ?thesis unfolding submit(1) .
  next
    case (kernel_post bs b cs res d)
    from kernel_post_la_mem [OF mem kernel_post(2,3) data' [unfolded kernel_post(1)] inv' [unfolded kernel_post(1)]] show ?thesis unfolding kernel_post(1) .
  next
    case (collect evs rest)
    from collect_la_mem [OF mem collect(3)] show ?thesis unfolding collect(1) .
  next
    case (cancel bs b cs res)
    from cancel_la_mem [OF mem cancel(3,4)] show ?thesis unfolding cancel(1) .
  next
    case (store us ev vs)
    from store_la_mem [OF data inv mem store(2) data' [unfolded store(1)] inv' [unfolded store(1)]] show ?thesis unfolding store(1) .
  next
    case (call us ev vs verdict)
    from call_la_mem [OF data inv mem call(2) data' [unfolded call(1)] inv' [unfolded call(1)]] show ?thesis unfolding call(1) .
  next
    case (release us ev vs)
    have "ev_data ev \<in># ow_batch (own_la self A s)" using with_stage_at [OF release(2), of "\<lambda>st. st \<noteq> Got"] by (simp add: own_la_sel)
    from in_batch_alive(1) [OF inv this] obtain x where x: "la_ops (ls_w s) (ev_data ev) = Some x" "phase_la x = Done" by (auto simp: own_la_sel)
    show ?thesis
      by (rule decref_op_la_mem [OF data inv mem x(1) _ data' inv']) (use x(2) release in auto)
  next
    case (drop p)
    have acc: "counted True (map_option phase_la (la_ops (ls_w s) p)) (refs (ls_w s) p) (ls_user s p)
        (count (mset (places_la s)) p) (count (mset (with_stage (\<lambda>st. st \<noteq> Got) s)) p)"
      using own_invD(3) [OF inv, of p] drop(2) by (simp add: own_la_def)
    then obtain x where x: "la_ops (ls_w s) p = Some x" using drop(3) by (auto simp: counted_def)
    have "phase_la x \<noteq> Flight" if "refs (ls_w s) p = 1" using acc x drop(3) that by (auto simp: counted_def)
    from decref_op_la_mem [OF data inv mem x this data' inv'] show ?thesis using drop(1) by simp
  next
    case drop_context
    from drop_context_la_mem [OF data inv mem data' inv' drop_context(1)] show ?thesis .
  next
    case (share p)
    from share_la_mem [OF data mem share(2) data' inv' share(1)] show ?thesis .
  next
    case (program w')
    from program_la_mem [OF data inv mem program(2)] show ?thesis unfolding program(1) .
  qed
qed

lemma la_start_mem: "la_start self A s \<Longrightarrow> mem_la self A s"
proof (induction rule: la_start.induct)
  case (1 eventfd parsed init c n w)
  let ?w = "w\<lparr>refs := (refs w)(self := int n), la_ops := Map.empty, la_ctxs := [self \<mapsto> c]\<rparr>"
  have "0 < refs ?w q \<Longrightarrow> 0 < refs w q \<or> bytes_at w q = NULL" for q using 1(7) by (auto split: if_splits)
  then have "shrinks {} w ?w" by (intro shrinks_same) simp_all
  then have "runtime_ok ?w" by (rule shrinks_runtime [OF 1(8)])
  then show ?case
    using 1(5) by (simp add: mem_la_def world_ok_la_def entries_la_def apart_la_def blocks_la_def refs_ok_la_def owed_la_def)
qed

lemma la_reaches_mem:
  assumes "la_reaches self A s"
  shows "mem_la self A s"
proof -
  obtain s0 where start: "la_start self A s0" and run: "(la_step self A)\<^sup>*\<^sup>* s0 s" using assms by (auto simp: la_reaches_def)
  from run show ?thesis
  proof (induction rule: rtranclp_induct)
    case base
    show ?case by (rule la_start_mem [OF start])
  next
    case (step t u)
    then show ?case using la_step_mem laio_sys.reachable_owned [OF start] by blast
  qed
qed

end
