(* ===== verification/Laio_Claims.thy ===== *)
theory Laio_Claims
  imports Laio_Properties
begin

text \<open>
  Properties of the kernel AIO backend: submitting with its rollback, delivering events, the
  two together, cancelling, the results of reads, and what is left of a Context that was
  never initialised. The examples share one state: a Context at address 1, a read at 2, a
  write at 3, and an operation at 9 that is in flight.
\<close>

section \<open>The example state\<close>

definition ex_op_la :: "ptr \<Rightarrow> u16 \<Rightarrow> ptr \<Rightarrow> AIOOperation_la" where
  "ex_op_la p code cb = \<lparr>lo_context = NULL, lo_py_buffer = 4, lo_callback = cb, lo_buffer = 6, lo_error = 0,
     lo_in_progress = 0, lo_done = 0, lo_iocb = zero_iocb\<lparr>aio_data := p, aio_lio_opcode := code, aio_buf := 6, aio_nbytes := 3\<rparr>,
     lo_weakreflist = NULL\<rparr>"

definition ex_la :: la_world where
  "ex_la = \<lparr>refs = (\<lambda>_. 3), mem = [6 \<mapsto> [7, 8, 0]], bytes_at = (\<lambda>_. NULL)(4 := 6), trace = [],
     la_ops = [2 \<mapsto> ex_op_la 2 IOCB_CMD_PREAD 5, 3 \<mapsto> ex_op_la 3 IOCB_CMD_PWRITE NULL,
       9 \<mapsto> held_la 1 8 (ex_op_la 9 IOCB_CMD_PREAD NULL)],
     la_ctxs = [1 \<mapsto> \<lparr>lc_ctx = 77, lc_fileno = 8, lc_max_requests = 32, lc_weakreflist = NULL\<rparr>]\<rparr>"

text \<open>A kernel that accepts at most \<open>k\<close> operations and has \<open>evs\<close> to deliver.\<close>

definition ex_env_la :: "int \<Rightarrow> io_event list \<Rightarrow> la_env" where
  "ex_env_la k evs = \<lparr>le_submit = (\<lambda>_ cs w. (if k < int (length cs) then k else int (length cs), EAGAIN, w)),
     le_cancel = (\<lambda>_ p w. (0, 0, \<lparr>ev_data = p, ev_res = - 125\<rparr>, w)), le_getevents = (\<lambda>_ _ _ _ w. (Inr evs, w)),
     le_memory = True, le_call = (\<lambda>cb v w. (v = PyLong 2, w))\<rparr>"

lemma ex_la_ctx [simp]: "lc_ctx (ctx_la ex_la 1) = 77" "lc_fileno (ctx_la ex_la 1) = 8"
  by (simp_all add: ex_la_def ctx_la_def)

lemma ex_la_refs [simp]: "refs ex_la p = 3"
  by (simp add: ex_la_def)

lemma ex_la_free [simp]: "free_la ex_la p \<longleftrightarrow> p = 2 \<or> p = 3"
  by (simp add: free_la_def ex_la_def ex_op_la_def)

lemma ex_la_ready: "ready_la 1 ex_la"
  by (auto simp: ready_la_def ex_la_def ex_op_la_def split: if_splits)

section \<open>Submitting\<close>

text \<open>Submit as a whole: a negative answer of the kernel accepts none.\<close>

lemma submit_la_closed:
  assumes ctx: "lc_ctx (ctx_la w self) \<noteq> 0" and ready: "ready_la self w" and mem: "le_memory env"
    and live: "\<forall>p\<in>set ps. la_ops w p \<noteq> None" and rf: "0 < refs w self" "\<forall>p\<in>set ps. 0 < refs w p"
    and kernel: "\<And>ctx cs v. \<exists>m. le_submit env ctx cs v = (answer cs, errno, v\<lparr>mem := m\<rparr>)"
  shows "\<exists>cs m. subseq cs ps \<and> distinct cs \<and> set cs = {p \<in> set ps. free_la w p} \<and>
     AIOContext_submit_la env self (Some ps) w =
       (if cs = [] then (Ret (PyLong 0), w)
        else (case io_submit_error (answer cs) errno of Some e \<Rightarrow> Raise e | None \<Rightarrow> Ret (PyLong (answer cs)),
          (submitted_la self (take (nat (answer cs)) cs) (drop (nat (answer cs)) cs) w)\<lparr>mem := m\<rparr>))"
proof -
  obtain cs w1 where claim: "claim_all_la self ps w = (cs, w1)" by fastforce
  note cs = claim_all_la_spec [OF ready live claim]
  have can: "claimable_la self cs w" using cs ready rf by (auto simp: claimable_la_def)
  have w1: "w1 = submitted_la self cs [] w" using cs by blast
  obtain m where call: "le_submit env (lc_ctx (ctx_la w self)) cs w1 = (answer cs, errno, w1\<lparr>mem := m\<rparr>)"
    using kernel by blast
  have comm: "(submitted_la self acc rej w)\<lparr>mem := m\<rparr> = submitted_la self acc rej (w\<lparr>mem := m\<rparr>)" for acc rej
    by (intro la_world.equality) (simp_all add: fun_eq_iff ctx_la_def)
  have "claimable_la self cs (w\<lparr>mem := m\<rparr>)"
    using can by (simp add: claimable_la_def)
  note undo = rollbacks_take_drop [OF this]
  have "wrong_type (la_ops w) 0 ps = None" using live by (simp add: wrong_type_None)
  then have "AIOContext_submit_la env self (Some ps) w =
      (if cs = [] then (Ret (PyLong 0), w)
       else (case io_submit_error (answer cs) errno of
           Some e \<Rightarrow> (Raise e, fold rollback_la cs (submitted_la self cs [] (w\<lparr>mem := m\<rparr>)))
         | None \<Rightarrow> (Ret (PyLong (answer cs)), fold rollback_la (drop (nat (answer cs)) cs) (submitted_la self cs [] (w\<lparr>mem := m\<rparr>)))))"
    using ctx mem claim call cs
    by (cases "ps = []") (simp_all add: AIOContext_submit_la_def w1 comm)
  moreover have "nat (answer cs) = 0" if "io_submit_error (answer cs) errno = Some e" for e
    using that by (simp add: io_submit_error_def split: if_splits)
  ultimately have "AIOContext_submit_la env self (Some ps) w =
       (if cs = [] then (Ret (PyLong 0), w)
        else (case io_submit_error (answer cs) errno of Some e \<Rightarrow> Raise e | None \<Rightarrow> Ret (PyLong (answer cs)),
          (submitted_la self (take (nat (answer cs)) cs) (drop (nat (answer cs)) cs) w)\<lparr>mem := m\<rparr>))"
    using undo [of 0] undo by (simp add: comm split: option.split)
  then show ?thesis using cs by blast
qed

text \<open>
  C29. \<^verbatim>\<open>Context.submit\<close>. It claims exactly the free ones among its arguments, in order and
  each once, and hands them to the kernel in one call. The operations the kernel accepts,
  a prefix, stay claimed by this Context with one reference each, and one on the Context
  each; the others, all of them if the call fails, are free again with their references
  given back, so that they can be submitted again. Nothing else changes but the
  notification settings in the control blocks, and the memory the kernel writes.
\<close>

theorem la_submit_spec:
  assumes "lc_ctx (ctx_la w self) \<noteq> 0" and "ready_la self w" and "le_memory env"
    and "\<forall>p\<in>set ps. la_ops w p \<noteq> None" and "0 < refs w self" and "\<forall>p\<in>set ps. 0 < refs w p"
    and "\<And>ctx cs v. \<exists>m. le_submit env ctx cs v = (answer cs, errno, v\<lparr>mem := m\<rparr>)"
    and "\<And>cs. answer cs \<le> int (length cs)"
  shows "\<exists>cs acc rej r w'. AIOContext_submit_la env self (Some ps) w = (r, w') \<and>
     subseq cs ps \<and> distinct cs \<and> set cs = {p \<in> set ps. free_la w p} \<and>
     acc = take (nat (answer cs)) cs \<and> rej = drop (nat (answer cs)) cs \<and>
     (r = Ret (PyLong (int (length acc))) \<or> answer cs < 0 \<and> (\<exists>e. io_submit_error (answer cs) errno = Some e \<and> r = Raise e)) \<and>
     (\<exists>m. w' = (submitted_la self acc rej w)\<lparr>mem := m\<rparr>) \<and> ready_la self w' \<and>
     (\<forall>p. free_la w' p \<longleftrightarrow> p \<notin> set acc \<and> free_la w p) \<and>
     (\<forall>p\<in>set acc. refs w' p = refs w p + 1) \<and> (\<forall>p\<in>set rej. refs w' p = refs w p) \<and>
     refs w' self = refs w self + int (length acc)"
proof -
  obtain cs m where cs: "subseq cs ps" "distinct cs" "set cs = {p \<in> set ps. free_la w p}"
    and run: "AIOContext_submit_la env self (Some ps) w =
       (if cs = [] then (Ret (PyLong 0), w)
        else (case io_submit_error (answer cs) errno of Some e \<Rightarrow> Raise e | None \<Rightarrow> Ret (PyLong (answer cs)),
          (submitted_la self (take (nat (answer cs)) cs) (drop (nat (answer cs)) cs) w)\<lparr>mem := m\<rparr>))"
    using submit_la_closed [OF assms(1-7)] by blast
  define acc where "acc = take (nat (answer cs)) cs"
  define rej where "rej = drop (nat (answer cs)) cs"
  define r where "r = (if cs = [] then Ret (PyLong 0)
     else case io_submit_error (answer cs) errno of Some e \<Rightarrow> Raise e | None \<Rightarrow> Ret (PyLong (answer cs)))"
  define w' where "w' = (submitted_la self acc rej w)\<lparr>mem := (if cs = [] then mem w else m)\<rparr>"
  have split: "cs = acc @ rej" by (simp add: acc_def rej_def)
  have len: "int (length acc) = (if answer cs < 0 then 0 else answer cs)" using assms(8) [of cs] by (simp add: acc_def)
  have r: "r = Ret (PyLong (int (length acc))) \<or> answer cs < 0 \<and> (\<exists>e. io_submit_error (answer cs) errno = Some e \<and> r = Raise e)"
    using len by (auto simp: r_def acc_def io_submit_error_def)
  have dis: "set acc \<inter> set rej = {}" using cs(2) split by simp
  have self: "self \<notin> set cs" using cs(3) assms(2) by (auto simp: ready_la_def free_la_def)
  have ready: "ready_la self w'"
    unfolding w'_def mem_frame_la by (rule ready_submitted [OF assms(2)])
  have free: "\<forall>p. free_la w' p \<longleftrightarrow> p \<notin> set acc \<and> free_la w p"
    unfolding w'_def mem_frame_la free_submitted by simp
  have submit: "AIOContext_submit_la env self (Some ps) w = (r, w')"
    using run by (simp add: w'_def r_def acc_def rej_def)
  have refs: "\<forall>p\<in>set acc. refs w' p = refs w p + 1" "\<forall>p\<in>set rej. refs w' p = refs w p"
      "refs w' self = refs w self + int (length acc)"
    using self split dis by (auto simp: w'_def)
  have w': "\<exists>m. w' = (submitted_la self acc rej w)\<lparr>mem := m\<rparr>" unfolding w'_def by blast
  show ?thesis
    by (rule exI [of _ cs], rule exI [of _ acc], rule exI [of _ rej], rule exI [of _ r], rule exI [of _ w'], intro conjI)
      (fact submit cs acc_def rej_def r w' ready free refs)+
qed

theorem la_submit_spec_witness:
  "\<exists>w'. AIOContext_submit_la (ex_env_la 1 []) 1 (Some [2, 9, 3]) ex_la = (Ret (PyLong 1), w') \<and>
     \<not> free_la w' 2 \<and> free_la w' 3 \<and> refs w' 3 = 3 \<and> refs w' 1 = 4"
proof -
  let ?answer = "\<lambda>cs :: ptr list. if 1 < int (length cs) then 1 else int (length cs)"
  have kernel: "\<exists>m. le_submit (ex_env_la 1 []) ctx cs v = (?answer cs, EAGAIN, v\<lparr>mem := m\<rparr>)" for ctx cs v
    by (intro exI [of _ "mem v"]) (simp add: ex_env_la_def)
  have live: "\<forall>p\<in>set [2, 9, 3]. la_ops ex_la p \<noteq> None" and mem: "le_memory (ex_env_la 1 [])"
    by (simp_all add: ex_la_def ex_env_la_def)
  have ctx: "lc_ctx (ctx_la ex_la 1) \<noteq> 0" and rf: "0 < refs ex_la 1" "\<forall>p\<in>set [2, 9, 3]. 0 < refs ex_la p"
    and bound: "?answer cs \<le> int (length cs)" for cs
    by simp_all
  obtain cs acc rej r w' where run: "AIOContext_submit_la (ex_env_la 1 []) 1 (Some [2, 9, 3]) ex_la = (r, w')"
    and cs: "subseq cs [2, 9, 3]" "distinct cs" "set cs = {p \<in> set [2, 9, 3]. free_la ex_la p}"
    and acc: "acc = take (nat (?answer cs)) cs" "rej = drop (nat (?answer cs)) cs"
    and r: "r = Ret (PyLong (int (length acc))) \<or> ?answer cs < 0 \<and> (\<exists>e. io_submit_error (?answer cs) EAGAIN = Some e \<and> r = Raise e)"
    and free: "\<forall>p. free_la w' p \<longleftrightarrow> p \<notin> set acc \<and> free_la ex_la p"
    and refs: "\<forall>p\<in>set rej. refs w' p = refs ex_la p" "refs w' 1 = refs ex_la 1 + int (length acc)"
    using la_submit_spec [OF ctx ex_la_ready mem live rf(1) rf(2) kernel bound] by blast
  have "9 \<notin> set cs" "2 \<in> set cs" "3 \<in> set cs" using cs(3) by auto
  moreover have "cs \<in> set (subseqs [2, 9, 3])" using cs(1) by (simp only: in_set_subseqs)
  ultimately have "cs = [2, 3]" by (auto simp: Let_def simp del: in_set_subseqs)
  then show ?thesis using run acc r free refs by (intro exI [of _ w']) auto
qed

section \<open>Delivering events\<close>

lemma process_events_la_closed:
  assumes "lc_ctx (ctx_la w self) \<noteq> 0" and "le_memory env" and "m \<le> MAX_EVENTS_REQUEST" and "n \<le> m" and "0 < m"
    and "le_getevents env (lc_ctx (ctx_la w self)) n m (if tv \<ge> 0 then Some tv else None) w = (Inr evs, w1)"
    and "le_call env = (\<lambda>cb v w. (verdict cb v, w))" and "events_ok self evs w1"
  shows "AIOContext_process_events_la env self (Some (m, n, tv)) w = (Ret (PyLong (int (length evs))), delivered_la self verdict evs w1)"
proof -
  have "m \<noteq> 0" "\<not> m < n" "\<not> MAX_EVENTS_REQUEST < m" using assms(3-5) by auto
  then show ?thesis
    using assms(1,2,6) deliver_events_closed [OF assms(7,8)] by (simp add: AIOContext_process_events_la_def Let_def)
qed

text \<open>
  C30. \<^verbatim>\<open>Context.process_events\<close> with limits within bounds and callbacks that return or raise
  without touching the module. Every event of the kernel is delivered exactly once, in
  order, also after a callback that raised: its operation gets its result and gives back
  one reference on itself and one on the Context, and its callback is called once. The
  callback gets the result as an unsigned 64-bit number: a failure with error \<open>e\<close> arrives
  as \<open>2 ^ 64 - e\<close>.
\<close>

theorem la_events_spec:
  fixes self :: ptr
  assumes "lc_ctx (ctx_la w self) \<noteq> 0" and "le_memory env" and "m \<le> MAX_EVENTS_REQUEST" and "n \<le> m" and "0 < m"
    and "le_getevents env (lc_ctx (ctx_la w self)) n m (if tv \<ge> 0 then Some tv else None) w = (Inr evs, w1)"
    and "le_call env = (\<lambda>cb v w. (verdict cb v, w))" and "events_ok self evs w1"
  shows "\<exists>w'. AIOContext_process_events_la env self (Some (m, n, tv)) w = (Ret (PyLong (int (length evs))), w') \<and>
     (\<forall>ev\<in>set evs. la_ops w' (ev_data ev) = Some (completed_op_la (ev_res ev) (op_la w1 (ev_data ev))) \<and>
        refs w' (ev_data ev) = refs w1 (ev_data ev) - 1) \<and>
     (\<forall>p. p \<notin> ev_data ` set evs \<longrightarrow> la_ops w' p = la_ops w1 p) \<and>
     refs w' self = refs w1 self - int (length evs) \<and>
     trace w' = trace w1 @ concat (map (\<lambda>ev. callback_events verdict (lo_callback (op_la w1 (ev_data ev)))
        (PyLong (if sint (ev_res ev) < 0 then 2 ^ 64 + sint (ev_res ev) else sint (ev_res ev)))) evs)"
proof -
  let ?w' = "delivered_la self verdict evs w1"
  have arg: "uint r = (if sint r < 0 then 2 ^ 64 + sint r else sint r)" for r :: u64
    by (rule uint_of_sint)
  have one: "la_ops ?w' (ev_data ev) = Some (completed_op_la (ev_res ev) (op_la w1 (ev_data ev)))"
    and rf: "refs ?w' (ev_data ev) = refs w1 (ev_data ev) - 1" if ev: "ev \<in> set evs" for ev
  proof -
    obtain x where x: "la_ops w1 (ev_data ev) = Some x" using assms(8) ev by (auto simp: events_ok_def)
    have "map_of (map result_of evs) (ev_data ev) = Some (ev_res ev)"
      using assms(8) ev by (intro map_of_is_SomeI) (auto simp: events_ok_def comp_def)
    then show "la_ops ?w' (ev_data ev) = Some (completed_op_la (ev_res ev) (op_la w1 (ev_data ev)))"
      using x by (simp add: delivered_la_def op_la_def)
    have "ev_data ev \<in> ev_data ` set evs" using ev by simp
    moreover from this have "ev_data ev \<noteq> self" using assms(8) by (auto simp: events_ok_def)
    ultimately show "refs ?w' (ev_data ev) = refs w1 (ev_data ev) - 1" by (simp add: delivered_la_def)
  qed
  have others: "la_ops ?w' p = la_ops w1 p" if "p \<notin> ev_data ` set evs" for p
  proof -
    have "map_of (map result_of evs) p = None" using that by (auto simp: map_of_eq_None_iff)
    then show ?thesis by (simp add: delivered_la_def)
  qed
  have self: "refs ?w' self = refs w1 self - int (length evs)" using assms(8) by (simp add: delivered_la_def events_ok_def)
  have tr: "trace ?w' = trace w1 @ concat (map (\<lambda>ev. callback_events verdict (lo_callback (op_la w1 (ev_data ev)))
        (PyLong (if sint (ev_res ev) < 0 then 2 ^ 64 + sint (ev_res ev) else sint (ev_res ev)))) evs)"
    unfolding arg [symmetric] by (simp add: delivered_la_def)
  show ?thesis
    by (rule exI [of _ ?w'], intro conjI ballI allI impI)
      (use process_events_la_closed [OF assms] one rf others self tr in \<open>simp_all only:\<close>)
qed

definition ex_la_flight :: la_world where
  "ex_la_flight = submitted_la 1 [2, 3] [] ex_la"

definition ex_events :: "io_event list" where
  "ex_events = [\<lparr>ev_data = 3, ev_res = - 5\<rparr>, \<lparr>ev_data = 2, ev_res = 2\<rparr>]"

lemma ex_la_flight_ops [simp]:
  "la_ops ex_la_flight 2 = Some (held_la 1 8 (ex_op_la 2 IOCB_CMD_PREAD 5))"
  "la_ops ex_la_flight 3 = Some (held_la 1 8 (ex_op_la 3 IOCB_CMD_PWRITE NULL))"
  "ctx_la ex_la_flight = ctx_la ex_la" "refs ex_la_flight 1 = 5" "refs ex_la_flight 2 = 4" "refs ex_la_flight 3 = 4"
  "refs ex_la_flight 5 = 3" "trace ex_la_flight = []"
  by (simp_all add: ex_la_flight_def) (simp_all add: ex_la_def)

lemma ex_events_ok: "events_ok 1 ex_events ex_la_flight"
  by (simp add: events_ok_def ex_events_def ex_op_la_def)

theorem la_events_spec_witness:
  "\<exists>w'. AIOContext_process_events_la (ex_env_la 1 ex_events) 1 (Some (8, 1, - 1)) ex_la_flight = (Ret (PyLong 2), w') \<and>
     trace w' = [Ev_Callback 5 (PyLong 2)] \<and> refs w' 1 = 3"
proof -
  let ?env = "ex_env_la 1 ex_events"
  have env: "le_memory ?env" "le_call ?env = (\<lambda>cb v w. ((\<lambda>cb v. v = PyLong 2) cb v, w))"
    "le_getevents ?env (lc_ctx (ctx_la ex_la_flight 1)) 1 8 (if (- 1 :: int) \<ge> 0 then Some (- 1) else None) ex_la_flight =
      (Inr ex_events, ex_la_flight)"
    by (simp_all add: ex_env_la_def)
  from la_events_spec [OF _ env(1) _ _ _ env(3,2) ex_events_ok] show ?thesis
    by (auto simp: ex_events_def op_la_def ex_op_la_def callback_events_def)
qed

section \<open>Submit and process_events together\<close>

text \<open>
  A batch that the kernel accepts and completes, in any order, leaves every reference
  count as it was: what \<^verbatim>\<open>submit\<close> takes, \<^verbatim>\<open>process_events\<close> gives back, once for each
  operation. The operations are then done, hold no Context, and stay claimed.
\<close>

theorem la_refs_balanced:
  fixes self :: ptr
  assumes "lc_ctx (ctx_la w self) \<noteq> 0" and "ready_la self w" and "le_memory env" and "ps \<noteq> []"
    and "\<forall>p\<in>set ps. free_la w p" and "distinct ps" and "0 < refs w self" and "\<forall>p\<in>set ps. 0 < refs w p"
    and "le_submit env = (\<lambda>_ cs v. (int (length cs), 0, v))"
    and "le_getevents env = (\<lambda>_ _ _ _ v. (Inr evs, v))" and "le_call env = (\<lambda>cb v w. (verdict cb v, w))"
    and "set (map ev_data evs) = set ps" and "distinct (map ev_data evs)"
    and "\<forall>p\<in>set ps. lo_callback (op_la w p) \<noteq> NULL \<longrightarrow>
       lo_callback (op_la w p) \<notin> insert self (set ps) \<and> 0 < refs w (lo_callback (op_la w p))"
    and "m \<le> MAX_EVENTS_REQUEST" and "n \<le> m" and "0 < m"
  shows "\<exists>w1 w2. AIOContext_submit_la env self (Some ps) w = (Ret (PyLong (int (length ps))), w1) \<and>
     AIOContext_process_events_la env self (Some (m, n, tv)) w1 = (Ret (PyLong (int (length ps))), w2) \<and>
     refs w2 = refs w \<and> la_ctxs w2 = la_ctxs w \<and>
     (\<forall>p\<in>set ps. lo_done (op_la w2 p) = 1 \<and> lo_in_progress (op_la w2 p) = 1 \<and> lo_context (op_la w2 p) = NULL)"
proof -
  have live: "\<forall>p\<in>set ps. la_ops w p \<noteq> None" and self: "self \<notin> set ps"
    using assms(2,5) by (auto simp: free_la_def ready_la_def split: option.splits)
  obtain cs w1 where claim: "claim_all_la self ps w = (cs, w1)" by fastforce
  note cs = claim_all_la_spec [OF assms(2) live claim]
  have set_cs: "set cs = set ps" and "distinct cs" using cs assms(5) by blast+
  then have len: "length cs = length ps" using assms(6) by (metis distinct_card)
  have "cs \<noteq> []" using set_cs assms(4) by auto
  have w1: "w1 = submitted_la self cs [] w" using cs by blast
  have "wrong_type (la_ops w) 0 ps = None" using live by (simp add: wrong_type_None)
  then have submit: "AIOContext_submit_la env self (Some ps) w = (Ret (PyLong (int (length ps))), w1)"
    using assms(1,3,4,9) claim \<open>cs \<noteq> []\<close> len by (simp add: AIOContext_submit_la_def io_submit_error_def)
  have held: "la_ops w1 p = Some (held_la self (lc_fileno (ctx_la w self)) (op_la w p))" if "p \<in> set ps" for p
    using that live by (auto simp: w1 set_cs op_la_def)
  have evs: "length evs = length ps"
    using assms(6,12,13) distinct_card [of ps] distinct_card [of "map ev_data evs"] by simp
  have ok: "events_ok self evs w1"
    unfolding events_ok_def
  proof (intro conjI ballI)
    show "self \<noteq> NULL" using assms(2) by (simp add: ready_la_def)
    show "self \<notin> ev_data ` set evs" using assms(12) self by simp
    show "distinct (map ev_data evs)" by (rule assms(13))
    show "int (length evs) < refs w1 self" using assms(7) self by (simp add: w1 set_cs evs len)
    fix ev assume "ev \<in> set evs"
    then have p: "ev_data ev \<in> set ps" using assms(12) by auto
    moreover have "set ps = ev_data ` set evs" using assms(12) by simp
    ultimately show "\<exists>x. la_ops w1 (ev_data ev) = Some x \<and> lo_context x = self \<and> 1 < refs w1 (ev_data ev) \<and>
        (lo_callback x \<noteq> NULL \<longrightarrow> lo_callback x \<notin> insert self (ev_data ` set evs) \<and> 0 < refs w1 (lo_callback x))"
      using assms(8,14) self by (simp add: held [OF p]) (auto simp: w1 set_cs)
  qed
  let ?w2 = "delivered_la self verdict evs w1"
  have ctx1: "ctx_la w1 = ctx_la w" by (simp add: w1)
  have run: "AIOContext_process_events_la env self (Some (m, n, tv)) w1 = (Ret (PyLong (int (length ps))), ?w2)"
    using process_events_la_closed [of w1 self env m n tv evs w1 verdict] assms(1,3,10,11,15-17) ok evs by (simp add: ctx1)
  have "ev_data ` set evs = set ps" using assms(12) by simp
  then have "refs ?w2 = refs w"
    by (simp add: delivered_la_def w1 set_cs evs len fun_eq_iff)
  moreover have "la_ctxs ?w2 = la_ctxs w" by (simp add: delivered_la_def w1)
  moreover have "\<forall>p\<in>set ps. lo_done (op_la ?w2 p) = 1 \<and> lo_in_progress (op_la ?w2 p) = 1 \<and> lo_context (op_la ?w2 p) = NULL"
  proof
    fix p assume p: "p \<in> set ps"
    then have "p \<in> ev_data ` set evs" using assms(12) by simp
    then obtain ev where "ev \<in> set evs" "p = ev_data ev" by blast
    then have "(p, ev_res ev) \<in> set (map result_of evs)" by simp
    then obtain res where "map_of (map result_of evs) p = Some res" using weak_map_of_SomeI by fast
    then have "op_la ?w2 p = completed_op_la res (held_la self (lc_fileno (ctx_la w self)) (op_la w p))"
      using held [OF p] by (simp add: delivered_la_def op_la_def)
    then show "lo_done (op_la ?w2 p) = 1 \<and> lo_in_progress (op_la ?w2 p) = 1 \<and> lo_context (op_la ?w2 p) = NULL" by simp
  qed
  ultimately show ?thesis using submit run by blast
qed

text \<open>A kernel that accepts everything.\<close>

definition ex_accept :: la_env where
  "ex_accept = (ex_env_la 0 ex_events)\<lparr>le_submit := (\<lambda>_ cs v. (int (length cs), 0, v))\<rparr>"

lemma ex_accept_fields [simp]:
  "le_memory ex_accept" "le_submit ex_accept = (\<lambda>_ cs v. (int (length cs), 0, v))"
  "le_getevents ex_accept = (\<lambda>_ _ _ _ v. (Inr ex_events, v))"
  by (simp_all add: ex_accept_def ex_env_la_def)

theorem la_refs_balanced_witness:
  "\<exists>w1 w2. AIOContext_submit_la ex_accept 1 (Some [2, 3]) ex_la = (Ret (PyLong 2), w1) \<and>
     AIOContext_process_events_la ex_accept 1 (Some (8, 0, 0)) w1 = (Ret (PyLong 2), w2) \<and>
     refs w2 = refs ex_la"
proof -
  have call: "le_call ex_accept = (\<lambda>cb v w. ((\<lambda>cb v. v = PyLong 2) cb v, w))"
    by (simp add: ex_accept_def ex_env_la_def)
  have "lo_callback (op_la ex_la 2) = 5" "lo_callback (op_la ex_la 3) = NULL"
    by (simp_all add: op_la_def ex_la_def ex_op_la_def)
  then have cbs: "\<forall>p\<in>set [2, 3]. lo_callback (op_la ex_la p) \<noteq> NULL \<longrightarrow>
       lo_callback (op_la ex_la p) \<notin> insert 1 (set [2, 3]) \<and> 0 < refs ex_la (lo_callback (op_la ex_la p))"
    by simp
  have evs: "set (map ev_data ex_events) = set [2, 3]" "distinct (map ev_data ex_events)"
    by (auto simp: ex_events_def)
  show ?thesis
    using la_refs_balanced [OF _ ex_la_ready _ _ _ _ _ _ _ _ call evs cbs, where m = 8 and n = 0 and tv = 0] by simp blast
qed

section \<open>Cancelling\<close>

text \<open>Whether the callback of an operation returns when the event \<open>ev\<close> is delivered to it in \<open>w\<close>.\<close>

definition callback_returns :: "la_env \<Rightarrow> io_event \<Rightarrow> la_world \<Rightarrow> bool" where
  "callback_returns env ev w =
     (let w = complete_event (ev_data ev) (ev_res ev) w; cb = lo_callback (op_la w (ev_data ev));
          v = PyLong (uint (ev_res ev))
      in cb = NULL \<or> fst (le_call env cb v (emit (Ev_Callback cb v) (Py_INCREF cb w))))"

text \<open>
  C31. A successful \<^verbatim>\<open>cancel\<close> delivers the event of the operation exactly as
  \<^verbatim>\<open>process_events\<close> would, whatever the callback does, and returns the signed result. When
  the callback raises, \<^verbatim>\<open>cancel\<close> passes the exception on, and the state is what the callback
  left, \<open>w2\<close>, with the references on the callback and on the operation given back; the
  delivery differs from it only by the report of the exception. A failed \<^verbatim>\<open>cancel\<close> raises
  and leaves the operation as it is.
\<close>

theorem la_cancel_equiv:
  assumes "lc_ctx (ctx_la w self) \<noteq> 0" and "la_ops w op \<noteq> None"
    and "le_cancel env (lc_ctx (ctx_la w self)) op w = (ret, errno, ev, w1)" and "ev_data ev = op"
  shows "(ret = 0 \<and> callback_returns env ev w1 \<longrightarrow>
       AIOContext_cancel_la env self (Some op) w = (Ret (PyLong (sint (ev_res ev))), deliver_event env ev w1)) \<and>
     (ret = 0 \<and> \<not> callback_returns env ev w1 \<longrightarrow>
       (\<exists>cb w2. cb = lo_callback (op_la (complete_event op (ev_res ev) w1) op) \<and> cb \<noteq> NULL \<and>
          le_call env cb (PyLong (uint (ev_res ev)))
            (emit (Ev_Callback cb (PyLong (uint (ev_res ev)))) (Py_INCREF cb (complete_event op (ev_res ev) w1))) = (False, w2) \<and>
          AIOContext_cancel_la env self (Some op) w = (Raise PyErr_Pending, decref_op_la op (Py_DECREF cb w2)) \<and>
          deliver_event env ev w1 = decref_op_la op (Py_DECREF cb (emit (Ev_Unraisable cb) w2)))) \<and>
     (ret \<noteq> 0 \<longrightarrow> (\<exists>e. io_cancel_error ret errno = Some e \<and> AIOContext_cancel_la env self (Some op) w = (Raise e, w1)))"
proof -
  let ?w = "complete_event op (ev_res ev) w1"
  let ?cb = "lo_callback (op_la ?w op)" and ?v = "PyLong (uint (ev_res ev))"
  obtain ok w2 where call: "le_call env ?cb ?v (emit (Ev_Callback ?cb ?v) (Py_INCREF ?cb ?w)) = (ok, w2)" by fastforce
  have fail: "\<exists>e. io_cancel_error ret errno = Some e" if "ret \<noteq> 0" using that by (simp add: io_cancel_error_def)
  show ?thesis
  proof (cases "ret = 0")
    case True
    then have none: "io_cancel_error ret errno = None" by (simp add: io_cancel_error_def)
    show ?thesis
    proof (cases "?cb = NULL")
      case True
      then show ?thesis
        using assms none \<open>ret = 0\<close>
        by (simp add: AIOContext_cancel_la_def deliver_event_def callback_returns_def run_callback_def Let_def)
    next
      case False
      then show ?thesis
        using assms none \<open>ret = 0\<close> call
        by (cases ok) (simp_all add: AIOContext_cancel_la_def deliver_event_def callback_returns_def run_callback_def Let_def)
    qed
  next
    case False
    with fail obtain e where "io_cancel_error ret errno = Some e" by blast
    then show ?thesis using False assms by (auto simp: AIOContext_cancel_la_def)
  qed
qed

theorem la_cancel_equiv_witness:
  "AIOContext_cancel_la (ex_env_la 0 []) 1 (Some 3) ex_la_flight =
     (Ret (PyLong (- 125)), deliver_event (ex_env_la 0 []) \<lparr>ev_data = 3, ev_res = - 125\<rparr> ex_la_flight)"
proof -
  let ?ev = "\<lparr>ev_data = 3, ev_res = - 125\<rparr>"
  have cancel: "le_cancel (ex_env_la 0 []) (lc_ctx (ctx_la ex_la_flight 1)) 3 ex_la_flight = (0, 0, ?ev, ex_la_flight)"
    by (simp add: ex_env_la_def)
  have "complete_event 3 (- 125) ex_la_flight = ex_la_flight\<lparr>refs := (refs ex_la_flight)(1 := 4),
     la_ops := (la_ops ex_la_flight)(3 \<mapsto> completed_op_la (- 125) (held_la 1 8 (ex_op_la 3 IOCB_CMD_PWRITE NULL)))\<rparr>"
    using complete_event_closed [of ex_la_flight 3 _ 1 "- 125"] by simp
  then have "callback_returns (ex_env_la 0 []) ?ev ex_la_flight"
    by (simp add: callback_returns_def op_la_def ex_op_la_def)
  with la_cancel_equiv [OF _ _ cancel] show ?thesis by simp
qed

section \<open>Results\<close>

text \<open>
  C32. Results round trip. When the kernel has written \<open>data\<close> at the start of the buffer of a
  read and its event says so, \<^verbatim>\<open>get_value\<close> afterwards returns exactly \<open>data\<close>; when the event
  carries an error number, it raises that error; before the event it raises because the
  operation is in flight.
\<close>

theorem la_read_result:
  assumes "la_ops w p = Some x" and "lo_context x = self" and "self \<noteq> NULL" and "p \<noteq> self"
    and "1 < refs w self" and "1 < refs w p" and "lo_in_progress x = 1" and "lo_done x = 0" and "lo_error x = 0"
    and "aio_lio_opcode (lo_iocb x) = IOCB_CMD_PREAD" and "lo_buffer x = b" and "b \<noteq> NULL"
    and "lo_callback x \<noteq> NULL \<longrightarrow> 0 < refs w (lo_callback x) \<and> lo_callback x \<noteq> self"
    and "mem w b = Some (data @ rest)" and "ev_data ev = p"
    and "ev_res ev = of_nat (length data) \<and> length data < 2 ^ 63 \<or> ev_res ev = - of_nat e \<and> 0 < e \<and> e < 2 ^ 31"
    and "le_call env = (\<lambda>cb v w. (verdict cb v, w))"
  shows "AIOOperation_get_value_la p w =
       Raise (PyErr_SetString PyExc_RuntimeError ''get_value() is not available while the operation is in flight'') \<and>
     (ev_res ev = of_nat (length data) \<and> length data < 2 ^ 63 \<longrightarrow>
        AIOOperation_get_value_la p (deliver_event env ev w) = Ret (PyBytes data)) \<and>
     (ev_res ev = - of_nat e \<and> 0 < e \<and> e < 2 ^ 31 \<longrightarrow>
        AIOOperation_get_value_la p (deliver_event env ev w) = Raise (PyErr_Format PyExc_SystemError ''strerror'' [int e]))"
proof -
  have ev: "ev_data ev = p" by (rule assms(15))
  have cb: "lo_callback x \<noteq> NULL \<Longrightarrow> 0 < refs w (lo_callback x) \<and> lo_callback x \<noteq> self" using assms(13) by blast
  note closed = deliver_event_closed [of w ev x self, unfolded ev, OF assms(1-6) cb assms(17)]
  have op: "op_la (deliver_event env ev w) p = completed_op_la (ev_res ev) x" by (simp add: closed op_la_def)
  have mem: "mem (deliver_event env ev w) = mem w" by (simp add: closed)
  have flight: "AIOOperation_get_value_la p w =
       Raise (PyErr_SetString PyExc_RuntimeError ''get_value() is not available while the operation is in flight'')"
    using assms(1,7,8) by (simp add: AIOOperation_get_value_la_def op_la_def)
  have good: "AIOOperation_get_value_la p (deliver_event env ev w) = Ret (PyBytes data)"
    if res: "ev_res ev = of_nat (length data)" "length data < 2 ^ 63"
  proof -
    have "sint (of_nat (length data) :: u64) = int (length data)" and "unat (of_nat (length data) :: u64) = length data"
      using res(2) by (simp_all add: signed_of_nat signed_take_bit_int_eq_self unsigned_of_nat take_bit_nat_eq_self)
    then show ?thesis
      using assms(7,9-12,14) res(1) by (simp add: AIOOperation_get_value_la_def op mem PyBytes_FromStringAndSize_def)
  qed
  have bad: "AIOOperation_get_value_la p (deliver_event env ev w) = Raise (PyErr_Format PyExc_SystemError ''strerror'' [int e])"
    if res: "ev_res ev = - of_nat e" "0 < e" "e < 2 ^ 31"
  proof -
    have "sint (- of_nat e :: u64) < 0" using res(2,3) by (simp add: sint_neg_of_nat)
    then have err: "lo_error (completed_op_la (ev_res ev) x) = ucast (of_nat e :: u64)" using res(1) by simp
    have val: "sint (ucast (of_nat e :: u64) :: u32) = int e" by (rule sint_ucast_of_nat [OF res(3)])
    then have "(ucast (of_nat e :: u64) :: u32) \<noteq> 0" using res(2) by auto
    then show ?thesis
      using assms(7) val err by (simp add: AIOOperation_get_value_la_def op)
  qed
  show ?thesis using flight good bad by blast
qed

text \<open>The read at address 2 of the example, after the kernel wrote two bytes.\<close>

theorem la_read_result_witness:
  "AIOOperation_get_value_la 2 (deliver_event (ex_env_la 0 []) \<lparr>ev_data = 2, ev_res = 2\<rparr> ex_la_flight) = Ret (PyBytes [7, 8])"
proof -
  have "mem ex_la_flight 6 = Some ([7, 8] @ [0])" by (simp add: ex_la_flight_def ex_la_def)
  moreover have "le_call (ex_env_la 0 []) = (\<lambda>cb v w. ((\<lambda>cb v. v = PyLong 2) cb v, w))" by (simp add: ex_env_la_def)
  ultimately show ?thesis
    using la_read_result [OF ex_la_flight_ops(1), where ev = "\<lparr>ev_data = 2, ev_res = 2\<rparr>" and data = "[7, 8]" and b = 6 and self = 1]
    by (simp add: ex_op_la_def)
qed

section \<open>A Context that was never initialised\<close>

text \<open>
  \<^verbatim>\<open>AIOContext_new\<close> leaves the file descriptor of a new Context at 0, and 0 is a valid
  descriptor: a Context whose \<^verbatim>\<open>__init__\<close> did not run closes descriptor 0, the standard
  input of the process, when it is deallocated. After \<^verbatim>\<open>__init__\<close>, whether it succeeded or
  failed, deallocation releases what it opened, each once, and nothing else.
\<close>

theorem la_dealloc_releases:
  fixes w :: la_world
  defines "gone \<equiv> \<lambda>c. trace (AIOContext_dealloc_la 1 (w\<lparr>la_ctxs := (la_ctxs w)(1 \<mapsto> c)\<rparr>))"
  shows "trace (AIOContext_dealloc_la 1 (AIOContext_new_la 1 w)) = trace w @ [Ev_Close 0, Ev_Dealloc 1] \<and>
     gone (snd (AIOContext_init_la (fd, errno) parsed setup new_ctx_la)) = trace w @
       (case parsed of None \<Rightarrow> []
        | Some n \<Rightarrow> let (ret, errno, ctx) = setup (if n = 0 then 32 else n) in
            if fd \<ge> 0 \<and> ctx \<noteq> 0 then [Ev_IoDestroy ctx] else []) @
       (if fd \<ge> 0 then [Ev_Close fd] else []) @ [Ev_Dealloc 1]"
proof (intro conjI)
  show "trace (AIOContext_dealloc_la 1 (AIOContext_new_la 1 w)) = trace w @ [Ev_Close 0, Ev_Dealloc 1]"
    by (simp add: AIOContext_dealloc_la_def AIOContext_new_la_def new_ctx_la_def ctx_la_def rt_simps Let_def)
  show "gone (snd (AIOContext_init_la (fd, errno) parsed setup new_ctx_la)) = trace w @
       (case parsed of None \<Rightarrow> []
        | Some n \<Rightarrow> let (ret, errno, ctx) = setup (if n = 0 then 32 else n) in
            if fd \<ge> 0 \<and> ctx \<noteq> 0 then [Ev_IoDestroy ctx] else []) @
       (if fd \<ge> 0 then [Ev_Close fd] else []) @ [Ev_Dealloc 1]"
    by (simp add: gone_def AIOContext_dealloc_la_def AIOContext_init_la_def new_ctx_la_def ctx_la_def rt_simps Let_def
        split: option.split prod.split)
qed

end
