(* ===== verification/Laio_Life.thy ===== *)
theory Laio_Life
  imports Laio_Buffers Laio_Claims
begin

text \<open>
  The life of operations in the kernel AIO system: where an operation in flight is and who
  keeps it alive, that collecting events is safe whatever happened before, that the memory
  of requests and results is there, and that everything accepted can complete.
\<close>

section \<open>Delivering events, as a run of the system\<close>

lemma deliver_events_runs:
  assumes "data_la self A s" and "own_inv self A (own_la self A s)"
    and "le_call env = (\<lambda>cb v w. (verdict cb v, w))" and "ls_work s = map (\<lambda>ev. (ev, Got)) evs @ rest"
  shows "\<exists>w'. deliver_events env evs (ls_w s) = Some w' \<and> (la_step self A)\<^sup>*\<^sup>* s (s\<lparr>ls_w := w', ls_work := rest,
    ls_completed := ls_completed s @ map ev_data evs, ls_called := ls_called s @ map ev_data evs\<rparr>)"
  using assms
proof (induction evs arbitrary: s)
  case Nil
  then have "s\<lparr>ls_w := ls_w s, ls_work := rest, ls_completed := ls_completed s @ map ev_data [], ls_called := ls_called s @ map ev_data []\<rparr> = s"
    by (intro la_sys.equality) simp_all
  then show ?case by (intro exI [of _ "ls_w s"]) simp
next
  case (Cons ev evs)
  let ?rest = "map (\<lambda>ev. (ev, Got)) evs @ rest"
  define w1 where "w1 = complete_event (ev_data ev) (ev_res ev) (ls_w s)"
  define w2 where "w2 = run_callback (\<lambda>cb v w. (verdict cb v, w)) (lo_callback (op_la w1 (ev_data ev))) (PyLong (uint (ev_res ev))) w1"
  define s1 where "s1 = s\<lparr>ls_w := w1, ls_work := [] @ (ev, Stored) # ?rest, ls_completed := ls_completed s @ [ev_data ev]\<rparr>"
  define s2 where "s2 = s1\<lparr>ls_w := w2, ls_work := [] @ (ev, Called) # ?rest, ls_called := ls_called s1 @ [ev_data ev]\<rparr>"
  define s3 where "s3 = s2\<lparr>ls_w := decref_op_la (ev_data ev) w2, ls_work := [] @ ?rest\<rparr>"
  have work: "ls_work s = [] @ (ev, Got) # ?rest" using Cons.prems(4) by simp
  have live: "la_ops (ls_w s) (ev_data ev) \<noteq> None"
    using la_in_flight [OF Cons.prems(1,2) collected_in_place [OF work]] by (metis option.distinct(1))
  have "la_step self A s s1" unfolding s1_def w1_def by (rule la_step.store [OF work])
  moreover have "la_step self A s1 s2"
    using la_step.call [of s1 "[]" ev ?rest self A verdict] by (simp add: s2_def s1_def w2_def)
  moreover have "la_step self A s2 s3" using la_step.release [of s2 "[]" ev ?rest self A] by (simp add: s3_def s2_def)
  ultimately have run: "(la_step self A)\<^sup>*\<^sup>* s s3" by (meson converse_rtranclp_into_rtranclp rtranclp.rtrancl_refl)
  note inv = laio_sys.run_refines [OF run Cons.prems(1,2)]
  have "\<exists>w'. deliver_events env evs (ls_w s3) = Some w' \<and> (la_step self A)\<^sup>*\<^sup>* s3 (s3\<lparr>ls_w := w', ls_work := rest,
      ls_completed := ls_completed s3 @ map ev_data evs, ls_called := ls_called s3 @ map ev_data evs\<rparr>)"
    using inv by (intro Cons.IH Cons.prems(3)) (simp_all add: s3_def)
  then obtain w' where w': "deliver_events env evs (ls_w s3) = Some w'" "(la_step self A)\<^sup>*\<^sup>* s3 (s3\<lparr>ls_w := w', ls_work := rest,
      ls_completed := ls_completed s3 @ map ev_data evs, ls_called := ls_called s3 @ map ev_data evs\<rparr>)" by blast
  have "ls_w s3 = deliver_event env ev (ls_w s)"
    using Cons.prems(3) by (simp add: s3_def w2_def w1_def deliver_event_def Let_def)
  then have "deliver_events env (ev # evs) (ls_w s) = Some w'" using live w'(1) by simp
  moreover have "(la_step self A)\<^sup>*\<^sup>* s (s\<lparr>ls_w := w', ls_work := rest,
      ls_completed := ls_completed s @ map ev_data (ev # evs), ls_called := ls_called s @ map ev_data (ev # evs)\<rparr>)"
    using run w'(2) by (simp add: s3_def s2_def s1_def)
  ultimately show ?case by blast
qed

section \<open>An example: one read\<close>

definition ex_rt :: la_world where
  "ex_rt = \<lparr>refs = (\<lambda>_. 0), mem = Map.empty, bytes_at = (\<lambda>_. NULL), trace = [], la_ops = Map.empty, la_ctxs = Map.empty\<rparr>"

text \<open>A Context at address 1 and a read of three bytes at address 2, its block at 6.\<close>

definition ex_ctx_la :: AIOContext_la where
  "ex_ctx_la = \<lparr>lc_ctx = 77, lc_fileno = 8, lc_max_requests = 4, lc_weakreflist = NULL\<rparr>"

definition ex_la0 :: la_sys where
  "ex_la0 = \<lparr>ls_w = ex_rt\<lparr>refs := (\<lambda>_. 0)(1 := 1), la_ops := Map.empty, la_ctxs := [1 \<mapsto> ex_ctx_la]\<rparr>, ls_kernel = [], ls_events = [],
     ls_work = [], ls_user = (\<lambda>_. 0)(1 := 1), ls_accepted = [], ls_completed = [], ls_called = []\<rparr>"

lemma ex_la0_start: "la_start 1 {2} ex_la0"
proof -
  have init: "AIOContext_init_la (8, 0) (Some 4) (\<lambda>_. (0, 0, 77)) new_ctx_la = (Ret (), ex_ctx_la)"
    by (simp add: AIOContext_init_la_def new_ctx_la_def ex_ctx_la_def word_le_def)
  have lay: "layout_la 1 {2}" by (simp add: layout_la_def)
  from la_start.intros [OF lay init, of 1 ex_rt] show ?thesis by (simp add: ex_la0_def ex_rt_def runtime_ok_def)
qed

definition ex_read_la :: "pyval outcome \<times> la_world" where
  "ex_read_la = AIOOperation_read_la 2 (Some (3, 5, None, None)) 6 4 (ls_w ex_la0)"

definition ex_la1 :: la_sys where
  "ex_la1 = ex_la0\<lparr>ls_w := snd ex_read_la, ls_user := given_la (fst ex_read_la) 2 (ls_user ex_la0)\<rparr>"

lemma ex_la1_step: "la_step 1 {2} ex_la0 ex_la1"
  unfolding ex_la1_def
  by (rule la_step.new_read [where parsed = "Some (3, 5, None, None)" and block = 6 and view = 4])
    (auto simp: ex_la0_def ex_rt_def new_block_def ex_read_la_def blocks_la_def)

lemma ex_la1_op: "\<exists>x. la_ops (ls_w ex_la1) = [2 \<mapsto> x] \<and> lo_in_progress x = 0 \<and> aio_lio_opcode (lo_iocb x) = IOCB_CMD_PREAD \<and>
    aio_nbytes (lo_iocb x) = 3 \<and> ls_user ex_la1 1 = 1"
  by (rule exI [of _ "the (la_ops (ls_w ex_la1) 2)"])
    (simp add: ex_la1_def ex_read_la_def AIOOperation_read_la_def ex_la0_def Let_def)

lemma ex_in_flight:
  obtains s b where "la_reaches 1 {2} s" "0 < ls_user s 1" "ls_accepted s = [2]" "ls_kernel s = [b]" "ls_events s = []" "ls_work s = []"
    "aio_data b = 2" "aio_lio_opcode b = IOCB_CMD_PREAD" "aio_nbytes b = 3"
proof -
  have run: "(la_step 1 {2})\<^sup>*\<^sup>* ex_la0 ex_la1" using ex_la1_step by (rule r_into_rtranclp)
  note inv = laio_sys.reachable_owned [OF ex_la0_start run]
  then have data: "data_la 1 {2} ex_la1" and inv: "own_inv 1 {2} (own_la 1 {2} ex_la1)" by simp_all
  obtain x where x: "la_ops (ls_w ex_la1) = [2 \<mapsto> x]" "lo_in_progress x = 0" "aio_lio_opcode (lo_iocb x) = IOCB_CMD_PREAD" "aio_nbytes (lo_iocb x) = 3"
    and user: "0 < ls_user ex_la1 1" using ex_la1_op by auto
  have rest: "ls_kernel ex_la1 = []" "ls_events ex_la1 = []" "ls_work ex_la1 = []" "ls_accepted ex_la1 = []"
    by (simp_all add: ex_la1_def ex_la0_def)
  let ?env = "ex_env_la 5 []" and ?w = "ls_w ex_la1"
  let ?answer = "\<lambda>ps :: ptr list. if 5 < int (length ps) then 5 else int (length ps)"
  obtain c where c: "ctx_la ?w 1 = c" "lc_ctx c \<noteq> 0" by (rule la_ctxD [OF data inv user])
  note ready = data_la_ready [OF data inv user]
  have free: "free_la ?w 2" using x by (simp add: free_la_def)
  have claim: "fst (claim_all_la 1 [2] ?w) = [2]" using x by (simp add: op_la_def)
  have env: "le_submit ?env = (\<lambda>ctx ps w. (?answer ps, EAGAIN, w))" by (simp add: ex_env_la_def fun_eq_iff)
  obtain r w' where sub: "AIOContext_submit_la ?env 1 (Some [2]) ?w = (r, w')" by fastforce
  have "le_memory ?env" by (simp add: ex_env_la_def)
  then have r: "r = Ret (PyLong 1)"
    using sub c x claim by (auto simp: AIOContext_submit_la_def env io_submit_error_def split: prod.splits)
  then have taken: "taken_la 1 (Some [2]) ?w r = [2]" using claim by (simp add: taken_la_def)
  define s where "s = ex_la1\<lparr>ls_w := w', ls_kernel := ls_kernel ex_la1 @ map (\<lambda>p. lo_iocb (op_la w' p)) [2], ls_accepted := ls_accepted ex_la1 @ [2]\<rparr>"
  have step: "la_step 1 {2} ex_la1 s"
    unfolding s_def by (rule la_step.submit [OF user env _ sub]) (simp_all add: taken [simplified])
  then have reach: "la_reaches 1 {2} s"
    using ex_la0_start run unfolding la_reaches_def by (meson rtranclp.rtrancl_into_rtrancl)
  have le: "?answer ps \<le> int (length ps)" for ps by simp
  obtain acc rej where "claimable_la 1 (acc @ rej) ?w" "w' = submitted_la 1 acc rej ?w" "taken_la 1 (Some [2]) ?w r = acc"
    by (rule submit_effect [OF data inv user env le sub])
  then have w': "w' = submitted_la 1 [2] rej ?w" using taken by simp
  obtain b where b: "b = lo_iocb (op_la w' 2)" by blast
  have "b = lo_iocb (held_la 1 (lc_fileno (ctx_la ?w 1)) x)" using x(1) by (simp add: b w' op_la_def)
  then have b': "aio_lio_opcode b = IOCB_CMD_PREAD" "aio_nbytes b = 3" "aio_data b = 2"
    using x(3,4) la_opD(4) [OF data inv, of 2 x] x(1) by (simp_all add: op_form_la_def)
  show thesis
    by (rule that [OF reach, of b]) (use user rest b b' in \<open>simp_all add: s_def\<close>)
qed

lemma ex_event:
  obtains s where "la_reaches 1 {2} s" "0 < ls_user s 1" "ls_accepted s = [2]" "ls_kernel s = []" "ls_work s = []"
    "ls_events s = [\<lparr>ev_data = 2, ev_res = 3\<rparr>]"
proof -
  obtain s b where s: "la_reaches 1 {2} s" "0 < ls_user s 1" "ls_accepted s = [2]" "ls_kernel s = [b]" "ls_events s = []" "ls_work s = []"
    "aio_data b = 2" "aio_nbytes b = 3" by (rule ex_in_flight)
  define t where "t = s\<lparr>ls_w := kernel_stores b [1, 2, 3] (ls_w s), ls_kernel := [] @ [], ls_events := ls_events s @ [\<lparr>ev_data = aio_data b, ev_res = 3\<rparr>]\<rparr>"
  have "la_step 1 {2} s t" unfolding t_def by (rule la_step.kernel_post) (use s in simp_all)
  then have "la_reaches 1 {2} t" using s(1) unfolding la_reaches_def by (meson rtranclp.rtrancl_into_rtrancl)
  then show thesis by (rule that) (use s in \<open>simp_all add: t_def\<close>)
qed

section \<open>The protocol of references\<close>

text \<open>
  C33. The kernel AIO backend refines the ownership protocol. Every run of the system, with
  its kernel, its rollbacks, its cancellations, its callbacks and its deallocations, in any
  interleaving, is under the mapping \<open>own_la\<close> a run of the protocol, and in every state on
  the way the accounts of the protocol balance.
\<close>

theorem la_refines_protocol:
  assumes "la_start self A s" and "(la_step self A)\<^sup>*\<^sup>* s s'"
  shows "(own_step self A)\<^sup>*\<^sup>* (own_la self A s) (own_la self A s') \<and> own_inv self A (own_la self A s')"
  using laio_sys.reachable_owned [OF assms] by blast

theorem la_refines_protocol_witness:
  "\<exists>s s'. ls_accepted s' = [2] \<and> (la_step 1 {2})\<^sup>*\<^sup>* s s' \<and> (own_step 1 {2})\<^sup>*\<^sup>* (own_la 1 {2} s) (own_la 1 {2} s')"
proof -
  obtain s' where s': "la_reaches 1 {2} s'" "ls_accepted s' = [2]" by (rule ex_event)
  then obtain s where "la_start 1 {2} s" "(la_step 1 {2})\<^sup>*\<^sup>* s s'" by (auto simp: la_reaches_def)
  with s'(2) la_refines_protocol [OF this] show ?thesis by blast
qed

section \<open>Collecting events is safe\<close>

text \<open>
  C34. Collecting events is safe in every state a program can reach, whatever was submitted,
  rolled back, cancelled, dropped or completed before, also from inside a callback and while
  other threads are collecting: when the kernel hands out some of its events, \<^verbatim>\<open>process_events\<close> with valid
  arguments does not crash, returns their number, and its effect is a run of the system that
  completes exactly the operations of these events, calls their callbacks in that order and
  leaves what other calls have collected as it was.
\<close>

theorem la_collect_safe:
  assumes "la_reaches self A s" and "0 < ls_user s self" and "le_memory env" and "le_call env = (\<lambda>cb v w. (verdict cb v, w))"
    and "\<And>ctx m n t. le_getevents env ctx m n t (ls_w s) = (Inr evs, ls_w s)" and "ls_events s = evs @ rest"
    and "0 < max_requests" and "max_requests \<le> MAX_EVENTS_REQUEST" and "min_requests \<le> max_requests"
  shows "\<exists>w'. AIOContext_process_events_la env self (Some (max_requests, min_requests, tv_sec)) (ls_w s) = (Ret (PyLong (int (length evs))), w') \<and>
    (la_step self A)\<^sup>*\<^sup>* s (s\<lparr>ls_w := w', ls_events := rest, ls_completed := ls_completed s @ map ev_data evs,
      ls_called := ls_called s @ map ev_data evs\<rparr>)"
proof -
  note inv = la_reaches_inv [OF assms(1)]
  obtain c where c: "ctx_la (ls_w s) self = c" "lc_ctx c \<noteq> 0" by (rule la_ctxD [OF inv assms(2)])
  let ?s = "s\<lparr>ls_events := rest, ls_work := map (\<lambda>ev. (ev, Got)) evs @ ls_work s\<rparr>"
  have step: "la_step self A s ?s" by (rule la_step.collect [OF assms(2,6)])
  have inv': "data_la self A ?s" "own_inv self A (own_la self A ?s)"
    using laio_sys.run_refines [OF r_into_rtranclp [of "la_step self A", OF step] inv] by simp_all
  have work: "ls_work ?s = map (\<lambda>ev. (ev, Got)) evs @ ls_work s" by simp
  obtain w' where w': "deliver_events env evs (ls_w ?s) = Some w'" "(la_step self A)\<^sup>*\<^sup>* ?s (?s\<lparr>ls_w := w', ls_work := ls_work s,
    ls_completed := ls_completed ?s @ map ev_data evs, ls_called := ls_called ?s @ map ev_data evs\<rparr>)"
    using deliver_events_runs [OF inv' assms(4) work] by blast
  have "?s\<lparr>ls_w := w', ls_work := ls_work s, ls_completed := ls_completed ?s @ map ev_data evs, ls_called := ls_called ?s @ map ev_data evs\<rparr> =
    s\<lparr>ls_w := w', ls_events := rest, ls_completed := ls_completed s @ map ev_data evs, ls_called := ls_called s @ map ev_data evs\<rparr>"
    by simp
  then have "(la_step self A)\<^sup>*\<^sup>* s (s\<lparr>ls_w := w', ls_events := rest, ls_completed := ls_completed s @ map ev_data evs,
      ls_called := ls_called s @ map ev_data evs\<rparr>)"
    using w'(2) step by (metis converse_rtranclp_into_rtranclp)
  moreover have "AIOContext_process_events_la env self (Some (max_requests, min_requests, tv_sec)) (ls_w s) = (Ret (PyLong (int (length evs))), w')"
  proof -
    have "max_requests \<noteq> 0" "\<not> MAX_EVENTS_REQUEST < max_requests" "\<not> max_requests < min_requests"
      using assms(7-9) by (auto simp: not_less)
    then show ?thesis using c assms(3,5) w'(1) by (simp add: AIOContext_process_events_la_def Let_def)
  qed
  ultimately show ?thesis by blast
qed

theorem la_collect_safe_witness:
  "\<exists>(s :: la_sys) w'. ls_accepted s = [2] \<and>
     AIOContext_process_events_la (ex_env_la 0 [\<lparr>ev_data = 2, ev_res = 3\<rparr>]) 1 (Some (8, 0, 0)) (ls_w s) = (Ret (PyLong 1), w')"
proof -
  let ?evs = "[\<lparr>ev_data = 2, ev_res = 3\<rparr>] :: io_event list" and ?env = "ex_env_la 0 [\<lparr>ev_data = 2, ev_res = 3\<rparr>]"
  obtain s where s: "la_reaches 1 {2} s" "0 < ls_user s 1" "ls_accepted s = [2]" "ls_events s = ?evs" by (rule ex_event)
  have env: "le_memory ?env" "le_call ?env = (\<lambda>cb v w. ((\<lambda>cb v. v = PyLong 2) cb v, w))"
    "le_getevents ?env ctx m n t (ls_w s) = (Inr ?evs, ls_w s)" for ctx m n t by (simp_all add: ex_env_la_def)
  have ev: "ls_events s = ?evs @ []" using s(4) by simp
  have "\<exists>w'. AIOContext_process_events_la ?env 1 (Some (8, 0, 0)) (ls_w s) = (Ret (PyLong 1), w')"
    using la_collect_safe [OF s(1,2) env ev, of 8 0 0] by (auto simp: word_le_nat_alt)
  then show ?thesis using s(3) by blast
qed

section \<open>Where an operation is, and what keeps it alive\<close>

text \<open>
  C35. Every operation in flight is in exactly one place: among the requests the kernel has,
  among its events, or collected by a call that has not stored its result yet. Nothing is
  lost or completed twice: what was ever accepted is what was completed together with what
  is in these places, and what was completed is what was called back together with what
  waits for its callback. An operation the kernel refused, or that is free for another
  reason, is in no place and without a Context. The Context has one reference for each
  place, apart from those of the program, and exists as long as one is left.
\<close>

theorem la_places:
  assumes "la_reaches self A s"
  shows "distinct (places_la s) \<and>
    set (places_la s) = {p. \<exists>x. la_ops (ls_w s) p = Some x \<and> lo_in_progress x = 1 \<and> lo_done x = 0} \<and>
    mset (ls_accepted s) = mset (ls_completed s) + mset (places_la s) \<and>
    mset (ls_completed s) = mset (ls_called s) + mset (with_stage (\<lambda>st. st = Stored) s) \<and>
    (\<forall>p x. la_ops (ls_w s) p = Some x \<longrightarrow> lo_context x = (if p \<in> set (places_la s) then self else NULL)) \<and>
    refs (ls_w s) self = int (ls_user s self) + int (length (places_la s)) \<and>
    (la_ctxs (ls_w s) self = None \<longleftrightarrow> refs (ls_w s) self = 0)"
proof (intro conjI allI impI)
  note inv = la_reaches_inv [OF assms]
  have "count (mset (places_la s)) p \<le> 1" for p
    using own_invD(3) [OF inv(2), of p] by (auto simp: own_la_sel counted_def)
  then show "distinct (places_la s)" by (rule distinct_if_count_le_1)
  have flight: "p \<in> set (places_la s) \<longleftrightarrow> lo_in_progress x = 1 \<and> lo_done x = 0" if "la_ops (ls_w s) p = Some x" for p x
    using la_opD(4,6) [OF inv that] by (auto simp: op_form_la_def phase_la_def)
  then show "set (places_la s) = {p. \<exists>x. la_ops (ls_w s) p = Some x \<and> lo_in_progress x = 1 \<and> lo_done x = 0}"
    using absent_not_in_place [OF inv] by (auto simp: set_eq_iff) (metis not_None_eq)
  show "lo_context x = (if p \<in> set (places_la s) then self else NULL)" if "la_ops (ls_w s) p = Some x" for p x
    using la_opD(4) [OF inv that] flight [OF that] by (auto simp: op_form_la_def)
  show "refs (ls_w s) self = int (ls_user s self) + int (length (places_la s))"
    using own_invD(2) [OF inv(2)] by (simp add: own_la_def)
  show "la_ctxs (ls_w s) self = None \<longleftrightarrow> refs (ls_w s) self = 0"
    using inv(1) by (auto simp: data_la_def split: option.splits)
qed (use la_reaches_inv(1) [OF assms] in \<open>simp_all add: data_la_def history_la_def\<close>)

theorem la_places_witness:
  "\<exists>(s :: la_sys). ls_accepted s = [2] \<and> places_la s = [2] \<and> ls_completed s = [] \<and> refs (ls_w s) 1 = int (ls_user s 1) + 1"
proof -
  obtain s where s: "la_reaches 1 {2} s" "ls_accepted s = [2]" "ls_kernel s = []" "ls_work s = []" "ls_events s = [\<lparr>ev_data = 2, ev_res = 3\<rparr>]"
    by (rule ex_event)
  have pl: "places_la s = [2]" using s(3-5) by (simp add: places_la_def with_stage_def)
  from la_places [OF s(1)] have "mset (ls_accepted s) = mset (ls_completed s) + mset (places_la s)"
    and r: "refs (ls_w s) 1 = int (ls_user s 1) + int (length (places_la s))" by blast+
  then have "ls_completed s = []" using pl s(2) by simp
  then show ?thesis using pl r s(2) by auto
qed

section \<open>The memory of requests and results\<close>

text \<open>The block a request points to, if it is to read or write.\<close>

definition valid_request :: "la_world \<Rightarrow> iocb \<Rightarrow> bool" where
  "valid_request w b \<longleftrightarrow> aio_lio_opcode b \<in> {IOCB_CMD_PREAD, IOCB_CMD_PWRITE} \<longrightarrow>
     (if aio_buf b = NULL then aio_nbytes b = 0
      else \<exists>bs. mem w (aio_buf b) = Some bs \<and> unat (aio_nbytes b) \<le> length bs)"

lemma buffer_valid: "buffer_la w x \<Longrightarrow> valid_request w (lo_iocb x)"
  by (auto simp: buffer_la_def valid_request_def storage_def Let_def split: if_splits)

lemma place_valid:
  assumes "data_la self A s" "own_inv self A (own_la self A s)" and "mem_la self A s" and "p \<in> set (places_la s)"
  shows "\<exists>x. la_ops (ls_w s) p = Some x \<and> lo_in_progress x = 1 \<and> lo_done x = 0 \<and> valid_request (ls_w s) (lo_iocb x)"
  using la_in_flight [OF assms(1,2,4)] mem_laD(4) [OF assms(3)] buffer_valid by metis

text \<open>
  C36. Memory safety. The kernel never reads or writes memory that is gone, whatever
  references the program has dropped meanwhile. Every request it has accepted, of any
  opcode, is the control block of an operation that exists and is still in flight; and so
  does and is the operation of every event the kernel has posted and of every event a call
  has collected without having stored its result yet. For all of these operations that read
  or write, the control block points to a live block that is at least as long as the request
  (or to nothing, with length 0). And \<^verbatim>\<open>get_value\<close> on any Operation at any time
  accesses valid memory: for a read that completed without error it is the object of the
  first bytes of the block, as many as the kernel reported.
\<close>

theorem la_memory_safe:
  assumes "la_reaches self A s"
  shows "(\<forall>b\<in>set (ls_kernel s). \<exists>x. la_ops (ls_w s) (aio_data b) = Some x \<and> lo_in_progress x = 1 \<and> lo_done x = 0 \<and>
      lo_iocb x = b \<and> valid_request (ls_w s) b) \<and>
    (\<forall>ev. ev \<in> set (ls_events s) \<or> (ev, Got) \<in> set (ls_work s) \<longrightarrow> (\<exists>x. la_ops (ls_w s) (ev_data ev) = Some x \<and>
      lo_in_progress x = 1 \<and> lo_done x = 0 \<and> valid_request (ls_w s) (lo_iocb x))) \<and>
    (\<forall>p x. la_ops (ls_w s) p = Some x \<longrightarrow> AIOOperation_get_value_la p (ls_w s) \<noteq> Crash \<and>
      (lo_done x = 1 \<and> lo_error x = 0 \<and> aio_lio_opcode (lo_iocb x) = IOCB_CMD_PREAD \<and> lo_buffer x \<noteq> NULL \<longrightarrow>
        AIOOperation_get_value_la p (ls_w s) = Ret (PyBytes (take (unat (aio_nbytes (lo_iocb x))) (the (mem (ls_w s) (lo_buffer x)))))))"
proof (intro conjI ballI allI impI)
  note inv = la_reaches_inv [OF assms] and mem = la_reaches_mem [OF assms]
  fix b assume b: "b \<in> set (ls_kernel s)"
  obtain x where x: "la_ops (ls_w s) (aio_data b) = Some x" "lo_iocb x = b" using mem_laD(5) [OF mem] b by (auto simp: entries_la_def)
  have "aio_data b \<in> set (places_la s)" using b by (simp add: places_la_def)
  then show "\<exists>x. la_ops (ls_w s) (aio_data b) = Some x \<and> lo_in_progress x = 1 \<and> lo_done x = 0 \<and> lo_iocb x = b \<and>
      valid_request (ls_w s) b"
    using place_valid [OF inv mem] x by fastforce
next
  note inv = la_reaches_inv [OF assms] and mem = la_reaches_mem [OF assms]
  fix ev assume "ev \<in> set (ls_events s) \<or> (ev, Got) \<in> set (ls_work s)"
  then have "ev_data ev \<in> set (places_la s)" by (force simp: places_la_def with_stage_def)
  then show "\<exists>x. la_ops (ls_w s) (ev_data ev) = Some x \<and> lo_in_progress x = 1 \<and> lo_done x = 0 \<and> valid_request (ls_w s) (lo_iocb x)"
    by (rule place_valid [OF inv mem])
next
  note inv = la_reaches_inv [OF assms] and mem = la_reaches_mem [OF assms]
  fix p x assume x: "la_ops (ls_w s) p = Some x"
  have bytes: "PyBytes_FromStringAndSize (lo_buffer x) (aio_nbytes (lo_iocb x)) (ls_w s) =
      Ret (PyBytes (take (unat (aio_nbytes (lo_iocb x))) (the (mem (ls_w s) (lo_buffer x)))))"
    if rd: "aio_lio_opcode (lo_iocb x) = IOCB_CMD_PREAD" "lo_buffer x \<noteq> NULL"
  proof -
    obtain bs where bs: "mem (ls_w s) (lo_buffer x) = Some bs" "unat (aio_nbytes (lo_iocb x)) \<le> length bs" "length bs < 2 ^ 63"
      using mem_laD(4) [OF mem x] rd by (auto simp: buffer_la_def Let_def)
    then have "0 \<le> sint (aio_nbytes (lo_iocb x))" by (intro sint_of_small) simp
    then show ?thesis using bs by (simp add: PyBytes_FromStringAndSize_def)
  qed
  have x': "op_la (ls_w s) p = x" using x by (simp add: op_la_def)
  show "AIOOperation_get_value_la p (ls_w s) \<noteq> Crash" using bytes by (auto simp: AIOOperation_get_value_la_def x' Let_def)
  show "AIOOperation_get_value_la p (ls_w s) = Ret (PyBytes (take (unat (aio_nbytes (lo_iocb x))) (the (mem (ls_w s) (lo_buffer x)))))"
    if "lo_done x = 1 \<and> lo_error x = 0 \<and> aio_lio_opcode (lo_iocb x) = IOCB_CMD_PREAD \<and> lo_buffer x \<noteq> NULL"
    using that bytes by (simp add: AIOOperation_get_value_la_def x' Let_def)
qed

theorem la_memory_safe_witness:
  "\<exists>(s :: la_sys) b bs. ls_accepted s = [2] \<and> ls_kernel s = [b] \<and> aio_lio_opcode b = IOCB_CMD_PREAD \<and>
     mem (ls_w s) (aio_buf b) = Some bs \<and> 3 \<le> length bs"
proof -
  obtain s b where s: "la_reaches 1 {2} s" "ls_accepted s = [2]" "ls_kernel s = [b]" "aio_lio_opcode b = IOCB_CMD_PREAD" "aio_nbytes b = 3"
    by (rule ex_in_flight)
  have "if aio_buf b = NULL then aio_nbytes b = 0 else \<exists>bs. mem (ls_w s) (aio_buf b) = Some bs \<and> unat (aio_nbytes b) \<le> length bs"
    using la_memory_safe [OF s(1)] s(3,4) by (auto simp: valid_request_def)
  then show ?thesis using s(2-5) by (auto split: if_splits)
qed

section \<open>Everything accepted can complete\<close>

definition same_rest :: "la_sys \<Rightarrow> la_sys \<Rightarrow> bool" where
  "same_rest s s' \<longleftrightarrow> ls_kernel s' = ls_kernel s \<and> ls_events s' = ls_events s \<and> ls_user s' = ls_user s \<and> ls_accepted s' = ls_accepted s"

text \<open>An event that was collected can be brought to its end, from any of its stages.\<close>

lemma finish_one:
  "ls_work s = (ev, st) # rest \<Longrightarrow> \<exists>s'. (la_step self A)\<^sup>*\<^sup>* s s' \<and> ls_work s' = rest \<and> same_rest s s'"
proof -
  have called: "\<exists>s'. (la_step self A)\<^sup>*\<^sup>* s s' \<and> ls_work s' = rest \<and> same_rest s s'" if "ls_work s = (ev, Called) # rest" for s
    using la_step.release [of s "[]" ev rest self A] that
    by (intro exI [of _ "s\<lparr>ls_w := decref_op_la (ev_data ev) (ls_w s), ls_work := [] @ rest\<rparr>"]) (auto simp: same_rest_def)
  have stored: "\<exists>s'. (la_step self A)\<^sup>*\<^sup>* s s' \<and> ls_work s' = rest \<and> same_rest s s'" if "ls_work s = (ev, Stored) # rest" for s
  proof -
    let ?t = "s\<lparr>ls_w := run_callback (\<lambda>cb v w. (True, w)) (lo_callback (op_la (ls_w s) (ev_data ev))) (PyLong (uint (ev_res ev))) (ls_w s),
      ls_work := [] @ (ev, Called) # rest, ls_called := ls_called s @ [ev_data ev]\<rparr>"
    have "la_step self A s ?t" using la_step.call [of s "[]" ev rest self A "\<lambda>_ _. True"] that by simp
    moreover have "same_rest s ?t" by (simp add: same_rest_def)
    ultimately show ?thesis using called [of ?t] unfolding same_rest_def by (auto intro: converse_rtranclp_into_rtranclp)
  qed
  have got: "\<exists>s'. (la_step self A)\<^sup>*\<^sup>* s s' \<and> ls_work s' = rest \<and> same_rest s s'" if "ls_work s = (ev, Got) # rest" for s
  proof -
    let ?t = "s\<lparr>ls_w := complete_event (ev_data ev) (ev_res ev) (ls_w s), ls_work := [] @ (ev, Stored) # rest, ls_completed := ls_completed s @ [ev_data ev]\<rparr>"
    have "la_step self A s ?t" using la_step.store [of s "[]" ev rest self A] that by simp
    moreover have "same_rest s ?t" by (simp add: same_rest_def)
    ultimately show ?thesis using stored [of ?t] unfolding same_rest_def by (auto intro: converse_rtranclp_into_rtranclp)
  qed
  show "ls_work s = (ev, st) # rest \<Longrightarrow> ?thesis" using called stored got by (cases st) simp_all
qed

lemma finish_la_work: "\<exists>s'. (la_step self A)\<^sup>*\<^sup>* s s' \<and> ls_work s' = [] \<and> same_rest s s'"
proof (induction "ls_work s" arbitrary: s)
  case Nil
  then show ?case by (intro exI [of _ s]) (simp add: same_rest_def)
next
  case (Cons e rest)
  obtain ev st where "e = (ev, st)" by (cases e)
  then obtain t where t: "(la_step self A)\<^sup>*\<^sup>* s t" "ls_work t = rest" "same_rest s t"
    using finish_one [of s ev st rest self A] Cons.hyps(2) by metis
  obtain s' where "(la_step self A)\<^sup>*\<^sup>* t s'" "ls_work s' = []" "same_rest t s'" using Cons.hyps(1) [of t] t(2) by blast
  then show ?case using t unfolding same_rest_def by (intro exI [of _ s']) (auto intro: rtranclp_trans)
qed

lemma kernel_finishes:
  "\<exists>s'. (la_step self A)\<^sup>*\<^sup>* s s' \<and> ls_kernel s' = [] \<and> ls_user s' = ls_user s \<and> ls_accepted s' = ls_accepted s"
proof (induction "ls_kernel s" arbitrary: s)
  case Nil
  then show ?case by (intro exI [of _ s]) simp
next
  case (Cons b bs)
  obtain t where t: "la_step self A s t" "ls_kernel t = bs" "ls_user t = ls_user s" "ls_accepted t = ls_accepted s"
    using la_step.kernel_post [of s "[]" b bs 0 self A "[]"] Cons.hyps(2) by force
  obtain s' where "(la_step self A)\<^sup>*\<^sup>* t s'" "ls_kernel s' = []" "ls_user s' = ls_user t" "ls_accepted s' = ls_accepted t"
    using Cons.hyps(1) [of t] t(2) by blast
  then show ?case using t by (intro exI [of _ s']) (auto intro: converse_rtranclp_into_rtranclp)
qed

text \<open>
  C37. Nothing accepted can get stuck. From every state a program can reach, as long as it
  still holds the Context, there is a run in which only the kernel works and the program
  collects events, at the end of which every operation ever accepted has been completed and
  called back, each once, nothing is left with the kernel, among its events or half
  delivered, and the Context has the references of the program only.
\<close>

theorem la_all_complete:
  assumes "la_reaches self A s" and "0 < ls_user s self"
  shows "\<exists>s'. (la_step self A)\<^sup>*\<^sup>* s s' \<and> places_la s' = [] \<and> ls_work s' = [] \<and> ls_accepted s' = ls_accepted s \<and>
    mset (ls_called s') = mset (ls_accepted s) \<and> refs (ls_w s') self = int (ls_user s self)"
proof -
  obtain t where t: "(la_step self A)\<^sup>*\<^sup>* s t" "ls_kernel t = []" "ls_user t = ls_user s" "ls_accepted t = ls_accepted s"
    using kernel_finishes by blast
  define u where "u = t\<lparr>ls_events := [], ls_work := map (\<lambda>ev. (ev, Got)) (ls_events t) @ ls_work t\<rparr>"
  have "la_step self A t u" unfolding u_def using assms(2) t(3) by (intro la_step.collect) simp_all
  then have su: "(la_step self A)\<^sup>*\<^sup>* s u" using t(1) by (rule rtranclp.rtrancl_into_rtrancl [rotated])
  obtain s' where s': "(la_step self A)\<^sup>*\<^sup>* u s'" "ls_work s' = []" "same_rest u s'" using finish_la_work by blast
  have run: "(la_step self A)\<^sup>*\<^sup>* s s'" using su s'(1) by (rule rtranclp_trans)
  note inv = laio_sys.run_refines [OF run la_reaches_inv [OF assms(1)]]
  have pl: "places_la s' = []" using s'(2,3) t(2) by (simp add: places_la_def with_stage_def same_rest_def u_def)
  have same: "ls_accepted s' = ls_accepted s" "ls_user s' = ls_user s" using s'(3) t(3,4) by (simp_all add: same_rest_def u_def)
  have "mset (ls_called s') = mset (ls_accepted s)" using inv pl s'(2) same by (simp add: data_la_def history_la_def with_stage_def)
  moreover have "refs (ls_w s') self = int (ls_user s self)"
    using own_invD(2) [of self A "own_la self A s'"] inv pl same by (simp add: own_la_def)
  ultimately show ?thesis using run pl s'(2) same by blast
qed

theorem la_all_complete_witness:
  "\<exists>s s'. (la_step 1 {2})\<^sup>*\<^sup>* s s' \<and> ls_accepted s = [2] \<and> ls_kernel s \<noteq> [] \<and> mset (ls_called s') = {#2#} \<and> places_la s' = []"
proof -
  obtain s b where s: "la_reaches 1 {2} s" "0 < ls_user s 1" "ls_accepted s = [2]" "ls_kernel s = [b]" by (rule ex_in_flight)
  from la_all_complete [OF s(1,2)] s(3,4) show ?thesis by force
qed

end
