(* ===== verification/Module_Init.thy ===== *)
theory Module_Init
  imports Py_Runtime
begin

text \<open>
  Import of the three C modules: \<^verbatim>\<open>PyInit_thread_aio\<close>, \<^verbatim>\<open>PyInit_linux_aio\<close>,
  \<^verbatim>\<open>PyInit_linux_uring\<close>. The kernel backends check the release of the kernel and try the
  system calls they need before they register anything; what a probe opens they close.

  Outside the repository, and arguments here (\<open>import_env\<close>): the answers of the kernel and
  of the runtime. \<^verbatim>\<open>PyModule_AddObject\<close> takes over the reference to the object, but only when
  it succeeds; a module that is deallocated drops the references of its dictionary.
\<close>

section \<open>The release of the kernel\<close>

text \<open>
  \<^verbatim>\<open>sscanf(release, "%d.%d", &major, &minor)\<close>. A conversion skips white space, takes a sign
  and then needs a digit; the first one that fails ends the scan and leaves its variable as
  it was, at 0. (Numbers too large for an int, undefined in C, are read as they are.)
\<close>

definition is_digit :: "char \<Rightarrow> bool" where
  "is_digit c \<longleftrightarrow> 48 \<le> (of_char c :: nat) \<and> (of_char c :: nat) \<le> 57"

definition is_space :: "char \<Rightarrow> bool" where
  "is_space c \<longleftrightarrow> (of_char c :: nat) = 32 \<or> 9 \<le> (of_char c :: nat) \<and> (of_char c :: nat) \<le> 13"

fun scan_digits :: "nat \<Rightarrow> string \<Rightarrow> nat \<times> string" where
  "scan_digits n [] = (n, [])"
| "scan_digits n (c # cs) = (if is_digit c then scan_digits (10 * n + (of_char c - 48)) cs else (n, c # cs))"

definition scan_sign :: "string \<Rightarrow> int \<times> string" where
  "scan_sign s = (case s of [] \<Rightarrow> (1, [])
     | c # cs \<Rightarrow> if c = CHR ''-'' then (- 1, cs) else if c = CHR ''+'' then (1, cs) else (1, s))"

definition scan_int :: "string \<Rightarrow> (int \<times> string) option" where
  "scan_int s =
     (let (sign, s) = scan_sign (dropWhile is_space s)
      in case s of [] \<Rightarrow> None
         | c # _ \<Rightarrow> if is_digit c then (let (n, rest) = scan_digits 0 s in Some (sign * int n, rest)) else None)"

definition scan_release :: "string \<Rightarrow> int \<times> int" where
  "scan_release s =
     (case scan_int s of None \<Rightarrow> (0, 0)
      | Some (major, s) \<Rightarrow>
          (case s of [] \<Rightarrow> (major, 0)
           | c # s \<Rightarrow> if c = CHR ''.'' then (case scan_int s of None \<Rightarrow> (major, 0) | Some (minor, _) \<Rightarrow> (major, minor))
                      else (major, 0)))"

text \<open>How the kernel prints the numbers.\<close>

fun digits :: "nat \<Rightarrow> string" where
  "digits n = (if n < 10 then [char_of (48 + n)] else digits (n div 10) @ [char_of (48 + n mod 10)])"

declare digits.simps [simp del]

definition ends_number :: "string \<Rightarrow> bool" where
  "ends_number s \<longleftrightarrow> (case s of [] \<Rightarrow> True | c # _ \<Rightarrow> \<not> is_digit c)"

lemma of_char_digit: "n < 10 \<Longrightarrow> of_char (char_of (48 + n :: nat)) = 48 + n"
  by simp

lemma is_digit_char: "n < 10 \<Longrightarrow> is_digit (char_of (48 + n :: nat))"
  by (simp add: is_digit_def)

lemma scan_digits_stops: "ends_number s \<Longrightarrow> scan_digits n s = (n, s)"
  by (cases s) (simp_all add: ends_number_def)

lemma scan_digits_snoc:
  "scan_digits n (digits k @ s) = scan_digits (n * 10 ^ length (digits k) + k) s"
proof (induction k arbitrary: n s rule: digits.induct)
  case (1 k)
  show ?case
  proof (cases "k < 10")
    case True
    then show ?thesis by (simp add: digits.simps [of k] is_digit_char of_char_digit mult.commute)
  next
    case False
    have "scan_digits n (digits k @ s) = scan_digits n (digits (k div 10) @ char_of (48 + k mod 10) # s)"
      using False by (simp add: digits.simps [of k])
    also have "\<dots> = scan_digits (n * 10 ^ length (digits (k div 10)) + k div 10) (char_of (48 + k mod 10) # s)"
      by (rule "1.IH" [OF False])
    also have "\<dots> = scan_digits (10 * (n * 10 ^ length (digits (k div 10)) + k div 10) + k mod 10) s"
      using is_digit_char [of "k mod 10"] of_char_digit [of "k mod 10"] by simp
    also have "10 * (n * 10 ^ length (digits (k div 10)) + k div 10) + k mod 10 =
        n * 10 ^ length (digits k) + k"
      using False by (simp add: digits.simps [of k] algebra_simps)
    finally show ?thesis .
  qed
qed

lemma digits_first: "\<exists>c cs. digits n = c # cs \<and> is_digit c"
proof (induction n rule: digits.induct)
  case (1 n)
  then show ?case by (cases "n < 10") (auto simp: digits.simps [of n] is_digit_char)
qed

lemma digit_no_sign: "is_digit c \<Longrightarrow> \<not> is_space c \<and> c \<noteq> CHR ''-'' \<and> c \<noteq> CHR ''+''"
  by (auto simp: is_digit_def is_space_def)

lemma scan_int_digits: "ends_number s \<Longrightarrow> scan_int (digits n @ s) = Some (int n, s)"
proof -
  assume s: "ends_number s"
  obtain c cs where c: "digits n = c # cs" "is_digit c" using digits_first by blast
  have "scan_digits 0 (digits n @ s) = (n, s)" using scan_digits_snoc [of 0 n s] scan_digits_stops [OF s] by simp
  with c digit_no_sign [OF c(2)] show ?thesis by (simp add: scan_int_def scan_sign_def)
qed

lemma scan_release_printed:
  assumes "ends_number rest"
  shows "scan_release (digits major @ ''.'' @ digits minor @ rest) = (int major, int minor)"
proof -
  have "ends_number (''.'' @ digits minor @ rest)" by (simp add: ends_number_def is_digit_def)
  note scan_int_digits [OF this, of major] scan_int_digits [OF assms, of minor]
  then show ?thesis by (simp add: scan_release_def)
qed

section \<open>The state of an import\<close>

text \<open>
  \<open>mw_fds\<close> and \<open>mw_aio\<close> are the descriptors and kernel AIO contexts the probes have open,
  \<open>mw_dict\<close> the dictionary of a module.
\<close>

record mod_world = pyrt +
  mw_fds :: "int list"
  mw_aio :: "u64 list"
  mw_dict :: "ptr \<Rightarrow> (string \<times> ptr) list"
  mw_kernel_support :: int

text \<open>
  The answers: \<open>im_uname\<close> is the release or the failure of \<^verbatim>\<open>uname\<close>; the system calls give
  their result and \<^verbatim>\<open>errno\<close> (\<open>im_uring_setup\<close> is asked with the flags); \<open>im_module\<close> is what
  \<^verbatim>\<open>PyModule_Create\<close> returns; \<open>im_gil\<close> is \<^verbatim>\<open>CAIO_DECLARE_FREE_THREADED\<close>, 0 in a build with the
  interpreter lock. The static types and the two truth values have fixed addresses.
\<close>

record import_env =
  im_uname :: "string option"
  im_io_setup :: "int \<times> int \<times> u64"
  im_io_destroy :: "int \<times> int"
  im_uring_setup :: "u32 \<Rightarrow> int \<times> int"
  im_enosys :: int
  im_module :: ptr
  im_gil :: int
  im_ready :: "ptr \<Rightarrow> int"
  im_add :: "string \<Rightarrow> int"
  im_context :: ptr
  im_operation :: ptr
  im_bool :: "bool \<Rightarrow> ptr"

definition module_dealloc :: "ptr \<Rightarrow> mod_world \<Rightarrow> mod_world" where
  "module_dealloc m w =
     emit (Ev_Dealloc m) (fold (\<lambda>(_, p). Py_DECREF p) (mw_dict w m) (w\<lparr>mw_dict := (mw_dict w)(m := [])\<rparr>))"

definition decref_module :: "ptr \<Rightarrow> mod_world \<Rightarrow> mod_world" where
  "decref_module = decref_with module_dealloc"

definition PyModule_Create :: "import_env \<Rightarrow> mod_world \<Rightarrow> ptr \<times> mod_world" where
  "PyModule_Create env w =
     (let m = im_module env
      in (m, if m = NULL then w else w\<lparr>refs := (refs w)(m := 1), mw_dict := (mw_dict w)(m := [])\<rparr>))"

definition PyModule_AddObject :: "import_env \<Rightarrow> ptr \<Rightarrow> string \<Rightarrow> ptr \<Rightarrow> mod_world \<Rightarrow> int \<times> mod_world" where
  "PyModule_AddObject env m name p w =
     (im_add env name, if im_add env name < 0 then w else w\<lparr>mw_dict := (mw_dict w)(m := mw_dict w m @ [(name, p)])\<rparr>)"

section \<open>Registering the types\<close>

text \<open>A reference for the dictionary; if it is not taken, it and the module are dropped.\<close>

definition add_type :: "import_env \<Rightarrow> ptr \<Rightarrow> string \<Rightarrow> ptr \<Rightarrow> mod_world \<Rightarrow> bool \<times> mod_world" where
  "add_type env m name tp w =
     (let w = Py_INCREF tp w;
          (r, w) = PyModule_AddObject env m name tp w
      in if r < 0 then (False, decref_module m (Py_DECREF tp w)) else (True, w))"

text \<open>The end of \<^verbatim>\<open>PyInit_thread_aio\<close> and of \<^verbatim>\<open>PyInit_linux_aio\<close>: one type after the other.\<close>

definition add_types :: "import_env \<Rightarrow> ptr \<Rightarrow> mod_world \<Rightarrow> pyval outcome \<times> mod_world" where
  "add_types env m w =
     (if im_ready env (im_context env) < 0 then (Raise PyErr_Pending, w)
      else let (ok, w) = add_type env m ''Context'' (im_context env) w in
        if \<not> ok then (Raise PyErr_Pending, w)
        else if im_ready env (im_operation env) < 0 then (Raise PyErr_Pending, w)
        else let (ok, w) = add_type env m ''Operation'' (im_operation env) w in
          (if ok then Ret (PyObj m) else Raise PyErr_Pending, w))"

text \<open>The end of \<^verbatim>\<open>PyInit_linux_uring\<close>: both types are made ready first.\<close>

definition add_types_ur :: "import_env \<Rightarrow> ptr \<Rightarrow> mod_world \<Rightarrow> pyval outcome \<times> mod_world" where
  "add_types_ur env m w =
     (if im_ready env (im_context env) < 0 then (Raise PyErr_Pending, w)
      else if im_ready env (im_operation env) < 0 then (Raise PyErr_Pending, w)
      else let (ok, w) = add_type env m ''Context'' (im_context env) w in
        if \<not> ok then (Raise PyErr_Pending, w)
        else let (ok, w) = add_type env m ''Operation'' (im_operation env) w in
          (if ok then Ret (PyObj m) else Raise PyErr_Pending, w))"

definition PyInit_thread_aio :: "import_env \<Rightarrow> mod_world \<Rightarrow> pyval outcome \<times> mod_world" where
  "PyInit_thread_aio env w =
     (let (m, w) = PyModule_Create env w
      in if m = NULL then (Raise PyErr_Pending, w)
         else if im_gil env < 0 then (Raise PyErr_Pending, decref_module m w)
         else add_types env m w)"

section \<open>\<^verbatim>\<open>PyInit_linux_aio\<close>\<close>

text \<open>The version check, then a kernel AIO context is created and destroyed.\<close>

definition kernel_support_la :: "int \<times> int \<Rightarrow> bool" where
  "kernel_support_la release = (fst release > 4 \<or> fst release = 4 \<and> snd release \<ge> 18)"

definition PyInit_linux_aio :: "import_env \<Rightarrow> mod_world \<Rightarrow> pyval outcome \<times> mod_world" where
  "PyInit_linux_aio env w =
     (case im_uname env of
        None \<Rightarrow> (Raise (PyErr_SetString PyExc_ImportError ''Can not detect linux kernel version''), w)
      | Some release \<Rightarrow>
          let ok = kernel_support_la (scan_release release);
              w = w\<lparr>mw_kernel_support := (if ok then 1 else 0)\<rparr>
          in if \<not> ok then
               (Raise (PyErr_SetString PyExc_ImportError
                  (''Linux kernel supported since 4.18 but current kernel is '' @ release @ ''.'')), w)
             else
               let (r, e, temp_ctx) = im_io_setup env
               in if r < 0 then (Raise (PyErr_Format PyExc_ImportError ''Error on io_setup with code %d'' [e]), w)
                  else
                    let w = w\<lparr>mw_aio := temp_ctx # mw_aio w\<rparr>;
                        (r, e) = im_io_destroy env
                    in if r \<noteq> 0 then
                         (Raise (PyErr_Format PyExc_ImportError ''Error on io_destroy with code %d'' [e]), w)
                       else
                         let w = emit (Ev_IoDestroy temp_ctx) (w\<lparr>mw_aio := remove1 temp_ctx (mw_aio w)\<rparr>);
                             (m, w) = PyModule_Create env w
                         in if m = NULL then (Raise PyErr_Pending, w)
                            else if im_gil env < 0 then (Raise PyErr_Pending, decref_module m w)
                            else add_types env m w)"

section \<open>\<^verbatim>\<open>PyInit_linux_uring\<close>\<close>

definition SETUP_SQPOLL :: u32 where "SETUP_SQPOLL = 2"

definition kernel_support_ur :: "int \<times> int \<Rightarrow> bool" where
  "kernel_support_ur release = (fst release > 5 \<or> fst release = 5 \<and> snd release \<ge> 6)"

text \<open>
  The error of the first probe: the advice on seccomp filters for \<^verbatim>\<open>ENOSYS\<close>, else the error
  number (the code prints its \<^verbatim>\<open>strerror\<close>).
\<close>

definition probe_error :: "import_env \<Rightarrow> string \<Rightarrow> int \<Rightarrow> pyexc" where
  "probe_error env release e =
     (if e = im_enosys env then
        PyErr_SetString PyExc_ImportError
          (''io_uring_setup failed: syscall not available (ENOSYS). '' @
           ''This usually means a seccomp filter is blocking io_uring. To fix:'' @ [CHR 0x0A] @
           ''  Docker/Podman : add --security-opt seccomp=unconfined'' @ [CHR 0x0A] @
           ''  Kubernetes    : set securityContext.seccompProfile.type=Unconfined'' @ [CHR 0x0A] @
           ''  OrbStack      : use a plain Linux VM instead of a container context'' @ [CHR 0x0A] @
           ''Kernel: '' @ release)
      else PyErr_Format PyExc_ImportError ''io_uring_setup probe failed: %s'' [e])"

text \<open>Opening a ring and closing it again, if it was opened.\<close>

definition probe_open :: "import_env \<Rightarrow> u32 \<Rightarrow> mod_world \<Rightarrow> int \<times> int \<times> mod_world" where
  "probe_open env flags w =
     (let (fd, e) = im_uring_setup env flags
      in (fd, e, if fd < 0 then w else w\<lparr>mw_fds := fd # mw_fds w\<rparr>))"

definition probe_close :: "int \<Rightarrow> mod_world \<Rightarrow> mod_world" where
  "probe_close fd w = emit (Ev_Close fd) (w\<lparr>mw_fds := remove1 fd (mw_fds w)\<rparr>)"

definition PyInit_linux_uring :: "import_env \<Rightarrow> mod_world \<Rightarrow> pyval outcome \<times> mod_world" where
  "PyInit_linux_uring env w =
     (case im_uname env of
        None \<Rightarrow> (Raise (PyErr_SetString PyExc_ImportError ''uname() failed''), w)
      | Some release \<Rightarrow>
          if \<not> kernel_support_ur (scan_release release) then
            (Raise (PyErr_SetString PyExc_ImportError
               (''linux_uring requires Linux 5.6+ (IORING_OP_READ/WRITE), current kernel is '' @ release)), w)
          else
            let (fd, e, w) = probe_open env 0 w
            in if fd < 0 then (Raise (probe_error env release e), w)
               else
                 let w = probe_close fd w;
                     (fd, _, w) = probe_open env SETUP_SQPOLL w;
                     sqpoll_allowed = (fd \<ge> 0);
                     w = (if fd \<ge> 0 then probe_close fd w else w);
                     (m, w) = PyModule_Create env w
                 in if m = NULL then (Raise PyErr_Pending, w)
                    else if im_gil env < 0 then (Raise PyErr_Pending, decref_module m w)
                    else
                      let b = im_bool env sqpoll_allowed;
                          (r, w) = PyModule_AddObject env m ''SQPOLL_ALLOWED'' b (Py_INCREF b w)
                      in if r < 0 then (Raise PyErr_Pending, decref_module m w)
                         else add_types_ur env m w)"

section \<open>Frame facts\<close>

named_theorems import_simps \<open>the steps of an import field by field\<close>

lemma mw_frame [import_simps]:
  "mw_fds (emit e w) = mw_fds w" "mw_aio (emit e w) = mw_aio w" "mw_dict (emit e w) = mw_dict w"
  "mw_fds (Py_INCREF p w) = mw_fds w" "mw_aio (Py_INCREF p w) = mw_aio w" "mw_dict (Py_INCREF p w) = mw_dict w"
  "mw_fds (Py_DECREF p w) = mw_fds w" "mw_aio (Py_DECREF p w) = mw_aio w" "mw_dict (Py_DECREF p w) = mw_dict w"
  by (simp_all add: emit_def Py_INCREF_def Py_DECREF_def decref_with_def py_dealloc_def Let_def)

lemma dict_dropped [import_simps]:
  "mw_fds (fold (\<lambda>(_, p). Py_DECREF p) xs w) = mw_fds w"
  "mw_aio (fold (\<lambda>(_, p). Py_DECREF p) xs w) = mw_aio w"
  "mw_dict (fold (\<lambda>(_, p). Py_DECREF p) xs w) = mw_dict w"
  "refs (fold (\<lambda>(_, p). Py_DECREF p) xs w) q = refs w q - int (count_list (map snd xs) q)"
  by (induction xs arbitrary: w) (auto simp: import_simps rt_simps)

text \<open>Dropping the last reference to the module drops those of its dictionary.\<close>

lemma decref_module_last [import_simps]:
  assumes "refs w m = 1"
  shows "mw_fds (decref_module m w) = mw_fds w" "mw_aio (decref_module m w) = mw_aio w"
    "mw_dict (decref_module m w) = (mw_dict w)(m := [])"
    "refs (decref_module m w) q = ((refs w)(m := 0)) q - int (count_list (map snd (mw_dict w m)) q)"
  using assms by (simp_all add: decref_module_def decref_last module_dealloc_def import_simps rt_simps)

section \<open>The outcome of an import\<close>

datatype caio_module = Thread_module | Aio_module | Uring_module

definition PyInit :: "caio_module \<Rightarrow> import_env \<Rightarrow> mod_world \<Rightarrow> pyval outcome \<times> mod_world" where
  "PyInit b = (case b of Thread_module \<Rightarrow> PyInit_thread_aio | Aio_module \<Rightarrow> PyInit_linux_aio
     | Uring_module \<Rightarrow> PyInit_linux_uring)"

text \<open>What the kernel has to offer for each module: from which release on, and which calls.\<close>

definition kernel_offers :: "caio_module \<Rightarrow> int \<times> int \<Rightarrow> import_env \<Rightarrow> bool" where
  "kernel_offers b release env = (case b of
       Thread_module \<Rightarrow> True
     | Aio_module \<Rightarrow> (4 < fst release \<or> fst release = 4 \<and> 18 \<le> snd release) \<and>
         0 \<le> fst (im_io_setup env) \<and> fst (im_io_destroy env) = 0
     | Uring_module \<Rightarrow> (5 < fst release \<or> fst release = 5 \<and> 6 \<le> snd release) \<and> 0 \<le> fst (im_uring_setup env 0))"

text \<open>What the runtime has to do: create the module, make the types ready, take the attributes.\<close>

definition runtime_grants :: "caio_module \<Rightarrow> import_env \<Rightarrow> bool" where
  "runtime_grants b env \<longleftrightarrow> im_module env \<noteq> NULL \<and> 0 \<le> im_gil env \<and>
     (b = Uring_module \<longrightarrow> 0 \<le> im_add env ''SQPOLL_ALLOWED'') \<and>
     0 \<le> im_ready env (im_context env) \<and> 0 \<le> im_ready env (im_operation env) \<and>
     0 \<le> im_add env ''Context'' \<and> 0 \<le> im_add env ''Operation''"

text \<open>The static types and truth values are different objects, and not the new module.\<close>

definition import_ready :: "import_env \<Rightarrow> bool" where
  "import_ready env \<longleftrightarrow> im_context env \<noteq> im_operation env \<and>
     (\<forall>b. im_bool env b \<noteq> im_context env \<and> im_bool env b \<noteq> im_operation env \<and> im_bool env b \<noteq> im_module env) \<and>
     im_module env \<noteq> im_context env \<and> im_module env \<noteq> im_operation env"

lemma add_type_taken:
  "0 \<le> im_add env name \<Longrightarrow> add_type env m name tp w =
     (True, (Py_INCREF tp w)\<lparr>mw_dict := (mw_dict w)(m := mw_dict w m @ [(name, tp)])\<rparr>)"
  by (simp add: add_type_def PyModule_AddObject_def Let_def import_simps)

lemma add_type_refused:
  "im_add env name < 0 \<Longrightarrow> add_type env m name tp w = (False, decref_module m (Py_DECREF tp (Py_INCREF tp w)))"
  by (simp add: add_type_def PyModule_AddObject_def Let_def)

lemmas adding_simps = add_type_taken add_type_refused import_simps rt_simps

text \<open>
  What is left when the types are registered, or not: the references of the world \<open>w\<close> to
  everything but the module, and of a failed import not even the module, unless a type
  could not be made ready.
\<close>

definition outcome_of :: "import_env \<Rightarrow> mod_world \<Rightarrow> bool \<Rightarrow> bool \<Rightarrow> pyval outcome \<times> mod_world \<Rightarrow> bool" where
  "outcome_of env w ready added r \<longleftrightarrow>
     mw_fds (snd r) = mw_fds w \<and> mw_aio (snd r) = mw_aio w \<and>
     (if ready \<and> added then
        fst r = Ret (PyObj (im_module env)) \<and>
        refs (snd r) = (refs w)(im_context env := refs w (im_context env) + 1, im_operation env := refs w (im_operation env) + 1) \<and>
        mw_dict (snd r) = (mw_dict w)(im_module env := mw_dict w (im_module env) @
          [(''Context'', im_context env), (''Operation'', im_operation env)])
      else fst r = Raise PyErr_Pending \<and>
        (ready \<longrightarrow> mw_dict (snd r) = (mw_dict w)(im_module env := []) \<and>
           (\<forall>q. refs (snd r) q = ((refs w)(im_module env := 0)) q - int (count_list (map snd (mw_dict w (im_module env))) q))))"

lemma add_types_outcome:
  assumes "import_ready env" and "refs w (im_module env) = 1"
  shows "outcome_of env w (0 \<le> im_ready env (im_context env) \<and> 0 \<le> im_ready env (im_operation env))
      (0 \<le> im_add env ''Context'' \<and> 0 \<le> im_add env ''Operation'') (add_types env (im_module env) w)"
    and "outcome_of env w (0 \<le> im_ready env (im_context env) \<and> 0 \<le> im_ready env (im_operation env))
      (0 \<le> im_add env ''Context'' \<and> 0 \<le> im_add env ''Operation'') (add_types_ur env (im_module env) w)"
proof -
  note defs = outcome_of_def add_types_def add_types_ur_def Let_def
  have ne: "im_context env \<noteq> im_operation env" "im_operation env \<noteq> im_context env"
      "im_context env \<noteq> im_module env" "im_operation env \<noteq> im_module env"
      "im_module env \<noteq> im_context env" "im_module env \<noteq> im_operation env"
    using assms(1) by (auto simp: import_ready_def)
  show "outcome_of env w (0 \<le> im_ready env (im_context env) \<and> 0 \<le> im_ready env (im_operation env))
      (0 \<le> im_add env ''Context'' \<and> 0 \<le> im_add env ''Operation'') (add_types env (im_module env) w)"
    by (cases "im_ready env (im_context env) < 0"; cases "im_ready env (im_operation env) < 0";
        cases "im_add env ''Context'' < 0"; cases "im_add env ''Operation'' < 0")
      (simp_all add: defs adding_simps ne assms(2) fun_eq_iff not_less)
  show "outcome_of env w (0 \<le> im_ready env (im_context env) \<and> 0 \<le> im_ready env (im_operation env))
      (0 \<le> im_add env ''Context'' \<and> 0 \<le> im_add env ''Operation'') (add_types_ur env (im_module env) w)"
    by (cases "im_ready env (im_context env) < 0"; cases "im_ready env (im_operation env) < 0";
        cases "im_add env ''Context'' < 0"; cases "im_add env ''Operation'' < 0")
      (simp_all add: defs adding_simps ne assms(2) fun_eq_iff not_less)
qed

text \<open>The part of an import after the probes.\<close>

definition sqpoll_value :: "import_env \<Rightarrow> ptr" where
  "sqpoll_value env = im_bool env (0 \<le> fst (im_uring_setup env SETUP_SQPOLL))"

definition attach :: "caio_module \<Rightarrow> import_env \<Rightarrow> mod_world \<Rightarrow> pyval outcome \<times> mod_world" where
  "attach b env w =
     (let (m, w) = PyModule_Create env w
      in if m = NULL then (Raise PyErr_Pending, w)
         else if im_gil env < 0 then (Raise PyErr_Pending, decref_module m w)
         else if b = Uring_module then
           let (r, w) = PyModule_AddObject env m ''SQPOLL_ALLOWED'' (sqpoll_value env) (Py_INCREF (sqpoll_value env) w)
           in if r < 0 then (Raise PyErr_Pending, decref_module m w) else add_types_ur env m w
         else add_types env m w)"

lemma attach_cases:
  "im_module env = NULL \<Longrightarrow> attach b env w = (Raise PyErr_Pending, w)"
  "im_module env \<noteq> NULL \<Longrightarrow> im_gil env < 0 \<Longrightarrow> attach b env w = (Raise PyErr_Pending, decref_module (im_module env)
     (w\<lparr>refs := (refs w)(im_module env := 1), mw_dict := (mw_dict w)(im_module env := [])\<rparr>))"
  "im_module env \<noteq> NULL \<Longrightarrow> 0 \<le> im_gil env \<Longrightarrow> b \<noteq> Uring_module \<Longrightarrow> attach b env w = add_types env (im_module env)
     (w\<lparr>refs := (refs w)(im_module env := 1), mw_dict := (mw_dict w)(im_module env := [])\<rparr>)"
  by (simp_all add: attach_def PyModule_Create_def Let_def)

text \<open>
  The probes leave nothing behind: what they opened is closed, except a kernel AIO context
  that the kernel refuses to destroy.
\<close>

definition probed :: "caio_module \<Rightarrow> import_env \<Rightarrow> mod_world \<Rightarrow> mod_world \<Rightarrow> bool" where
  "probed b env w w' \<longleftrightarrow> refs w' = refs w \<and> mw_dict w' = mw_dict w \<and> mw_fds w' = mw_fds w \<and>
     (b = Aio_module \<and> 0 \<le> fst (im_io_setup env) \<and> fst (im_io_destroy env) \<noteq> 0 \<or> mw_aio w' = mw_aio w)"

lemma import_parts:
  assumes "im_uname env = Some release"
  shows "\<exists>w1. probed b env w w1 \<and>
     (if kernel_offers b (scan_release release) env then PyInit b env w = attach b env w1
      else \<exists>msg ns. PyInit b env w = (Raise (PyErr_Format PyExc_ImportError msg ns), w1))"
proof (cases b)
  case Thread_module
  then show ?thesis
    by (intro exI [of _ w]) (simp add: probed_def kernel_offers_def PyInit_def PyInit_thread_aio_def attach_def PyModule_Create_def Let_def)
next
  case Aio_module
  obtain r e c where call1: "im_io_setup env = (r, e, c)" by (metis surj_pair)
  obtain r' e' where call2: "im_io_destroy env = (r', e')" by (metis surj_pair)
  let ?w0 = "w\<lparr>mw_kernel_support := (if kernel_support_la (scan_release release) then 1 else 0)\<rparr>"
  let ?w1 = "?w0\<lparr>mw_aio := c # mw_aio ?w0\<rparr>"
  let ?w2 = "emit (Ev_IoDestroy c) (?w1\<lparr>mw_aio := remove1 c (mw_aio ?w1)\<rparr>)"
  note defs = Aio_module assms call1 call2 PyInit_def PyInit_linux_aio_def attach_def probed_def
    kernel_offers_def kernel_support_la_def Let_def import_simps rt_simps
  consider "\<not> kernel_support_la (scan_release release) \<or> r < 0"
    | "kernel_support_la (scan_release release)" "0 \<le> r" "r' \<noteq> 0"
    | "kernel_support_la (scan_release release)" "0 \<le> r" "r' = 0" by linarith
  then show ?thesis
  proof cases
    case 1
    then show ?thesis by (intro exI [of _ ?w0]) (auto simp: defs)
  next
    case 2
    then show ?thesis by (intro exI [of _ ?w1]) (auto simp: defs)
  next
    case 3
    then show ?thesis by (intro exI [of _ ?w2]) (auto simp: defs split: prod.splits)
  qed
next
  case Uring_module
  obtain fd e where first: "im_uring_setup env 0 = (fd, e)" by (metis surj_pair)
  obtain fd' e' where second: "im_uring_setup env SETUP_SQPOLL = (fd', e')" by (metis surj_pair)
  let ?w1 = "probe_close fd (w\<lparr>mw_fds := fd # mw_fds w\<rparr>)"
  let ?w2 = "if 0 \<le> fd' then probe_close fd' (?w1\<lparr>mw_fds := fd' # mw_fds ?w1\<rparr>) else ?w1"
  note defs = Uring_module assms first second PyInit_def PyInit_linux_uring_def attach_def probed_def
    kernel_offers_def kernel_support_ur_def probe_open_def probe_close_def sqpoll_value_def
    probe_error_def Let_def import_simps rt_simps
  show ?thesis
  proof (cases "kernel_support_ur (scan_release release) \<and> 0 \<le> fd")
    case False
    then show ?thesis by (intro exI [of _ w]) (auto simp: defs)
  next
    case True
    then show ?thesis by (intro exI [of _ ?w2]) (auto simp: defs split: prod.splits)
  qed
qed

text \<open>What registering leaves, in terms of the world before it.\<close>

definition attributes :: "caio_module \<Rightarrow> import_env \<Rightarrow> (string \<times> ptr) list" where
  "attributes b env = (if b = Uring_module then [(''SQPOLL_ALLOWED'', sqpoll_value env)] else []) @
     [(''Context'', im_context env), (''Operation'', im_operation env)]"

definition types_ready :: "import_env \<Rightarrow> bool" where
  "types_ready env \<longleftrightarrow> 0 \<le> im_ready env (im_context env) \<and> 0 \<le> im_ready env (im_operation env)"

lemma attach_outcome:
  fixes b :: caio_module and env :: import_env and w :: mod_world
  assumes "import_ready env" and "refs w (im_module env) = 0"
  defines "m \<equiv> im_module env" and "r \<equiv> attach b env w"
  shows "mw_fds (snd r) = mw_fds w \<and> mw_aio (snd r) = mw_aio w \<and>
    (if runtime_grants b env then
       fst r = Ret (PyObj m) \<and> mw_dict (snd r) m = attributes b env \<and>
       (\<forall>q. refs (snd r) q = refs w q + (if q = m then 1 else 0) + int (count_list (map snd (attributes b env)) q))
     else fst r = Raise PyErr_Pending \<and>
       (types_ready env \<and> (b = Uring_module \<longrightarrow> 0 \<le> im_add env ''SQPOLL_ALLOWED'') \<longrightarrow> refs (snd r) = refs w))"
proof -
  let ?w1 = "w\<lparr>refs := (refs w)(m := 1), mw_dict := (mw_dict w)(m := [])\<rparr>"
  have ne: "im_context env \<noteq> im_operation env" "im_operation env \<noteq> im_context env"
      "im_context env \<noteq> m" "im_operation env \<noteq> m" "m \<noteq> im_context env" "m \<noteq> im_operation env"
      "sqpoll_value env \<noteq> m" "sqpoll_value env \<noteq> im_context env" "sqpoll_value env \<noteq> im_operation env"
    using assms(1) by (auto simp: import_ready_def sqpoll_value_def m_def)
  consider "m = NULL \<or> im_gil env < 0"
    | "m \<noteq> NULL" "0 \<le> im_gil env" "b \<noteq> Uring_module"
    | "m \<noteq> NULL" "0 \<le> im_gil env" "b = Uring_module" "im_add env ''SQPOLL_ALLOWED'' < 0"
    | "m \<noteq> NULL" "0 \<le> im_gil env" "b = Uring_module" "0 \<le> im_add env ''SQPOLL_ALLOWED''"
    by linarith
  then show ?thesis
  proof cases
    case 1
    then show ?thesis using assms(2)
      by (cases "m = NULL") (auto simp: r_def attach_cases runtime_grants_def m_def adding_simps fun_eq_iff)
  next
    case 2
    have "outcome_of env ?w1 (types_ready env) (0 \<le> im_add env ''Context'' \<and> 0 \<le> im_add env ''Operation'') r"
      unfolding r_def types_ready_def using 2 add_types_outcome(1) [of env ?w1] assms(1)
      by (simp add: attach_def PyModule_Create_def Let_def m_def import_ready_def)
    then show ?thesis using 2 ne assms(2)
      by (auto simp: outcome_of_def runtime_grants_def types_ready_def attributes_def m_def fun_eq_iff)
  next
    case 3
    then show ?thesis using assms(2) ne
      by (auto simp: r_def attach_def PyModule_Create_def Let_def PyModule_AddObject_def runtime_grants_def m_def adding_simps fun_eq_iff)
  next
    case 4
    let ?w2 = "(Py_INCREF (sqpoll_value env) ?w1)\<lparr>mw_dict := (mw_dict ?w1)(m := [(''SQPOLL_ALLOWED'', sqpoll_value env)])\<rparr>"
    have "outcome_of env ?w2 (types_ready env) (0 \<le> im_add env ''Context'' \<and> 0 \<le> im_add env ''Operation'') r"
      unfolding r_def types_ready_def using 4 ne add_types_outcome(2) [of env ?w2] assms(1)
      by (simp add: attach_def PyModule_Create_def Let_def PyModule_AddObject_def m_def import_ready_def import_simps rt_simps)
    then show ?thesis using 4 ne assms(2)
      by (auto simp: outcome_of_def runtime_grants_def types_ready_def attributes_def m_def adding_simps fun_eq_iff)
  qed
qed

section \<open>Properties\<close>

text \<open>A runtime and a kernel on which everything works, for the examples.\<close>

definition ex_import_env :: import_env where
  "ex_import_env = \<lparr>im_uname = Some ''6.1.0-13-amd64'', im_io_setup = (0, 0, 7), im_io_destroy = (0, 0),
     im_uring_setup = (\<lambda>flags. if flags = 0 then (3, 0) else (- 1, 1)), im_enosys = 38, im_module = 100, im_gil = 0,
     im_ready = (\<lambda>_. 0), im_add = (\<lambda>_. 0), im_context = 101, im_operation = 102,
     im_bool = (\<lambda>b. if b then 103 else 104)\<rparr>"

definition ex_import_world :: mod_world where
  "ex_import_world = \<lparr>refs = (\<lambda>p. if 101 \<le> p \<and> p \<le> 104 then 1 else 0), mem = (\<lambda>_. None), bytes_at = (\<lambda>_. NULL),
     trace = [], mw_fds = [], mw_aio = [], mw_dict = (\<lambda>_. []), mw_kernel_support = - 1\<rparr>"

lemma ex_import:
  "import_ready ex_import_env" "refs ex_import_world (im_module ex_import_env) = 0"
  "im_uname ex_import_env = Some (digits 6 @ ''.'' @ digits 1 @ ''.0-13-amd64'')"
  by (auto simp: import_ready_def ex_import_env_def ex_import_world_def digits.simps char_of_def bit_0)

text \<open>
  C39. When an import succeeds. On a kernel whose release is printed as major.minor followed
  by something that is no digit, importing a backend returns the module exactly if the
  kernel offers what the backend needs (from 4.18 on and with a working \<^verbatim>\<open>io_setup\<close> and
  \<^verbatim>\<open>io_destroy\<close> for linux_aio, from 5.6 on and with a working \<^verbatim>\<open>io_uring_setup\<close> for
  linux_uring, nothing for thread_aio; a kernel without SQPOLL is no obstacle) and the
  runtime registers everything; the references are then those of the caller on the module
  and of the module on its attributes. If the kernel does not offer it, ImportError is raised
  and no reference count has changed. If the runtime fails, its own exception stays pending;
  no reference count has changed then either, unless a type could not be made ready or
  \<^verbatim>\<open>SQPOLL_ALLOWED\<close> was not taken (there the code leaks, see below). Whatever happens, every
  descriptor a probe opened is closed again; so is the kernel AIO context of the probe of
  linux_aio, except when the kernel refuses to destroy it.
\<close>

theorem import_outcome:
  assumes "import_ready env" and "refs w (im_module env) = 0"
    and "im_uname env = Some (digits major @ ''.'' @ digits minor @ rest)" and "ends_number rest"
  shows "(fst (PyInit b env w) = Ret (PyObj (im_module env)) \<longleftrightarrow>
      kernel_offers b (int major, int minor) env \<and> runtime_grants b env)
    \<and> (\<not> kernel_offers b (int major, int minor) env \<longrightarrow>
        (\<exists>msg ns. fst (PyInit b env w) = Raise (PyErr_Format PyExc_ImportError msg ns)) \<and> refs (snd (PyInit b env w)) = refs w)
    \<and> (kernel_offers b (int major, int minor) env \<and> runtime_grants b env \<longrightarrow>
        (\<forall>q. refs (snd (PyInit b env w)) q = refs w q + (if q = im_module env then 1 else 0) +
           int (count_list (map snd (attributes b env)) q)))
    \<and> (kernel_offers b (int major, int minor) env \<and> \<not> runtime_grants b env \<longrightarrow> fst (PyInit b env w) = Raise PyErr_Pending \<and>
        (types_ready env \<and> (b = Uring_module \<longrightarrow> 0 \<le> im_add env ''SQPOLL_ALLOWED'') \<longrightarrow> refs (snd (PyInit b env w)) = refs w))
    \<and> mw_fds (snd (PyInit b env w)) = mw_fds w
    \<and> (mw_aio (snd (PyInit b env w)) = mw_aio w \<or> b = Aio_module \<and> fst (im_io_destroy env) \<noteq> 0)"
proof -
  let ?offers = "kernel_offers b (int major, int minor) env"
  obtain w1 where w1: "probed b env w w1" and run: "if ?offers then PyInit b env w = attach b env w1
      else \<exists>msg ns. PyInit b env w = (Raise (PyErr_Format PyExc_ImportError msg ns), w1)"
    using import_parts [OF assms(3), of b w] scan_release_printed [OF assms(4)] by auto
  show ?thesis
  proof (cases ?offers)
    case False
    with run w1 show ?thesis by (auto simp: probed_def)
  next
    case True
    have "import_ready env" and "refs w1 (im_module env) = 0"
      using w1 assms(1,2) by (simp_all add: probed_def import_ready_def)
    from attach_outcome [OF this, of b] True run w1 show ?thesis
      by (auto simp: probed_def split: if_splits)
  qed
qed

theorem import_outcome_witness:
  "fst (PyInit Uring_module ex_import_env ex_import_world) = Ret (PyObj 100)
    \<and> mw_fds (snd (PyInit Uring_module ex_import_env ex_import_world)) = []"
proof -
  have "kernel_offers Uring_module (int 6, int 1) ex_import_env" "runtime_grants Uring_module ex_import_env"
    by (simp_all add: kernel_offers_def runtime_grants_def ex_import_env_def)
  with import_outcome [OF ex_import, of Uring_module] show ?thesis
    by (simp add: ends_number_def is_digit_def) (simp add: ex_import_env_def ex_import_world_def)
qed

text \<open>
  References over an import. A module that is returned has one reference, of the
  caller, and its dictionary holds one reference to each attribute: the two types and, of
  linux_uring, whether SQPOLL can be used. An import that fails after its probes leaves every
  reference count as it was, the module is gone again, with two exceptions that are leaks: a
  type that cannot be made ready loses the module (it keeps a reference nobody owns), and an
  attribute \<^verbatim>\<open>SQPOLL_ALLOWED\<close> that is not taken loses a reference to the truth value.
\<close>

theorem import_references:
  fixes b :: caio_module and env :: import_env and w :: mod_world
  assumes "import_ready env" and "refs w (im_module env) = 0"
    and "im_uname env = Some release" and "kernel_offers b (scan_release release) env"
  defines "m \<equiv> im_module env" and "r \<equiv> PyInit b env w"
  shows "(runtime_grants b env \<longrightarrow> mw_dict (snd r) m = attributes b env \<and>
        (\<forall>q. refs (snd r) q = refs w q + (if q = m then 1 else 0) + int (count_list (map snd (attributes b env)) q)))
    \<and> (\<not> runtime_grants b env \<and> types_ready env \<and> (b = Uring_module \<longrightarrow> 0 \<le> im_add env ''SQPOLL_ALLOWED'') \<longrightarrow>
        refs (snd r) = refs w)
    \<and> (m \<noteq> NULL \<and> 0 \<le> im_gil env \<and> b \<noteq> Uring_module \<and> im_ready env (im_context env) < 0 \<longrightarrow> refs (snd r) m = 1)
    \<and> (m \<noteq> NULL \<and> 0 \<le> im_gil env \<and> b = Uring_module \<and> im_add env ''SQPOLL_ALLOWED'' < 0 \<longrightarrow>
        refs (snd r) (sqpoll_value env) = refs w (sqpoll_value env) + 1)"
proof -
  obtain w1 where w1: "probed b env w w1" and run: "r = attach b env w1"
    using import_parts [OF assms(3), of b w] assms(4) by (auto simp: r_def)
  have ready: "import_ready env" "refs w1 m = 0" and same: "refs w1 = refs w"
    using w1 assms(1,2) by (simp_all add: probed_def import_ready_def m_def)
  have "sqpoll_value env \<noteq> m" using assms(1) by (simp add: sqpoll_value_def import_ready_def m_def)
  then have "m \<noteq> NULL \<and> 0 \<le> im_gil env \<and> b = Uring_module \<and> im_add env ''SQPOLL_ALLOWED'' < 0 \<longrightarrow>
      refs (snd r) (sqpoll_value env) = refs w (sqpoll_value env) + 1"
    using ready(2) by (auto simp: run attach_def PyModule_Create_def Let_def PyModule_AddObject_def Let_def m_def adding_simps same)
  moreover have "m \<noteq> NULL \<and> 0 \<le> im_gil env \<and> b \<noteq> Uring_module \<and> im_ready env (im_context env) < 0 \<longrightarrow> refs (snd r) m = 1"
    by (auto simp: run attach_cases add_types_def m_def)
  ultimately show ?thesis
    using attach_outcome [OF ready(1) ready(2) [unfolded m_def], of b]
    unfolding run m_def same by (auto split: if_splits)
qed

theorem import_references_witness:
  "refs (snd (PyInit Aio_module ex_import_env ex_import_world)) 100 = 1
    \<and> refs (snd (PyInit Aio_module ex_import_env ex_import_world)) 101 = 2
    \<and> refs (snd (PyInit Aio_module (ex_import_env\<lparr>im_add := (\<lambda>name. if name = ''Operation'' then - 1 else 0)\<rparr>) ex_import_world))
        = refs ex_import_world"
proof -
  let ?bad = "ex_import_env\<lparr>im_add := (\<lambda>name. if name = ''Operation'' then - 1 else 0)\<rparr>"
  have release: "scan_release ''6.1.0-13-amd64'' = (6, 1)"
    by (simp add: scan_release_def scan_int_def scan_sign_def is_space_def is_digit_def)
  have uname: "im_uname ex_import_env = Some ''6.1.0-13-amd64''" "im_uname ?bad = Some ''6.1.0-13-amd64''"
    by (simp_all add: ex_import_env_def)
  have offers: "kernel_offers Aio_module (6, 1) ex_import_env" "kernel_offers Aio_module (6, 1) ?bad"
    by (simp_all add: kernel_offers_def ex_import_env_def)
  have ready: "import_ready ?bad" "refs ex_import_world (im_module ?bad) = 0"
    by (auto simp: import_ready_def ex_import_env_def ex_import_world_def)
  show ?thesis
    using import_references [OF ex_import(1,2) uname(1), of Aio_module]
      import_references [OF ready uname(2), of Aio_module] offers
    by (simp add: release) (simp add: runtime_grants_def types_ready_def attributes_def ex_import_env_def ex_import_world_def)
qed

end
