(* ===== verification/Object_Protocol.thy ===== *)
theory Object_Protocol
  imports Thread_Properties Uring_Objects Laio_Objects Module_Init
begin

text \<open>
  The slots of the types that keep no state of their own: \<^verbatim>\<open>tp_traverse\<close>, by which the garbage
  collector of Python learns what an Operation refers to, \<^verbatim>\<open>callback_ref\<close>, \<^verbatim>\<open>tp_repr\<close>, and the
  tables of methods. The property is that \<^verbatim>\<open>tp_traverse\<close> and \<^verbatim>\<open>tp_clear\<close> fit together.
\<close>

section \<open>Traversal\<close>

text \<open>
  \<^verbatim>\<open>Py_VISIT\<close> for each field in turn: null pointers are skipped, the first result of \<open>visit\<close>
  that is not 0 is returned at once.
\<close>

fun Py_VISIT :: "(ptr \<Rightarrow> 'a \<Rightarrow> int \<times> 'a) \<Rightarrow> ptr list \<Rightarrow> 'a \<Rightarrow> int \<times> 'a" where
  "Py_VISIT visit [] arg = (0, arg)"
| "Py_VISIT visit (p # ps) arg =
     (if p = NULL then Py_VISIT visit ps arg
      else let (vret, arg) = visit p arg in if vret \<noteq> 0 then (vret, arg) else Py_VISIT visit ps arg)"

definition AIOOperation_traverse_thr :: "ptr \<Rightarrow> (ptr \<Rightarrow> 'a \<Rightarrow> int \<times> 'a) \<Rightarrow> 'a \<Rightarrow> thr_world \<Rightarrow> int \<times> 'a" where
  "AIOOperation_traverse_thr self visit arg w =
     (let x = op_thr w self in Py_VISIT visit [to_callback x, to_py_buffer x, to_ctx x] arg)"

definition AIOOperation_traverse_ur :: "ptr \<Rightarrow> (ptr \<Rightarrow> 'a \<Rightarrow> int \<times> 'a) \<Rightarrow> 'a \<Rightarrow> ur_world \<Rightarrow> int \<times> 'a" where
  "AIOOperation_traverse_ur self visit arg w =
     (let x = op_ur w self in Py_VISIT visit [uo_py_buffer x, uo_callback x, uo_context x] arg)"

definition AIOOperation_traverse_la :: "ptr \<Rightarrow> (ptr \<Rightarrow> 'a \<Rightarrow> int \<times> 'a) \<Rightarrow> 'a \<Rightarrow> la_world \<Rightarrow> int \<times> 'a" where
  "AIOOperation_traverse_la self visit arg w =
     (let x = op_la w self in Py_VISIT visit [lo_context x, lo_callback x, lo_py_buffer x] arg)"

text \<open>The visitor of the collector: it counts each object it is shown, and goes on.\<close>

definition tally :: "ptr \<Rightarrow> (ptr \<Rightarrow> int) \<Rightarrow> int \<times> (ptr \<Rightarrow> int)" where
  "tally p n = (0, n(p := n p + 1))"

lemma tally_visits [simp]:
  "snd (Py_VISIT tally ps n) q = n q + (if q = NULL then 0 else int (count_list ps q))"
  by (induction ps arbitrary: n) (auto simp: tally_def)

lemma visits_nothing [simp]: "(\<forall>p\<in>set ps. p = NULL) \<Longrightarrow> Py_VISIT visit ps arg = (0, arg)"
  by (induction ps) auto

text \<open>What \<^verbatim>\<open>tp_clear\<close> does to references and to the fields they were held in.\<close>

lemma thr_xdecref_frame [simp]:
  fixes w :: thr_world
  shows "thr_ops (Py_XDECREF p w) = thr_ops w" "thr_ctxs (Py_XDECREF p w) = thr_ctxs w"
    "thr_ops (PyMem_Free p w) = thr_ops w" "thr_ctxs (PyMem_Free p w) = thr_ctxs w" "refs (PyMem_Free p w) = refs w"
  by (auto simp: Py_XDECREF_def PyMem_Free_def rt_simps)

lemma decref_ctx_thr_frame:
  assumes "te_others env = (\<lambda>w. w)"
  shows "thr_ops (decref_ctx_thr env c w) = thr_ops w" "refs (decref_ctx_thr env c w) = (refs w)(c := refs w c - 1)"
proof -
  have close: "thr_ops (AIOContext_close_pool env c w) = thr_ops w \<and> refs (AIOContext_close_pool env c w) = refs w" for w
    using assms by (auto simp: AIOContext_close_pool_def rt_simps Let_def split: option.splits prod.splits)
  have "thr_ops (AIOContext_dealloc_thr env c w) = thr_ops w \<and> refs (AIOContext_dealloc_thr env c w) = refs w" for w
    by (auto simp: AIOContext_dealloc_thr_def close rt_simps Let_def split: option.splits)
  then show "thr_ops (decref_ctx_thr env c w) = thr_ops w" "refs (decref_ctx_thr env c w) = (refs w)(c := refs w c - 1)"
    by (cases "refs w c = 1"; simp add: decref_ctx_thr_def decref_last decref_alive)+
qed

lemma clear_thr:
  assumes "thr_ops w self = Some x" and "te_others env = (\<lambda>w. w)"
  shows "refs (AIOOperation_clear_thr env self w) q =
      refs w q - (if q = NULL then 0 else int (count_list [to_callback x, to_py_buffer x, to_ctx x] q))"
    and "thr_ops (AIOOperation_clear_thr env self w) self = Some (x\<lparr>to_callback := NULL, to_py_buffer := NULL, to_ctx := NULL,
      to_buf := (if to_opcode x = THAIO_READ then NULL else to_buf x)\<rparr>)"
proof -
  define x1 where "x1 = x\<lparr>to_callback := NULL\<rparr>"
  define x2 where "x2 = x1\<lparr>to_buf := (if to_opcode x = THAIO_READ then NULL else to_buf x)\<rparr>"
  define x3 where "x3 = x2\<lparr>to_py_buffer := NULL\<rparr>"
  define w1 where "w1 = Py_XDECREF (to_callback x) (upd_op_thr self (\<lambda>x. x\<lparr>to_callback := NULL\<rparr>) w)"
  define w2 where "w2 = (if to_opcode x1 = THAIO_READ \<and> to_buf x1 \<noteq> NULL
    then upd_op_thr self (\<lambda>x. x\<lparr>to_buf := NULL\<rparr>) (PyMem_Free (to_buf x1) w1) else w1)"
  define w3 where "w3 = Py_XDECREF (to_py_buffer x2) (upd_op_thr self (\<lambda>x. x\<lparr>to_py_buffer := NULL\<rparr>) w2)"
  define w4 where "w4 = upd_op_thr self (\<lambda>x. x\<lparr>to_ctx := NULL\<rparr>) w3"
  have x1: "thr_ops w1 self = Some x1" using assms(1) by (simp add: w1_def x1_def)
  have "x1\<lparr>to_buf := to_buf x1\<rparr> = x1" by simp
  then have x2: "thr_ops w2 self = Some x2" using x1 by (auto simp: w2_def x2_def x1_def)
  have x3: "thr_ops w3 self = Some x3" using x2 by (simp add: w3_def x3_def)
  have r: "AIOOperation_clear_thr env self w = (if to_ctx x3 = NULL then w4 else decref_ctx_thr env (to_ctx x3) w4)"
    using assms(1) x1 x2 x3 unfolding AIOOperation_clear_thr_def Let_def op_thr_def
    by (simp only: option.sel w1_def [symmetric] w2_def [symmetric] w3_def [symmetric] w4_def [symmetric])
  have refs4: "refs w4 q = refs w q - (if q = to_callback x \<and> q \<noteq> NULL then 1 else 0) - (if q = to_py_buffer x \<and> q \<noteq> NULL then 1 else 0)" for q
    by (simp add: w4_def w3_def w2_def w1_def x2_def x1_def py_xdecref_frame)
  show "refs (AIOOperation_clear_thr env self w) q =
      refs w q - (if q = NULL then 0 else int (count_list [to_callback x, to_py_buffer x, to_ctx x] q))"
    by (simp add: r refs4 decref_ctx_thr_frame [OF assms(2)]) (auto simp: x3_def x2_def x1_def)
  show "thr_ops (AIOOperation_clear_thr env self w) self = Some (x\<lparr>to_callback := NULL, to_py_buffer := NULL, to_ctx := NULL,
      to_buf := (if to_opcode x = THAIO_READ then NULL else to_buf x)\<rparr>)"
    using x3 by (simp add: r decref_ctx_thr_frame [OF assms(2)] w4_def x3_def x2_def x1_def)
qed

lemma clear_ur:
  assumes "ur_ops w self = Some x"
  shows "refs (AIOOperation_clear_ur self w) q =
      refs w q - (if q = NULL then 0 else int (count_list [uo_py_buffer x, uo_callback x, uo_context x] q))"
    and "ur_ops (AIOOperation_clear_ur self w) self =
      Some (x\<lparr>uo_callback := NULL, uo_context := NULL, uo_py_buffer := NULL\<rparr>)"
proof -
  note defs = AIOOperation_clear_ur_def clear_context_ur_def Let_def py_xdecref_frame decref_ctx_frame
    op_ur_def upd_op_ur_frame decref_ctx_ops
  show "refs (AIOOperation_clear_ur self w) q =
      refs w q - (if q = NULL then 0 else int (count_list [uo_py_buffer x, uo_callback x, uo_context x] q))"
    using assms by (auto simp: defs)
  show "ur_ops (AIOOperation_clear_ur self w) self =
      Some (x\<lparr>uo_callback := NULL, uo_context := NULL, uo_py_buffer := NULL\<rparr>)"
    using assms by (auto simp: defs)
qed

lemma clear_la:
  assumes "la_ops w self = Some x"
  shows "refs (AIOOperation_clear_la self w) q =
      refs w q - (if q = NULL then 0 else int (count_list [lo_context x, lo_callback x, lo_py_buffer x] q))"
    and "la_ops (AIOOperation_clear_la self w) self =
      Some (x\<lparr>lo_callback := NULL, lo_context := NULL, lo_py_buffer := NULL,
        lo_buffer := (if aio_lio_opcode (lo_iocb x) = IOCB_CMD_PREAD then NULL else lo_buffer x)\<rparr>)"
proof -
  define x1 where "x1 = x\<lparr>lo_context := NULL\<rparr>"
  define x2 where "x2 = x1\<lparr>lo_callback := NULL\<rparr>"
  define x3 where "x3 = x2\<lparr>lo_buffer := (if aio_lio_opcode (lo_iocb x) = IOCB_CMD_PREAD then NULL else lo_buffer x)\<rparr>"
  define w1 where "w1 = clear_context_la self w"
  define w2 where "w2 = Py_XDECREF (lo_callback x1) (upd_op_la self (\<lambda>x. x\<lparr>lo_callback := NULL\<rparr>) w1)"
  define w3 where "w3 = (if aio_lio_opcode (lo_iocb x2) = IOCB_CMD_PREAD \<and> lo_buffer x2 \<noteq> NULL
    then upd_op_la self (\<lambda>x. x\<lparr>lo_buffer := NULL\<rparr>) (PyMem_Free (lo_buffer x2) w2) else w2)"
  have w1: "la_ops w1 self = Some x1"
      "refs w1 q = refs w q - (if q = lo_context x \<and> q \<noteq> NULL then 1 else 0)" for q
    using assms by (auto simp: w1_def clear_context_la_def op_la_def decref_ctx_la_frame x1_def Let_def)
  have x2: "la_ops w2 self = Some x2" using w1 by (simp add: w2_def x2_def)
  have "x2\<lparr>lo_buffer := lo_buffer x2\<rparr> = x2" by simp
  then have x3: "la_ops w3 self = Some x3" using x2 by (auto simp: w3_def x3_def x2_def x1_def)
  have r: "AIOOperation_clear_la self w = Py_XDECREF (lo_py_buffer x3) (upd_op_la self (\<lambda>x. x\<lparr>lo_py_buffer := NULL\<rparr>) w3)"
    using w1(1) x2 x3 unfolding AIOOperation_clear_la_def Let_def op_la_def
    by (simp only: option.sel w1_def [symmetric] w2_def [symmetric] w3_def [symmetric])
  show "refs (AIOOperation_clear_la self w) q =
      refs w q - (if q = NULL then 0 else int (count_list [lo_context x, lo_callback x, lo_py_buffer x] q))"
    by (simp add: r w3_def w2_def w1(2)) (auto simp: x3_def x2_def x1_def)
  show "la_ops (AIOOperation_clear_la self w) self =
      Some (x\<lparr>lo_callback := NULL, lo_context := NULL, lo_py_buffer := NULL,
        lo_buffer := (if aio_lio_opcode (lo_iocb x) = IOCB_CMD_PREAD then NULL else lo_buffer x)\<rparr>)"
    using x3 by (simp add: r x3_def x2_def x1_def)
qed

section \<open>\<^verbatim>\<open>callback_ref\<close>\<close>

text \<open>The callback under a reference of its own; the three modules have the same function.\<close>

definition AIOOperation_callback_ref :: "ptr \<Rightarrow> 'a pyrt_scheme \<Rightarrow> ptr \<times> 'a pyrt_scheme" where
  "AIOOperation_callback_ref callback w = (callback, Py_XINCREF callback w)"

text \<open>Calling a callback starts with it: the reference is taken before the call and dropped after.\<close>

lemma run_callback_ref:
  "run_callback call (fst (AIOOperation_callback_ref cb w)) v w =
     (let (cb, w) = AIOOperation_callback_ref cb w
      in if cb = NULL then w
         else let (ok, w) = call cb v (emit (Ev_Callback cb v) w)
              in Py_DECREF cb (if ok then w else emit (Ev_Unraisable cb) w))"
  by (simp add: run_callback_def AIOOperation_callback_ref_def Py_XINCREF_def Let_def split: prod.split)

section \<open>\<^verbatim>\<open>repr\<close>\<close>

text \<open>
  The conversions of \<^verbatim>\<open>PyUnicode_FromFormat\<close>. An argument is read at the width of its
  conversion: \<^verbatim>\<open>%i\<close> of a 64-bit argument takes its low half. \<^verbatim>\<open>%s\<close> of the type is the name the
  object's type has (\<open>tp_name\<close>), \<^verbatim>\<open>%p\<close> a hexadecimal address.
\<close>

definition fmt_int :: "int \<Rightarrow> string" where
  "fmt_int n = (if n < 0 then ''-'' @ digits (nat (- n)) else digits (nat n))"

definition fmt_i :: "'a::len word \<Rightarrow> string" where
  "fmt_i w = fmt_int (sint (ucast w :: u32))"

definition fmt_u :: "u32 \<Rightarrow> string" where
  "fmt_u w = digits (unat w)"

definition fmt_llu :: "u64 \<Rightarrow> string" where
  "fmt_llu w = digits (unat w)"

definition fmt_lli :: "u64 \<Rightarrow> string" where
  "fmt_lli w = fmt_int (sint w)"

definition hex_digit :: "nat \<Rightarrow> char" where
  "hex_digit n = (if n < 10 then char_of (48 + n) else char_of (87 + n))"

fun hex :: "nat \<Rightarrow> string" where
  "hex n = (if n < 16 then [hex_digit n] else hex (n div 16) @ [hex_digit (n mod 16)])"

declare hex.simps [simp del]

definition fmt_p :: "ptr \<Rightarrow> string" where
  "fmt_p p = ''0x'' @ hex (unat p)"

definition AIOContext_repr_thr :: "string \<Rightarrow> ptr \<Rightarrow> ptr \<Rightarrow> AIOContext_thr \<Rightarrow> string outcome" where
  "AIOContext_repr_thr tp_name self pool c =
     (if tc_pool c = None then Raise (PyErr_SetString PyExc_RuntimeError ''Pool not initialized'')
      else Ret (''<'' @ tp_name @ '' as '' @ fmt_p self @ '': max_requests='' @ fmt_i (tc_max_requests c) @
        '', pool_size='' @ fmt_i (tc_pool_size c) @ '', ctx='' @ fmt_lli pool @ ''>''))"

definition AIOContext_repr_ur :: "string \<Rightarrow> ptr \<Rightarrow> AIOContext_ur \<Rightarrow> string outcome" where
  "AIOContext_repr_ur tp_name self c =
     Ret (''<'' @ tp_name @ '' as '' @ fmt_p self @ '': max_requests='' @ fmt_u (uc_max_requests c) @
       '', uring_fd='' @ fmt_int (uc_uring_fd c) @ '', eventfd='' @ fmt_int (uc_eventfd_fd c) @
       '', sqpoll='' @ fmt_i (uc_sqpoll c) @ ''>'')"

definition AIOContext_repr_la :: "string \<Rightarrow> ptr \<Rightarrow> AIOContext_la \<Rightarrow> string outcome" where
  "AIOContext_repr_la tp_name self c =
     (if lc_ctx c = 0 then Raise (PyErr_SetNone PyExc_RuntimeError)
      else Ret (''<'' @ tp_name @ '' as '' @ fmt_p self @ '': max_requests='' @ fmt_i (lc_max_requests c) @
        '', ctx='' @ fmt_lli (lc_ctx c) @ ''>''))"

definition AIOOperation_repr_thr :: "string \<Rightarrow> ptr \<Rightarrow> AIOOperation_thr \<Rightarrow> string" where
  "AIOOperation_repr_thr tp_name self x =
     (let mode = (case to_opcode x of THAIO_READ \<Rightarrow> ''read'' | THAIO_WRITE \<Rightarrow> ''write'' | THAIO_FSYNC \<Rightarrow> ''fsync''
          | THAIO_FDSYNC \<Rightarrow> ''fdsync'' | THAIO_NOOP \<Rightarrow> ''noop'')
      in ''<'' @ tp_name @ '' at '' @ fmt_p self @ '': mode='' @ [CHR 0x22] @ mode @ [CHR 0x22] @
         '', fd='' @ fmt_i (to_fileno x) @ '', offset='' @ fmt_i (to_offset x) @
         '', result='' @ fmt_i (to_result x) @ '', buffer='' @ fmt_p (to_buf x) @ ''>'')"

definition AIOOperation_repr_ur :: "string \<Rightarrow> ptr \<Rightarrow> AIOOperation_ur \<Rightarrow> string" where
  "AIOOperation_repr_ur tp_name self x =
     (let mode = (if uo_opcode x = URING_READ then ''read'' else if uo_opcode x = URING_WRITE then ''write''
          else if uo_opcode x = URING_FSYNC then ''fsync'' else if uo_opcode x = URING_FDSYNC then ''fdsync'' else ''noop'')
      in ''<'' @ tp_name @ '' at '' @ fmt_p self @ '': mode='' @ [CHR 0x22] @ mode @ [CHR 0x22] @
         '', fd='' @ fmt_u (uo_fileno x) @ '', offset='' @ fmt_llu (uo_offset x) @
         '', result='' @ fmt_i (uo_result x) @ '', buffer='' @ fmt_p (uo_buf x) @ ''>'')"

definition AIOOperation_repr_la :: "string \<Rightarrow> ptr \<Rightarrow> AIOOperation_la \<Rightarrow> string" where
  "AIOOperation_repr_la tp_name self x =
     (let op = aio_lio_opcode (lo_iocb x);
          mode = (if op = IOCB_CMD_PREAD then ''read'' else if op = IOCB_CMD_PWRITE then ''write''
          else if op = IOCB_CMD_FSYNC then ''fsync'' else if op = IOCB_CMD_FDSYNC then ''fdsync'' else ''noop'')
      in ''<'' @ tp_name @ '' at '' @ fmt_p self @ '': mode='' @ [CHR 0x22] @ mode @ [CHR 0x22] @
         '', fd='' @ fmt_i (aio_fildes (lo_iocb x)) @ '', offset='' @ fmt_i (aio_offset (lo_iocb x)) @
         '', buffer='' @ fmt_p (aio_buf (lo_iocb x)) @ ''>'')"

text \<open>
  Two of the three print the 64-bit offset with \<^verbatim>\<open>%i\<close>: operations 4 GiB apart look the same.
\<close>

lemma ucast_low_half: "(ucast (w + 0x100000000 :: u64) :: u32) = ucast w"
proof (rule word_uint_eqI)
  have "uint (w + 0x100000000) mod 2 ^ 32 = uint w mod 2 ^ 32" by (simp add: uint_word_ariths mod_mod_cancel)
  then show "uint (ucast (w + 0x100000000 :: u64) :: u32) = uint (ucast w :: u32)"
    by (simp add: unsigned_ucast_eq take_bit_eq_mod)
qed

lemma repr_truncates_offset:
  "AIOOperation_repr_thr tp self (x\<lparr>to_offset := off + 0x100000000\<rparr>) = AIOOperation_repr_thr tp self (x\<lparr>to_offset := off\<rparr>)"
  "AIOOperation_repr_la tp self (y\<lparr>lo_iocb := i\<lparr>aio_offset := off + 0x100000000\<rparr>\<rparr>) =
     AIOOperation_repr_la tp self (y\<lparr>lo_iocb := i\<lparr>aio_offset := off\<rparr>\<rparr>)"
  by (simp_all add: AIOOperation_repr_thr_def AIOOperation_repr_la_def fmt_i_def ucast_low_half Let_def)

section \<open>Tables of methods\<close>

text \<open>
  How the runtime calls a method: it passes the call on to the C function only with the
  arguments the flags allow, otherwise it raises TypeError by itself. \<open>True\<close> marks a class
  method.
\<close>

datatype call_conv = METH_NOARGS | METH_O | METH_VARARGS | METH_VARARGS_KEYWORDS

type_synonym method_table = "(string \<times> bool \<times> call_conv) list"

definition accepts :: "call_conv \<Rightarrow> nat \<Rightarrow> string list \<Rightarrow> bool" where
  "accepts conv positional keywords = (case conv of
       METH_NOARGS \<Rightarrow> positional = 0 \<and> keywords = []
     | METH_O \<Rightarrow> positional = 1 \<and> keywords = []
     | METH_VARARGS \<Rightarrow> keywords = []
     | METH_VARARGS_KEYWORDS \<Rightarrow> True)"

definition reaches_method :: "method_table \<Rightarrow> string \<Rightarrow> nat \<Rightarrow> string list \<Rightarrow> bool" where
  "reaches_method table name positional keywords = (case map_of table name of
       None \<Rightarrow> False | Some (_, conv) \<Rightarrow> accepts conv positional keywords)"

definition AIOContext_methods_thr :: method_table where
  "AIOContext_methods_thr = [(''submit'', False, METH_VARARGS), (''cancel'', False, METH_VARARGS), (''close'', False, METH_NOARGS)]"

definition AIOContext_methods_la :: method_table where
  "AIOContext_methods_la = [(''submit'', False, METH_VARARGS), (''cancel'', False, METH_VARARGS_KEYWORDS),
     (''process_events'', False, METH_VARARGS_KEYWORDS), (''poll'', False, METH_NOARGS)]"

definition AIOContext_methods_ur :: method_table where
  "AIOContext_methods_ur = [(''submit'', False, METH_VARARGS), (''flush'', False, METH_NOARGS),
     (''cancel'', False, METH_VARARGS_KEYWORDS), (''process_events'', False, METH_VARARGS_KEYWORDS), (''poll'', False, METH_NOARGS)]"

definition AIOOperation_methods_thr :: method_table where
  "AIOOperation_methods_thr = [(''read'', True, METH_VARARGS_KEYWORDS), (''write'', True, METH_VARARGS_KEYWORDS),
     (''fsync'', True, METH_VARARGS_KEYWORDS), (''fdsync'', True, METH_VARARGS_KEYWORDS),
     (''get_value'', False, METH_NOARGS), (''set_callback'', False, METH_VARARGS_KEYWORDS)]"

definition AIOOperation_methods_la :: method_table where
  "AIOOperation_methods_la = [(''read'', True, METH_VARARGS_KEYWORDS), (''write'', True, METH_VARARGS_KEYWORDS),
     (''fsync'', True, METH_VARARGS_KEYWORDS), (''fdsync'', True, METH_VARARGS_KEYWORDS),
     (''get_value'', False, METH_NOARGS), (''set_callback'', False, METH_VARARGS_KEYWORDS)]"

definition AIOOperation_methods_ur :: method_table where
  "AIOOperation_methods_ur = [(''read'', True, METH_VARARGS_KEYWORDS), (''write'', True, METH_VARARGS_KEYWORDS),
     (''fsync'', True, METH_VARARGS_KEYWORDS), (''fdsync'', True, METH_VARARGS_KEYWORDS),
     (''get_value'', False, METH_NOARGS), (''set_callback'', False, METH_O)]"

text \<open>
  A call that reaches an Operation of io_uring reaches one of the other two backends as
  well, but not the other way round: exactly calls of \<^verbatim>\<open>set_callback\<close> that do not pass the
  callback as the one positional argument (\<^verbatim>\<open>set_callback(callback=f)\<close>) fail on io_uring only.
\<close>

lemma operation_calls:
  "reaches_method AIOOperation_methods_thr name n kws = reaches_method AIOOperation_methods_la name n kws"
  "reaches_method AIOOperation_methods_ur name n kws \<longleftrightarrow>
     reaches_method AIOOperation_methods_thr name n kws \<and> (name = ''set_callback'' \<longrightarrow> n = 1 \<and> kws = [])"
  by (auto simp: reaches_method_def accepts_def AIOOperation_methods_thr_def AIOOperation_methods_la_def
      AIOOperation_methods_ur_def)

section \<open>Properties\<close>

text \<open>
  C38. \<^verbatim>\<open>tp_traverse\<close> and \<^verbatim>\<open>tp_clear\<close> agree, in all three modules. The references by which
  \<^verbatim>\<open>tp_clear\<close> lowers the counts are exactly those \<^verbatim>\<open>tp_traverse\<close> shows to the garbage collector,
  each as often as it is shown, so the collector neither frees an object that is still
  referred to nor misses a cycle through a callback, a buffer or a Context. Afterwards
  nothing is left to show to any visitor, and a second \<^verbatim>\<open>tp_clear\<close> drops nothing.
\<close>

theorem gc_slots_agree:
  fixes wt :: thr_world and wu :: ur_world and wl :: la_world
  assumes "thr_ops wt self \<noteq> None" and "te_others env = (\<lambda>w. w)" and "ur_ops wu self \<noteq> None" and "la_ops wl self \<noteq> None"
  shows "((\<forall>q. refs (AIOOperation_clear_thr env self wt) q = refs wt q - snd (AIOOperation_traverse_thr self tally (\<lambda>_. 0) wt) q) \<and>
      (\<forall>q. refs (AIOOperation_clear_ur self wu) q = refs wu q - snd (AIOOperation_traverse_ur self tally (\<lambda>_. 0) wu) q) \<and>
      (\<forall>q. refs (AIOOperation_clear_la self wl) q = refs wl q - snd (AIOOperation_traverse_la self tally (\<lambda>_. 0) wl) q))
    \<and> (AIOOperation_traverse_thr self visit arg (AIOOperation_clear_thr env self wt) = (0, arg) \<and>
      AIOOperation_traverse_ur self visit arg (AIOOperation_clear_ur self wu) = (0, arg) \<and>
      AIOOperation_traverse_la self visit arg (AIOOperation_clear_la self wl) = (0, arg))
    \<and> (refs (AIOOperation_clear_thr env self (AIOOperation_clear_thr env self wt)) = refs (AIOOperation_clear_thr env self wt) \<and>
      refs (AIOOperation_clear_ur self (AIOOperation_clear_ur self wu)) = refs (AIOOperation_clear_ur self wu) \<and>
      refs (AIOOperation_clear_la self (AIOOperation_clear_la self wl)) = refs (AIOOperation_clear_la self wl))"
    (is "?drops \<and> ?empty \<and> ?again")
proof -
  obtain x y z where x: "thr_ops wt self = Some x" and y: "ur_ops wu self = Some y" and z: "la_ops wl self = Some z"
    using assms by auto
  note cleared = clear_thr(2) [OF x assms(2)] clear_ur(2) [OF y] clear_la(2) [OF z]
  note drops = clear_thr(1) [OF _ assms(2)] clear_ur(1) clear_la(1)
  note defs = AIOOperation_traverse_thr_def AIOOperation_traverse_ur_def AIOOperation_traverse_la_def
    op_thr_def op_ur_def op_la_def Let_def
  have ?drops by (simp add: defs x y z drops(1) [OF x] drops(2) [OF y] drops(3) [OF z] del: Py_VISIT.simps)
  moreover have ?empty using cleared by (simp add: defs)
  moreover have ?again using drops(1) [OF cleared(1)] drops(2) [OF cleared(2)] drops(3) [OF cleared(3)]
    by (auto simp: fun_eq_iff)
  ultimately show ?thesis by blast
qed

text \<open>A read of each module that is in flight: a callback (5), a buffer (6) and the Context (7).\<close>

definition ex_gc_env :: thr_env where
  "ex_gc_env = \<lparr>te_destroy = pthread_ok {}, te_joins = (\<lambda>_. 0), te_pool_meanwhile = (\<lambda>p. p), te_others = (\<lambda>w. w),
     te_call = (\<lambda>_ _ w. (True, w)), te_kernel = (\<lambda>_. \<lparr>sa_ret = 0, sa_errno = 0, sa_data = []\<rparr>), te_have_fdatasync = True\<rparr>"

definition ex_gc_thr :: thr_world where
  "ex_gc_thr = \<lparr>refs = (\<lambda>_. 1), mem = (\<lambda>_. None), bytes_at = (\<lambda>_. NULL), trace = [], thr_ops = [1 \<mapsto>
     zero_op_thr\<lparr>to_callback := 5, to_py_buffer := 6, to_ctx := 7\<rparr>], thr_ctxs = (\<lambda>_. None)\<rparr>"

definition ex_gc_ur :: ur_world where
  "ex_gc_ur = \<lparr>refs = (\<lambda>_. 1), mem = (\<lambda>_. None), bytes_at = (\<lambda>_. NULL), trace = [], ur_ops = [1 \<mapsto>
     zero_op_ur\<lparr>uo_callback := 5, uo_py_buffer := 6, uo_context := 7\<rparr>], ur_ctxs = (\<lambda>_. None)\<rparr>"

definition ex_gc_la :: la_world where
  "ex_gc_la = \<lparr>refs = (\<lambda>_. 1), mem = (\<lambda>_. None), bytes_at = (\<lambda>_. NULL), trace = [], la_ops = [1 \<mapsto>
     \<lparr>lo_context = 7, lo_py_buffer = 6, lo_callback = 5, lo_buffer = NULL, lo_error = 0, lo_in_progress = 1, lo_done = 0,
       lo_iocb = zero_iocb\<lparr>aio_data := 1\<rparr>, lo_weakreflist = NULL\<rparr>], la_ctxs = (\<lambda>_. None)\<rparr>"

theorem gc_slots_agree_witness:
  "refs (AIOOperation_clear_thr ex_gc_env 1 ex_gc_thr) 5 = 0 \<and> refs (AIOOperation_clear_ur 1 ex_gc_ur) 6 = 0 \<and>
   refs (AIOOperation_clear_la 1 ex_gc_la) 7 = 0"
proof -
  have "thr_ops ex_gc_thr 1 \<noteq> None" "te_others ex_gc_env = (\<lambda>w. w)" "ur_ops ex_gc_ur 1 \<noteq> None" "la_ops ex_gc_la 1 \<noteq> None"
    by (simp_all add: ex_gc_thr_def ex_gc_ur_def ex_gc_la_def ex_gc_env_def)
  note gc = conjunct1 [OF gc_slots_agree [OF this]]
  have "snd (AIOOperation_traverse_thr 1 tally (\<lambda>_. 0) ex_gc_thr) 5 = 1"
    "snd (AIOOperation_traverse_ur 1 tally (\<lambda>_. 0) ex_gc_ur) 6 = 1"
    "snd (AIOOperation_traverse_la 1 tally (\<lambda>_. 0) ex_gc_la) 7 = 1"
    by (simp_all add: AIOOperation_traverse_thr_def AIOOperation_traverse_ur_def AIOOperation_traverse_la_def
        op_thr_def op_ur_def op_la_def ex_gc_thr_def ex_gc_ur_def ex_gc_la_def tally_def Let_def)
  moreover have "refs ex_gc_thr q = 1" "refs ex_gc_ur q = 1" "refs ex_gc_la q = 1" for q
    by (simp_all add: ex_gc_thr_def ex_gc_ur_def ex_gc_la_def)
  ultimately show ?thesis using gc by simp
qed

end
