(* ===== verification/Attributes.thy ===== *)
theory Attributes
  imports Thread_Properties Linux_URING Linux_AIO
begin

text \<open>
  The attributes of the types, as their tables of members describe them. A member is a type
  and an offset: reading the attribute reads as many bytes as the type has, from that offset of
  the object, whatever field is there. So the objects are laid out here as the C compiler lays
  them out (LP64, little endian), and the attributes read from that layout. The fields of a
  struct that the records leave out (the object header, the pool pointer, the pointers into the
  rings) have their place in the layout; their contents are an argument.
\<close>

section \<open>Bytes\<close>

fun le_bytes :: "nat \<Rightarrow> int \<Rightarrow> u8 list" where
  "le_bytes 0 n = []"
| "le_bytes (Suc k) n = word_of_int n # le_bytes k (n div 256)"

fun le_value :: "u8 list \<Rightarrow> int" where
  "le_value [] = 0"
| "le_value (b # bs) = uint b + 256 * le_value bs"

lemma length_le_bytes [simp]: "length (le_bytes k n) = k"
  by (induction k arbitrary: n) simp_all

lemma le_value_bytes [simp]: "le_value (le_bytes k n) = n mod 256 ^ k"
proof (induction k arbitrary: n)
  case 0
  then show ?case by simp
next
  case (Suc k)
  have "le_value (le_bytes (Suc k) n) = n mod 256 + 256 * (n div 256 mod 256 ^ k)"
    by (simp add: Suc uint_word_of_int)
  also have "\<dots> = n mod 256 ^ Suc k" by (simp add: zmod_zmult2_eq)
  finally show ?case .
qed

definition u8_field :: "u8 \<Rightarrow> u8 list" where "u8_field w = le_bytes 1 (uint w)"
definition u16_field :: "u16 \<Rightarrow> u8 list" where "u16_field w = le_bytes 2 (uint w)"
definition u32_field :: "u32 \<Rightarrow> u8 list" where "u32_field w = le_bytes 4 (uint w)"
definition int_field :: "int \<Rightarrow> u8 list" where "int_field n = le_bytes 4 n"
definition u64_field :: "u64 \<Rightarrow> u8 list" where "u64_field w = le_bytes 8 (uint w)"

lemmas field_defs = u8_field_def u16_field_def u32_field_def int_field_def u64_field_def

section \<open>Layout of structs\<close>

type_synonym fields = "(string \<times> u8 list) list"

text \<open>A field is aligned at its size; \<open>pad off\<close> is the padding byte at offset \<open>off\<close>.\<close>

definition align :: "nat \<Rightarrow> nat \<Rightarrow> nat" where
  "align off k = (off + k - 1) div k * k"

fun struct_bytes :: "(nat \<Rightarrow> u8) \<Rightarrow> nat \<Rightarrow> fields \<Rightarrow> u8 list" where
  "struct_bytes pad off [] = []"
| "struct_bytes pad off ((f, bs) # fs) =
     (let a = align off (length bs) in map pad [off..<a] @ bs @ struct_bytes pad (a + length bs) fs)"

fun field_offset :: "nat \<Rightarrow> fields \<Rightarrow> string \<Rightarrow> nat" where
  "field_offset off [] f = 0"
| "field_offset off ((g, bs) # fs) f =
     (let a = align off (length bs) in if f = g then a else field_offset (a + length bs) fs f)"

lemma align_ge: "0 < k \<Longrightarrow> off \<le> align off k"
proof -
  assume "0 < k"
  then have "off + k - 1 < (off + k - 1) div k * k + k"
    by (metis add.commute mod_less_divisor nat_add_left_cancel_less div_mult_mod_eq)
  then show ?thesis by (simp add: align_def)
qed

lemma field_offset_ge_at:
  "(\<forall>(g, cs)\<in>set pre. 0 < length cs) \<Longrightarrow> 0 < length bs \<Longrightarrow> off \<le> field_offset off (pre @ (f, bs) # post) f"
proof (induction pre arbitrary: off)
  case Nil
  then show ?case using align_ge [of "length bs" off] by (simp add: Let_def)
next
  case (Cons p pre)
  obtain g cs where p: "p = (g, cs)" by force
  have "off \<le> align off (length cs)" using Cons.prems(1) p by (intro align_ge) auto
  moreover have "align off (length cs) + length cs \<le> field_offset (align off (length cs) + length cs) (pre @ (f, bs) # post) f"
    using Cons.prems by (intro Cons.IH) auto
  ultimately show ?case using p by (simp add: Let_def)
qed

text \<open>At the offset of a field are its bytes, and then those of the fields after it.\<close>

lemma bytes_from_field:
  assumes "f \<notin> fst ` set pre" and "\<forall>(g, cs)\<in>set pre. 0 < length cs" and "0 < length bs"
  shows "drop (field_offset off (pre @ (f, bs) # post) f - off) (struct_bytes pad off (pre @ (f, bs) # post)) =
    bs @ struct_bytes pad (field_offset off (pre @ (f, bs) # post) f + length bs) post"
  using assms
proof (induction pre arbitrary: off)
  case Nil
  then show ?case using align_ge [of "length bs" off] by (simp add: Let_def)
next
  case (Cons p pre)
  obtain g cs where p: "p = (g, cs)" by force
  let ?a = "align off (length cs)"
  have a: "off \<le> ?a" using Cons.prems(2) p by (intro align_ge) auto
  have ge: "?a + length cs \<le> field_offset (?a + length cs) (pre @ (f, bs) # post) f"
    using Cons.prems by (intro field_offset_ge_at) auto
  have "field_offset (?a + length cs) (pre @ (f, bs) # post) f - off =
      (?a - off) + (length cs + (field_offset (?a + length cs) (pre @ (f, bs) # post) f - (?a + length cs)))"
    using ge a by simp
  moreover have "f \<noteq> g" using Cons.prems(1) p by auto
  ultimately show ?case using a p Cons.IH [of "?a + length cs"] Cons.prems by (simp add: Let_def)
qed

lemma bytes_of_field:
  assumes "(f, bs) \<in> set fs" and "distinct (map fst fs)" and "\<forall>(g, cs)\<in>set fs. 0 < length cs"
  shows "\<exists>rest. drop (field_offset off fs f - off) (struct_bytes pad off fs) = bs @ rest"
proof -
  obtain pre post where fs: "fs = pre @ (f, bs) # post" using assms(1) by (meson split_list)
  have "f \<notin> fst ` set pre" using assms(2) by (auto simp: fs)
  then show ?thesis using assms(3) unfolding fs by (subst bytes_from_field) auto
qed

section \<open>Members\<close>

datatype member_type = T_INT | T_UINT | T_USHORT | T_UBYTE | T_ULONGLONG | T_PYSSIZET | T_OBJECT

fun member_size :: "member_type \<Rightarrow> nat" where
  "member_size T_INT = 4" | "member_size T_UINT = 4" | "member_size T_USHORT = 2" | "member_size T_UBYTE = 1"
| "member_size T_ULONGLONG = 8" | "member_size T_PYSSIZET = 8" | "member_size T_OBJECT = 8"

text \<open>\<^verbatim>\<open>PyMember_GetOne\<close>: the value of the bytes. A null \<^verbatim>\<open>T_OBJECT\<close> is None.\<close>

definition member_value :: "member_type \<Rightarrow> u8 list \<Rightarrow> pyval" where
  "member_value ty bs =
     (let n = le_value (take (member_size ty) bs) in
      case ty of T_INT \<Rightarrow> PyLong (signed_take_bit 31 n) | T_PYSSIZET \<Rightarrow> PyLong (signed_take_bit 63 n)
      | T_OBJECT \<Rightarrow> if n = 0 then PyNone else PyObj (word_of_int n)
      | _ \<Rightarrow> PyLong n)"

text \<open>A table of members: the name of the attribute, its type, the field that \<^verbatim>\<open>offsetof\<close> names.\<close>

type_synonym member_table = "(string \<times> member_type \<times> string) list"

definition get_member :: "member_table \<Rightarrow> (nat \<Rightarrow> u8) \<Rightarrow> fields \<Rightarrow> string \<Rightarrow> pyval option" where
  "get_member table pad fs name =
     (case map_of table name of None \<Rightarrow> None
      | Some (ty, f) \<Rightarrow> Some (member_value ty (drop (field_offset 0 fs f) (struct_bytes pad 0 fs))))"

text \<open>The object header and other parts that are not in the records.\<close>

definition PyObject_HEAD :: "u64 \<Rightarrow> u64 \<Rightarrow> fields" where
  "PyObject_HEAD refcnt tp = [(''ob_refcnt'', u64_field refcnt), (''ob_type'', u64_field tp)]"

definition AIOContext_fields_thr :: "u64 \<Rightarrow> u64 \<Rightarrow> ptr \<Rightarrow> AIOContext_thr \<Rightarrow> fields" where
  "AIOContext_fields_thr rc tp pool c = PyObject_HEAD rc tp @
     [(''pool'', u64_field pool), (''max_requests'', u16_field (tc_max_requests c)), (''pool_size'', u8_field (tc_pool_size c)),
      (''weakreflist'', u64_field (tc_weakreflist c))]"

fun THAIO_code :: "THAIO_OP_CODE \<Rightarrow> int" where
  "THAIO_code THAIO_READ = 0" | "THAIO_code THAIO_WRITE = 1" | "THAIO_code THAIO_FSYNC = 2"
| "THAIO_code THAIO_FDSYNC = 3" | "THAIO_code THAIO_NOOP = 4"

definition AIOOperation_fields_thr :: "u64 \<Rightarrow> u64 \<Rightarrow> AIOOperation_thr \<Rightarrow> fields" where
  "AIOOperation_fields_thr rc tp x = PyObject_HEAD rc tp @
     [(''py_buffer'', u64_field (to_py_buffer x)), (''callback'', u64_field (to_callback x)),
      (''opcode'', int_field (THAIO_code (to_opcode x))), (''fileno'', u32_field (to_fileno x)),
      (''offset'', u64_field (to_offset x)), (''result'', u32_field (to_result x)), (''error'', u8_field (to_error x)),
      (''in_progress'', u8_field (to_in_progress x)), (''done'', u8_field (to_done x)),
      (''buf_size'', u64_field (to_buf_size x)), (''buf'', u64_field (to_buf x)), (''ctx'', u64_field (to_ctx x)),
      (''weakreflist'', u64_field (to_weakreflist x))]"

definition AIOOperation_fields_ur :: "u64 \<Rightarrow> u64 \<Rightarrow> AIOOperation_ur \<Rightarrow> fields" where
  "AIOOperation_fields_ur rc tp x = PyObject_HEAD rc tp @
     [(''py_buffer'', u64_field (uo_py_buffer x)), (''callback'', u64_field (uo_callback x)), (''context'', u64_field (uo_context x)),
      (''weakreflist'', u64_field (uo_weakreflist x)), (''opcode'', u8_field (uo_opcode x)), (''fileno'', u32_field (uo_fileno x)),
      (''offset'', u64_field (uo_offset x)), (''result'', u32_field (uo_result x)), (''error'', u32_field (uo_error x)),
      (''buf_size'', u64_field (uo_buf_size x)), (''buf'', u64_field (uo_buf x)),
      (''in_progress'', u8_field (uo_in_progress x)), (''done'', u8_field (uo_done x))]"

text \<open>\<open>ring\<close> gives the pointers into the rings, by the name of the field.\<close>

definition AIOContext_fields_ur :: "u64 \<Rightarrow> u64 \<Rightarrow> (string \<Rightarrow> ptr) \<Rightarrow> AIOContext_ur \<Rightarrow> fields" where
  "AIOContext_fields_ur rc tp ring c = PyObject_HEAD rc tp @
     [(''uring_fd'', int_field (uc_uring_fd c)), (''eventfd_fd'', int_field (uc_eventfd_fd c)),
      (''max_requests'', u32_field (uc_max_requests c)),
      (''sq_ring_ptr'', u64_field (uc_sq_ring_ptr c)), (''sq_ring_size'', u64_field (uc_sq_ring_size c)),
      (''sq_head'', u64_field (ring ''sq_head'')), (''sq_tail'', u64_field (ring ''sq_tail'')),
      (''sq_ring_mask'', u64_field (ring ''sq_ring_mask'')), (''sq_ring_entries'', u64_field (ring ''sq_ring_entries'')),
      (''sq_flags'', u64_field (ring ''sq_flags'')), (''sq_array'', u64_field (ring ''sq_array'')),
      (''sqes'', u64_field (uc_sqes_ptr c)), (''sqes_size'', u64_field (uc_sqes_size c)),
      (''cq_ring_ptr'', u64_field (uc_cq_ring_ptr c)), (''cq_ring_size'', u64_field (uc_cq_ring_size c)),
      (''cq_head'', u64_field (ring ''cq_head'')), (''cq_tail'', u64_field (ring ''cq_tail'')),
      (''cq_ring_mask'', u64_field (ring ''cq_ring_mask'')), (''cq_ring_entries'', u64_field (ring ''cq_ring_entries'')),
      (''cqes'', u64_field (ring ''cqes'')), (''no_sqarray'', u8_field (uc_no_sqarray c)), (''sqpoll'', u8_field (uc_sqpoll c)),
      (''weakreflist'', u64_field (uc_weakreflist c))]"

definition AIOContext_fields_la :: "u64 \<Rightarrow> u64 \<Rightarrow> AIOContext_la \<Rightarrow> fields" where
  "AIOContext_fields_la rc tp c = PyObject_HEAD rc tp @
     [(''ctx'', u64_field (lc_ctx c)), (''fileno'', int_field (lc_fileno c)), (''max_requests'', u32_field (lc_max_requests c)),
      (''weakreflist'', u64_field (lc_weakreflist c))]"

text \<open>The control block is part of the object; \<open>key\<close> and \<open>rsv\<close> are its fields for the kernel.\<close>

definition AIOOperation_fields_la :: "u64 \<Rightarrow> u64 \<Rightarrow> u32 \<Rightarrow> u32 \<Rightarrow> u64 \<Rightarrow> AIOOperation_la \<Rightarrow> fields" where
  "AIOOperation_fields_la rc tp key rw rsv x = PyObject_HEAD rc tp @
     [(''context'', u64_field (lo_context x)), (''py_buffer'', u64_field (lo_py_buffer x)), (''callback'', u64_field (lo_callback x)),
      (''buffer'', u64_field (lo_buffer x)), (''error'', u32_field (lo_error x)), (''in_progress'', u8_field (lo_in_progress x)),
      (''done'', u8_field (lo_done x)),
      (''iocb.aio_data'', u64_field (aio_data (lo_iocb x))), (''iocb.aio_key'', u32_field key), (''iocb.aio_rw_flags'', u32_field rw),
      (''iocb.aio_lio_opcode'', u16_field (aio_lio_opcode (lo_iocb x))), (''iocb.aio_reqprio'', u16_field (aio_reqprio (lo_iocb x))),
      (''iocb.aio_fildes'', u32_field (aio_fildes (lo_iocb x))), (''iocb.aio_buf'', u64_field (aio_buf (lo_iocb x))),
      (''iocb.aio_nbytes'', u64_field (aio_nbytes (lo_iocb x))), (''iocb.aio_offset'', u64_field (aio_offset (lo_iocb x))),
      (''iocb.aio_reserved2'', u64_field rsv), (''iocb.aio_flags'', u32_field (aio_flags (lo_iocb x))),
      (''iocb.aio_resfd'', u32_field (aio_resfd (lo_iocb x))), (''weakreflist'', u64_field (lo_weakreflist x))]"

section \<open>The tables\<close>

definition AIOContext_members_thr :: member_table where
  "AIOContext_members_thr = [(''pool_size'', T_INT, ''pool_size''), (''max_requests'', T_USHORT, ''max_requests'')]"

definition AIOOperation_members_thr :: member_table where
  "AIOOperation_members_thr = [(''fileno'', T_UINT, ''fileno''), (''offset'', T_ULONGLONG, ''offset''),
     (''nbytes'', T_ULONGLONG, ''buf_size''), (''result'', T_INT, ''result''), (''error'', T_INT, ''error'')]"

definition AIOOperation_members_ur :: member_table where
  "AIOOperation_members_ur = [(''context'', T_OBJECT, ''context''), (''fileno'', T_UINT, ''fileno''),
     (''offset'', T_ULONGLONG, ''offset''), (''nbytes'', T_PYSSIZET, ''buf_size''), (''result'', T_INT, ''result''),
     (''error'', T_INT, ''error'')]"

definition AIOContext_members_ur :: member_table where
  "AIOContext_members_ur = [(''fileno'', T_INT, ''eventfd_fd''), (''max_requests'', T_UINT, ''max_requests''),
     (''sqpoll'', T_UBYTE, ''sqpoll'')]"

definition AIOContext_members_la :: member_table where
  "AIOContext_members_la = [(''fileno'', T_INT, ''fileno''), (''max_requests'', T_USHORT, ''max_requests'')]"

definition AIOOperation_members_la :: member_table where
  "AIOOperation_members_la = [(''context'', T_OBJECT, ''context''), (''fileno'', T_UINT, ''iocb.aio_fildes''),
     (''priority'', T_USHORT, ''iocb.aio_reqprio''), (''offset'', T_ULONGLONG, ''iocb.aio_offset''),
     (''nbytes'', T_ULONGLONG, ''iocb.aio_nbytes'')]"

section \<open>Reading members\<close>

text \<open>A member whose type is not wider than its field reads the beginning of the field.\<close>

lemma member_in_field:
  assumes "map_of table name = Some (ty, f)" and "map_of fs f = Some bs" and "member_size ty \<le> length bs"
    and "distinct (map fst fs)" and "\<forall>(g, cs)\<in>set fs. 0 < length cs"
  shows "get_member table pad fs name = Some (member_value ty bs)"
proof -
  obtain rest where "drop (field_offset 0 fs f) (struct_bytes pad 0 fs) = bs @ rest"
    using bytes_of_field [OF map_of_SomeD [OF assms(2)] assms(4,5), of 0] by auto
  with assms(1,3) show ?thesis by (simp add: get_member_def member_value_def)
qed

lemma take_le_bytes: "take j (le_bytes k n) = le_bytes (min j k) n"
  by (induction k arbitrary: j n) (auto simp: take_Cons split: nat.split)

lemma uint_mod_size: "uint (w :: 'a::len word) mod 2 ^ LENGTH('a) = uint w"
  by simp

lemma member_values:
  "member_value T_UBYTE (u8_field a) = PyLong (uint a)"
  "member_value T_USHORT (u16_field b) = PyLong (uint b)"
  "member_value T_USHORT (u32_field c) = PyLong (uint c mod 65536)"
  "member_value T_UINT (u32_field c) = PyLong (uint c)"
  "member_value T_INT (u32_field c) = PyLong (sint c)"
  "member_value T_INT (int_field n) = PyLong (signed_take_bit 31 n)"
  "member_value T_ULONGLONG (u64_field d) = PyLong (uint d)"
  "member_value T_PYSSIZET (u64_field d) = PyLong (sint d)"
  "member_value T_OBJECT (u64_field d) = (if d = NULL then PyNone else PyObj d)"
proof -
  have ranges: "uint a mod 256 = uint a" "uint b mod 65536 = uint b" "uint c mod 4294967296 = uint c"
      "uint d mod 18446744073709551616 = uint d"
    using uint_mod_size [of a] uint_mod_size [of b] uint_mod_size [of c] uint_mod_size [of d] by simp_all
  note defs = member_value_def field_defs take_le_bytes ranges
  show "member_value T_UBYTE (u8_field a) = PyLong (uint a)" "member_value T_USHORT (u16_field b) = PyLong (uint b)"
    "member_value T_USHORT (u32_field c) = PyLong (uint c mod 65536)" "member_value T_UINT (u32_field c) = PyLong (uint c)"
    "member_value T_ULONGLONG (u64_field d) = PyLong (uint d)"
    "member_value T_OBJECT (u64_field d) = (if d = NULL then PyNone else PyObj d)"
    by (simp_all add: defs Let_def uint_0_iff del: le_bytes.simps)
  show "member_value T_INT (u32_field c) = PyLong (sint c)" "member_value T_PYSSIZET (u64_field d) = PyLong (sint d)"
    by (simp_all add: defs sint_uint Let_def del: le_bytes.simps)
  have "signed_take_bit 31 (n mod 4294967296) = signed_take_bit 31 n"
    using signed_take_bit_take_bit [of 31 32 n] by (simp add: take_bit_eq_mod)
  then show "member_value T_INT (int_field n) = PyLong (signed_take_bit 31 n)"
    by (simp add: defs Let_def del: le_bytes.simps)
qed

text \<open>Reading all members of a table whose types are not wider than their fields.\<close>

definition fits :: "member_table \<Rightarrow> fields \<Rightarrow> bool" where
  "fits table fs \<longleftrightarrow> distinct (map fst fs) \<and> list_all (\<lambda>(g, cs). 0 < length cs) fs \<and>
     list_all (\<lambda>(_, ty, f). case map_of fs f of None \<Rightarrow> False | Some bs \<Rightarrow> member_size ty \<le> length bs) table"

lemma members_in_fields:
  assumes "fits table fs"
  shows "get_member table pad fs = map_of (map (\<lambda>(name, ty, f). (name, member_value ty (the (map_of fs f)))) table)"
proof (rule ext)
  fix name
  have at: "map_of (map (\<lambda>(name, ty, f). (name, g ty f)) tab) name = map_option (\<lambda>(ty, f). g ty f) (map_of tab name)"
    for g :: "member_type \<Rightarrow> string \<Rightarrow> pyval" and tab :: member_table
    by (induction tab) auto
  show "get_member table pad fs name = map_of (map (\<lambda>(name, ty, f). (name, member_value ty (the (map_of fs f)))) table) name"
  proof (cases "map_of table name")
    case None
    then show ?thesis by (simp add: at get_member_def)
  next
    case (Some m)
    obtain ty f where m: "m = (ty, f)" by force
    have "(name, ty, f) \<in> set table" using Some m by (simp add: map_of_SomeD)
    then obtain bs where bs: "map_of fs f = Some bs" "member_size ty \<le> length bs"
      using assms by (fastforce simp: fits_def list_all_iff split: option.splits)
    have "get_member table pad fs name = Some (member_value ty bs)"
      using assms Some m by (intro member_in_field [OF _ bs]) (simp_all add: fits_def list_all_iff)
    with Some m bs show ?thesis by (simp add: at)
  qed
qed

lemma length_fields [simp]:
  "length (u8_field a) = 1" "length (u16_field b) = 2" "length (u32_field c) = 4" "length (int_field n) = 4"
  "length (u64_field d) = 8"
  by (simp_all add: field_defs del: le_bytes.simps)

lemma fields_not_Nil [simp]:
  "u8_field a \<noteq> []" "u16_field b \<noteq> []" "u32_field c \<noteq> []" "int_field n \<noteq> []" "u64_field d \<noteq> []"
  by (simp_all add: field_defs numeral_eq_Suc)

lemma members_ur:
  "get_member AIOOperation_members_ur pad (AIOOperation_fields_ur rc tp x) = map_of
     [(''context'', if uo_context x = NULL then PyNone else PyObj (uo_context x)), (''fileno'', PyLong (uint (uo_fileno x))),
      (''offset'', PyLong (uint (uo_offset x))), (''nbytes'', PyLong (sint (uo_buf_size x))),
      (''result'', PyLong (sint (uo_result x))), (''error'', PyLong (sint (uo_error x)))]"
  "get_member AIOContext_members_ur pad (AIOContext_fields_ur rc tp ring c) = map_of
     [(''fileno'', PyLong (signed_take_bit 31 (uc_eventfd_fd c))), (''max_requests'', PyLong (uint (uc_max_requests c))),
      (''sqpoll'', PyLong (uint (uc_sqpoll c)))]"
proof -
  note defs = AIOOperation_members_ur_def AIOOperation_fields_ur_def AIOContext_members_ur_def AIOContext_fields_ur_def
    PyObject_HEAD_def
  have "fits AIOOperation_members_ur (AIOOperation_fields_ur rc tp x)" by (simp add: fits_def defs)
  then show "get_member AIOOperation_members_ur pad (AIOOperation_fields_ur rc tp x) = map_of
     [(''context'', if uo_context x = NULL then PyNone else PyObj (uo_context x)), (''fileno'', PyLong (uint (uo_fileno x))),
      (''offset'', PyLong (uint (uo_offset x))), (''nbytes'', PyLong (sint (uo_buf_size x))),
      (''result'', PyLong (sint (uo_result x))), (''error'', PyLong (sint (uo_error x)))]"
    by (simp add: members_in_fields) (simp add: defs member_values)
  have "fits AIOContext_members_ur (AIOContext_fields_ur rc tp ring c)" by (simp add: fits_def defs)
  then show "get_member AIOContext_members_ur pad (AIOContext_fields_ur rc tp ring c) = map_of
     [(''fileno'', PyLong (signed_take_bit 31 (uc_eventfd_fd c))), (''max_requests'', PyLong (uint (uc_max_requests c))),
      (''sqpoll'', PyLong (uint (uc_sqpoll c)))]"
    by (simp add: members_in_fields) (simp add: defs member_values)
qed

lemma members_la:
  "get_member AIOOperation_members_la pad (AIOOperation_fields_la rc tp key rw rsv x) = map_of
     [(''context'', if lo_context x = NULL then PyNone else PyObj (lo_context x)), (''fileno'', PyLong (uint (aio_fildes (lo_iocb x)))),
      (''priority'', PyLong (uint (aio_reqprio (lo_iocb x)))), (''offset'', PyLong (uint (aio_offset (lo_iocb x)))),
      (''nbytes'', PyLong (uint (aio_nbytes (lo_iocb x))))]"
  "get_member AIOContext_members_la pad (AIOContext_fields_la rc tp c) = map_of
     [(''fileno'', PyLong (signed_take_bit 31 (lc_fileno c))), (''max_requests'', PyLong (AIOContext_members_max_requests c))]"
proof -
  note defs = AIOOperation_members_la_def AIOOperation_fields_la_def AIOContext_members_la_def AIOContext_fields_la_def
    PyObject_HEAD_def
  have "fits AIOOperation_members_la (AIOOperation_fields_la rc tp key rw rsv x)" by (simp add: fits_def defs)
  then show "get_member AIOOperation_members_la pad (AIOOperation_fields_la rc tp key rw rsv x) = map_of
     [(''context'', if lo_context x = NULL then PyNone else PyObj (lo_context x)), (''fileno'', PyLong (uint (aio_fildes (lo_iocb x)))),
      (''priority'', PyLong (uint (aio_reqprio (lo_iocb x)))), (''offset'', PyLong (uint (aio_offset (lo_iocb x)))),
      (''nbytes'', PyLong (uint (aio_nbytes (lo_iocb x))))]"
    by (simp add: members_in_fields) (simp add: defs member_values)
  have "AIOContext_members_max_requests c = uint (lc_max_requests c) mod 65536"
    by (simp add: AIOContext_members_max_requests_def unsigned_ucast_eq take_bit_eq_mod)
  moreover have "fits AIOContext_members_la (AIOContext_fields_la rc tp c)" by (simp add: fits_def defs)
  ultimately show "get_member AIOContext_members_la pad (AIOContext_fields_la rc tp c) = map_of
     [(''fileno'', PyLong (signed_take_bit 31 (lc_fileno c))), (''max_requests'', PyLong (AIOContext_members_max_requests c))]"
    by (simp add: members_in_fields) (simp add: defs member_values)
qed

text \<open>
  Two members of thread_aio are wider than their fields and read what follows: the other
  flags of an Operation, the padding of a Context. \<open>pad\<close> has the padding bytes of the records
  at their offsets; the other bytes of a new object are zero.
\<close>

lemma get_member_append: "get_member (xs @ ys) pad fs = get_member ys pad fs ++ get_member xs pad fs"
  by (rule ext) (simp add: get_member_def map_add_def split: option.split)

lemma signed_of_bytes:
  fixes a b c d :: int
  assumes "0 \<le> a" "a < 256" "0 \<le> b" "b < 256" "0 \<le> c" "c < 256" "0 \<le> d" "d < 256"
  shows "signed_take_bit 31 (a + 256 * (b + 256 * (c + 256 * d))) =
    a + 2 ^ 8 * b + 2 ^ 16 * c + 2 ^ 24 * signed_take_bit 7 d"
proof -
  let ?n = "a + 256 * (b + 256 * (c + 256 * d))"
  have s: "signed_take_bit 31 m = (m + 2147483648) mod 4294967296 - 2147483648"
    "signed_take_bit 7 m = (m + 128) mod 256 - 128" for m :: int
    by (simp_all add: signed_take_bit_eq_take_bit_shift take_bit_eq_mod)
  show ?thesis
  proof (cases "d < 128")
    case True
    have "a \<le> 255" "b \<le> 255" "c \<le> 255" "d \<le> 127" using assms True by simp_all
    then have "?n + 2147483648 < 4294967296" by simp
    moreover have "0 \<le> ?n + 2147483648" using assms by simp
    ultimately show ?thesis using True assms by (simp add: s)
  next
    case False
    have "a \<le> 255" "b \<le> 255" "c \<le> 255" "d \<le> 255" "128 \<le> d" using assms False by simp_all
    then have n: "0 \<le> ?n - 2147483648" "?n - 2147483648 < 4294967296" using assms by simp_all
    have "?n + 2147483648 = ?n - 2147483648 + 4294967296" by simp
    then have "(?n + 2147483648) mod 4294967296 = (?n - 2147483648) mod 4294967296" by (simp only: mod_add_self2)
    then have 1: "signed_take_bit 31 ?n = ?n - 4294967296" using n by (simp only: s mod_pos_pos_trivial)
    have "d + 128 = d - 128 + 256" by simp
    then have "(d + 128) mod 256 = (d - 128) mod 256" by (simp only: mod_add_self2)
    then have 2: "signed_take_bit 7 d = d - 256" using assms False by (simp add: s)
    show ?thesis unfolding 1 2 by simp
  qed
qed

lemma int_of_bytes:
  "signed_take_bit 31 (uint (a :: u8) + 256 * (uint (b :: u8) + 256 * (uint (c :: u8) + 256 * uint (d :: u8)))) =
     uint a + 2 ^ 8 * uint b + 2 ^ 16 * uint c + 2 ^ 24 * sint d"
proof -
  have "0 \<le> uint w" "uint w < 256" for w :: u8 using unsigned_greater_eq [of w] unsigned_less [of w] by simp_all
  then show ?thesis by (subst signed_of_bytes) (simp_all add: sint_uint)
qed

lemma members_thr:
  assumes "pad 55 = to_pad x"
  shows "get_member AIOOperation_members_thr pad (AIOOperation_fields_thr rc tp x) = map_of
     [(''fileno'', PyLong (uint (to_fileno x))), (''offset'', PyLong (uint (to_offset x))),
      (''nbytes'', PyLong (AIOOperation_members_nbytes x)), (''result'', PyLong (sint (to_result x))),
      (''error'', PyLong (AIOOperation_members_error x))]"
proof -
  let ?tab = "[(''fileno'', T_UINT, ''fileno''), (''offset'', T_ULONGLONG, ''offset''), (''nbytes'', T_ULONGLONG, ''buf_size''),
     (''result'', T_INT, ''result'')]"
  note defs = AIOOperation_fields_thr_def PyObject_HEAD_def
  have "fits ?tab (AIOOperation_fields_thr rc tp x)" by (simp add: fits_def defs)
  then have fit: "get_member ?tab pad (AIOOperation_fields_thr rc tp x) = map_of
     [(''fileno'', PyLong (uint (to_fileno x))), (''offset'', PyLong (uint (to_offset x))),
      (''nbytes'', PyLong (AIOOperation_members_nbytes x)), (''result'', PyLong (sint (to_result x)))]"
    by (simp add: members_in_fields) (simp add: defs member_values AIOOperation_members_nbytes_def)
  let ?pre = "PyObject_HEAD rc tp @ [(''py_buffer'', u64_field (to_py_buffer x)), (''callback'', u64_field (to_callback x)),
      (''opcode'', int_field (THAIO_code (to_opcode x))), (''fileno'', u32_field (to_fileno x)),
      (''offset'', u64_field (to_offset x)), (''result'', u32_field (to_result x))]"
  let ?post = "[(''in_progress'', u8_field (to_in_progress x)), (''done'', u8_field (to_done x)),
      (''buf_size'', u64_field (to_buf_size x)), (''buf'', u64_field (to_buf x)), (''ctx'', u64_field (to_ctx x)),
      (''weakreflist'', u64_field (to_weakreflist x))]"
  have fs: "AIOOperation_fields_thr rc tp x = ?pre @ (''error'', u8_field (to_error x)) # ?post" by (simp add: defs)
  have off: "field_offset 0 (?pre @ (''error'', u8_field (to_error x)) # ?post) ''error'' = 52"
    by (simp add: defs align_def)
  have "drop (52 - 0) (struct_bytes pad 0 (?pre @ (''error'', u8_field (to_error x)) # ?post)) =
      u8_field (to_error x) @ struct_bytes pad (52 + length (u8_field (to_error x))) ?post"
    unfolding off [symmetric] by (rule bytes_from_field) (simp_all add: PyObject_HEAD_def)
  then have "take 4 (drop (field_offset 0 (AIOOperation_fields_thr rc tp x) ''error'')
      (struct_bytes pad 0 (AIOOperation_fields_thr rc tp x))) = [to_error x, to_in_progress x, to_done x, to_pad x]"
    unfolding fs off by (simp add: align_def assms u8_field_def Let_def)
  then have "member_value T_INT (drop (field_offset 0 (AIOOperation_fields_thr rc tp x) ''error'')
      (struct_bytes pad 0 (AIOOperation_fields_thr rc tp x))) = PyLong (AIOOperation_members_error x)"
    using int_of_bytes [of "to_error x" "to_in_progress x" "to_done x" "to_pad x"]
    by (simp only: member_value_def member_size.simps le_value.simps AIOOperation_members_error_def Let_def member_type.case) simp
  then have "get_member [(''error'', T_INT, ''error'')] pad (AIOOperation_fields_thr rc tp x) =
      [''error'' \<mapsto> PyLong (AIOOperation_members_error x)]"
    by (auto simp: get_member_def fun_eq_iff)
  then have "get_member (?tab @ [(''error'', T_INT, ''error'')]) pad (AIOOperation_fields_thr rc tp x) =
      [''error'' \<mapsto> PyLong (AIOOperation_members_error x)] ++ map_of
     [(''fileno'', PyLong (uint (to_fileno x))), (''offset'', PyLong (uint (to_offset x))),
      (''nbytes'', PyLong (AIOOperation_members_nbytes x)), (''result'', PyLong (sint (to_result x)))]"
    by (simp only: get_member_append fit)
  then show ?thesis by (simp add: AIOOperation_members_thr_def)
qed

lemma context_members_thr:
  assumes "pad 27 = tc_pad c" and "pad 28 = 0" and "pad 29 = 0"
  shows "get_member AIOContext_members_thr pad (AIOContext_fields_thr rc tp pool c) = map_of
     [(''pool_size'', PyLong (AIOContext_members_pool_size c)), (''max_requests'', PyLong (uint (tc_max_requests c)))]"
proof -
  note defs = AIOContext_fields_thr_def PyObject_HEAD_def
  have "fits [(''max_requests'', T_USHORT, ''max_requests'')] (AIOContext_fields_thr rc tp pool c)" by (simp add: fits_def defs)
  then have fit: "get_member [(''max_requests'', T_USHORT, ''max_requests'')] pad (AIOContext_fields_thr rc tp pool c) =
     [''max_requests'' \<mapsto> PyLong (uint (tc_max_requests c))]"
    by (simp add: members_in_fields) (simp add: defs member_values)
  let ?pre = "PyObject_HEAD rc tp @ [(''pool'', u64_field pool), (''max_requests'', u16_field (tc_max_requests c))]"
  let ?post = "[(''weakreflist'', u64_field (tc_weakreflist c))]"
  have fs: "AIOContext_fields_thr rc tp pool c = ?pre @ (''pool_size'', u8_field (tc_pool_size c)) # ?post" by (simp add: defs)
  have off: "field_offset 0 (?pre @ (''pool_size'', u8_field (tc_pool_size c)) # ?post) ''pool_size'' = 26"
    by (simp add: defs align_def)
  have "drop (26 - 0) (struct_bytes pad 0 (?pre @ (''pool_size'', u8_field (tc_pool_size c)) # ?post)) =
      u8_field (tc_pool_size c) @ struct_bytes pad (26 + length (u8_field (tc_pool_size c))) ?post"
    unfolding off [symmetric] by (rule bytes_from_field) (simp_all add: PyObject_HEAD_def)
  then have "take 4 (drop (field_offset 0 (AIOContext_fields_thr rc tp pool c) ''pool_size'')
      (struct_bytes pad 0 (AIOContext_fields_thr rc tp pool c))) = [tc_pool_size c, tc_pad c, 0, 0]"
    unfolding fs off by (simp add: align_def assms u8_field_def Let_def)
  moreover have "signed_take_bit 31 (uint a + 256 * uint b) = uint a + 256 * uint b" for a b :: u8
    using int_of_bytes [of a b 0 0] by simp
  ultimately have "get_member [(''pool_size'', T_INT, ''pool_size'')] pad (AIOContext_fields_thr rc tp pool c) =
      [''pool_size'' \<mapsto> PyLong (AIOContext_members_pool_size c)]"
    by (auto simp: get_member_def member_value_def AIOContext_members_pool_size_def fun_eq_iff Let_def)
  then have "get_member ([(''pool_size'', T_INT, ''pool_size'')] @ [(''max_requests'', T_USHORT, ''max_requests'')]) pad
      (AIOContext_fields_thr rc tp pool c) =
      [''max_requests'' \<mapsto> PyLong (uint (tc_max_requests c))] ++ [''pool_size'' \<mapsto> PyLong (AIOContext_members_pool_size c)]"
    by (simp only: get_member_append fit)
  then show ?thesis by (simp add: AIOContext_members_thr_def)
qed

section \<open>Computed attributes\<close>

text \<open>
  The tables of getters; each of the three has one, without a setter. An attribute is found
  among the members or among the getters.
\<close>

type_synonym 'w getset_table = "(string \<times> (ptr \<Rightarrow> 'w \<Rightarrow> pyval outcome \<times> 'w)) list"

definition AIOOperation_getset_thr :: "thr_world getset_table" where
  "AIOOperation_getset_thr = [(''payload'', AIOOperation_payload_getter_thr)]"

definition AIOOperation_getset_ur :: "ur_world getset_table" where
  "AIOOperation_getset_ur = [(''payload'', AIOOperation_payload_getter_ur)]"

definition AIOOperation_getset_la :: "la_world getset_table" where
  "AIOOperation_getset_la = [(''payload'', AIOOperation_payload_getter_la)]"

definition get_attribute :: "member_table \<Rightarrow> (nat \<Rightarrow> u8) \<Rightarrow> fields \<Rightarrow> 'w getset_table \<Rightarrow> ptr \<Rightarrow> 'w \<Rightarrow>
    string \<Rightarrow> (pyval outcome \<times> 'w) option" where
  "get_attribute members pad fs getset self w name =
     (case get_member members pad fs name of Some v \<Rightarrow> Some (Ret v, w)
      | None \<Rightarrow> map_option (\<lambda>getter. getter self w) (map_of getset name))"

text \<open>Stored values by name, and what \<open>payload\<close> gives for an operation in flight or not.\<close>

definition shown :: "(string \<times> pyval) list \<Rightarrow> pyval outcome \<times> 'w \<Rightarrow> 'w \<Rightarrow> string \<Rightarrow> (pyval outcome \<times> 'w) option" where
  "shown members payload w name =
     (if name = ''payload'' then Some payload else map_option (\<lambda>v. (Ret v, w)) (map_of members name))"

definition payload_shown :: "bool \<Rightarrow> ptr \<Rightarrow> 'a pyrt_scheme \<Rightarrow> pyval outcome \<times> 'a pyrt_scheme" where
  "payload_shown in_flight py_buffer w =
     (if in_flight then (Raise (PyErr_SetString PyExc_RuntimeError ''payload is not available while the operation is in flight''), w)
      else if py_buffer = NULL then (Ret PyNone, w)
      else (Ret (PyObj py_buffer), Py_INCREF py_buffer w))"

lemma attribute_shown:
  assumes "get_member members pad fs = map_of vs" and "map_of vs ''payload'' = None" and "getter self w = payload"
  shows "get_attribute members pad fs [(''payload'', getter)] self w = shown vs payload w"
proof
  fix name
  show "get_attribute members pad fs [(''payload'', getter)] self w name = shown vs payload w name"
    using assms by (cases "map_of vs name") (auto simp: get_attribute_def shown_def)
qed

lemma payload_getters:
  "thr_ops wt p = Some xt \<Longrightarrow> AIOOperation_payload_getter_thr p wt =
     payload_shown (to_in_progress xt \<noteq> 0 \<and> to_done xt = 0) (to_py_buffer xt) wt"
  "ur_ops wu p = Some xu \<Longrightarrow> AIOOperation_payload_getter_ur p wu =
     payload_shown (uo_in_progress xu \<noteq> 0 \<and> uo_done xu = 0) (uo_py_buffer xu) wu"
  "la_ops wl p = Some xl \<Longrightarrow> AIOOperation_payload_getter_la p wl =
     payload_shown (lo_in_progress xl \<noteq> 0 \<and> lo_done xl = 0) (lo_py_buffer xl) wl"
  by (simp_all add: AIOOperation_payload_getter_thr_def AIOOperation_payload_getter_ur_def
      AIOOperation_payload_getter_la_def payload_shown_def op_thr_def op_ur_def op_la_def Let_def)

section \<open>Properties\<close>

text \<open>
  C40. What the attributes of the six types show, for any contents of the objects. The layout
  of the structs puts every field at its aligned offset, and each member shows what its
  descriptor finds there: the value of the named field, with three exceptions where the
  descriptor is wider or narrower than the field: \<^verbatim>\<open>Operation.error\<close> of thread_aio shows the
  error together with the flags that follow it, \<^verbatim>\<open>Context.pool_size\<close> of thread_aio the number
  of threads together with the padding that follows it, \<^verbatim>\<open>Context.max_requests\<close> of linux_aio
  the limit modulo 65536. Signed fields behind an unsigned descriptor (size and offset of
  thread_aio, offset and priority of linux_aio) show the unsigned value. The computed attribute \<^verbatim>\<open>payload\<close> of
  the three Operation types raises while the operation is in flight and else gives a new
  reference to the buffer object, or None if there is none. Any other name is in neither
  table.
\<close>

theorem attributes_show:
  assumes "padx 55 = to_pad xt" and "padc 27 = tc_pad ct" and "padc 28 = 0" and "padc 29 = 0"
    and "thr_ops wt p = Some xt" and "ur_ops wu p = Some xu" and "la_ops wl p = Some xl"
  shows "get_attribute AIOOperation_members_thr padx (AIOOperation_fields_thr rc tp xt) AIOOperation_getset_thr p wt = shown
     [(''fileno'', PyLong (uint (to_fileno xt))), (''offset'', PyLong (uint (to_offset xt))),
      (''nbytes'', PyLong (AIOOperation_members_nbytes xt)), (''result'', PyLong (sint (to_result xt))),
      (''error'', PyLong (AIOOperation_members_error xt))]
     (payload_shown (to_in_progress xt \<noteq> 0 \<and> to_done xt = 0) (to_py_buffer xt) wt) wt
    \<and> get_member AIOContext_members_thr padc (AIOContext_fields_thr rc tp pool ct) = map_of
     [(''pool_size'', PyLong (AIOContext_members_pool_size ct)), (''max_requests'', PyLong (uint (tc_max_requests ct)))]
    \<and> get_attribute AIOOperation_members_ur pad (AIOOperation_fields_ur rc tp xu) AIOOperation_getset_ur p wu = shown
     [(''context'', if uo_context xu = NULL then PyNone else PyObj (uo_context xu)), (''fileno'', PyLong (uint (uo_fileno xu))),
      (''offset'', PyLong (uint (uo_offset xu))), (''nbytes'', PyLong (sint (uo_buf_size xu))),
      (''result'', PyLong (sint (uo_result xu))), (''error'', PyLong (sint (uo_error xu)))]
     (payload_shown (uo_in_progress xu \<noteq> 0 \<and> uo_done xu = 0) (uo_py_buffer xu) wu) wu
    \<and> get_member AIOContext_members_ur pad (AIOContext_fields_ur rc tp ring cu) = map_of
     [(''fileno'', PyLong (signed_take_bit 31 (uc_eventfd_fd cu))), (''max_requests'', PyLong (uint (uc_max_requests cu))),
      (''sqpoll'', PyLong (uint (uc_sqpoll cu)))]
    \<and> get_attribute AIOOperation_members_la pad (AIOOperation_fields_la rc tp key rw rsv xl) AIOOperation_getset_la p wl = shown
     [(''context'', if lo_context xl = NULL then PyNone else PyObj (lo_context xl)), (''fileno'', PyLong (uint (aio_fildes (lo_iocb xl)))),
      (''priority'', PyLong (uint (aio_reqprio (lo_iocb xl)))), (''offset'', PyLong (uint (aio_offset (lo_iocb xl)))),
      (''nbytes'', PyLong (uint (aio_nbytes (lo_iocb xl))))]
     (payload_shown (lo_in_progress xl \<noteq> 0 \<and> lo_done xl = 0) (lo_py_buffer xl) wl) wl
    \<and> get_member AIOContext_members_la pad (AIOContext_fields_la rc tp cl) = map_of
     [(''fileno'', PyLong (signed_take_bit 31 (lc_fileno cl))), (''max_requests'', PyLong (uint (lc_max_requests cl) mod 65536))]"
proof -
  have max: "AIOContext_members_max_requests cl = uint (lc_max_requests cl) mod 65536"
    by (simp add: AIOContext_members_max_requests_def unsigned_ucast_eq take_bit_eq_mod)
  note thr = members_thr [of padx xt, OF assms(1)] and ctx = context_members_thr [of padc ct, OF assms(2-4)]
  show ?thesis
    unfolding AIOOperation_getset_thr_def AIOOperation_getset_ur_def AIOOperation_getset_la_def
    using max thr ctx members_ur members_la assms(5-7)
    by (intro conjI attribute_shown) (simp_all add: payload_getters)
qed

text \<open>
  A thread_aio read that succeeded: the attribute \<^verbatim>\<open>error\<close> is not 0, because it shows the
  flags, and \<^verbatim>\<open>payload\<close> is its memoryview, here at address 4.
\<close>

theorem attributes_show_witness:
  "let x = zero_op_thr\<lparr>to_in_progress := 1, to_done := 1, to_result := 3, to_py_buffer := 4\<rparr>;
       w = \<lparr>refs = (\<lambda>_. 1), mem = Map.empty, bytes_at = (\<lambda>_. NULL), trace = [], thr_ops = [2 \<mapsto> x], thr_ctxs = Map.empty\<rparr>;
       attribute = get_attribute AIOOperation_members_thr (\<lambda>_. 0) (AIOOperation_fields_thr 1 9 x) AIOOperation_getset_thr 2 w
   in attribute ''error'' = Some (Ret (PyLong 65792), w) \<and>
      attribute ''payload'' = Some (Ret (PyObj 4), Py_INCREF 4 w) \<and> attribute ''done'' = None"
proof -
  let ?x = "zero_op_thr\<lparr>to_in_progress := 1, to_done := 1, to_result := 3, to_py_buffer := 4\<rparr>"
  let ?w = "\<lparr>refs = (\<lambda>_. 1), mem = Map.empty, bytes_at = (\<lambda>_. NULL), trace = [], thr_ops = [2 \<mapsto> ?x], thr_ctxs = Map.empty\<rparr>"
  have ur: "ur_ops ((w :: ur_world)\<lparr>ur_ops := [2 \<mapsto> xu]\<rparr>) 2 = Some xu"
    and la: "la_ops ((v :: la_world)\<lparr>la_ops := [2 \<mapsto> xl]\<rparr>) 2 = Some xl" for w xu v xl by simp_all
  have thr: "thr_ops ?w 2 = Some ?x" by simp
  have pads: "(\<lambda>_ :: nat. 0 :: u8) 55 = to_pad ?x"
    "(\<lambda>_ :: nat. 0 :: u8) 27 = tc_pad \<lparr>tc_pool = None, tc_max_requests = 0, tc_pool_size = 0, tc_pad = 0, tc_weakreflist = NULL\<rparr>"
    by (simp_all add: zero_op_thr_def)
  note attr = attributes_show [OF pads refl refl thr ur la, THEN conjunct1]
  show ?thesis unfolding Let_def attr
    by (simp add: shown_def payload_shown_def zero_op_thr_def AIOOperation_members_error_def)
qed

end
