(* ===== verification/Spec2Isabelle.thy ===== *)
theory Spec2Isabelle
  imports Thread_Claims Uring_Life Laio_Life Object_Protocol Attributes
begin

text \<open>
  A verification development for caio, the asynchronous file I/O library for Python, in
  particular its C code: the thread pool and the three backend modules.

  The program. A backend module offers two types. An Operation describes one \<^verbatim>\<open>read\<close>,
  \<^verbatim>\<open>write\<close>, \<^verbatim>\<open>fsync\<close> or \<^verbatim>\<open>fdsync\<close> and later holds its result; a Context accepts Operations by
  \<^verbatim>\<open>submit\<close> and completes them. The backends differ in who does the work: \<^verbatim>\<open>thread_aio.c\<close> queues
  the Operation in a pool of threads (\<^verbatim>\<open>src/threadpool/threadpool.c\<close>), \<^verbatim>\<open>linux_uring.c\<close> writes
  it into a ring shared with the kernel, \<^verbatim>\<open>linux_aio.c\<close> hands the kernel a control block. They
  share a protocol: \<^verbatim>\<open>in_progress\<close> is claimed once by an atomic exchange and never given back
  after a submission that succeeded, \<^verbatim>\<open>done\<close> is published after the result is stored, the
  Operation and its Context are kept alive by references held while it is in flight, and
  the callback runs once, after \<^verbatim>\<open>done\<close>.

  Theories, in the order of their imports.

  \<^item> \<open>Caio_Prelude\<close>: names for the machine integers, the division of C, error numbers in
    words, circular buffers as lists, sums over threads.
  \<^item> \<open>Interfaces\<close>: what components rely on, as locales. \<open>bounded_fifo\<close> is a queue with a
    capacity; it is interpreted on the task queue (\<open>Threadpool\<close>), on the submission ring
    (\<open>Uring_Submit\<close>) and on the completion ring (\<open>Uring_CQ\<close>). \<open>claiming\<close> is one step of \<^verbatim>\<open>submit\<close>; it is interpreted on the io_uring
    backend (\<open>Uring_Submit\<close>) and on the kernel AIO backend (\<open>Laio_Properties\<close>), whose
    \<^verbatim>\<open>submit\<close> loops are instances of one loop.
  \<^item> \<open>Ownership\<close>: who keeps what alive, as a transition system over counts of references, with
    its invariant, and the locale \<open>backend\<close>: a system every step of which is a run of it. It is
    interpreted by both kernel backends (\<open>Uring_Steps\<close>, \<open>Laio_Steps\<close>).
  \<^item> \<open>Py_Runtime\<close>: the part of the Python runtime the modules use: results and exceptions,
    reference counts, memory blocks, calls of callbacks, a trace of calls out of the module.
  \<^item> \<open>Threadpool\<close>: the functions of \<^verbatim>\<open>threadpool.c\<close>, one by one, on every branch.
    \<open>Pool_System\<close>: the same functions as a concurrent system (an inductive step relation over
    workers, adders and the destroyer), its invariant, and safety and liveness.
  \<^item> \<open>Thread_AIO\<close>: \<^verbatim>\<open>thread_aio.c\<close>. \<open>Thread_Properties\<close> and \<open>Thread_Claims\<close>: its lemmas and
    properties.
  \<^item> \<open>Linux_URING\<close>: \<^verbatim>\<open>linux_uring.c\<close>. \<open>Uring_Properties\<close>: the completion ring and draining.
    \<open>Uring_Submit\<close>: the submission ring and \<^verbatim>\<open>submit\<close>. \<open>Uring_Claims\<close>: \<^verbatim>\<open>flush\<close>, \<^verbatim>\<open>cancel\<close>, waiting,
    results, initialisation.
  \<^item> \<open>Uring_CQ\<close>: the completion ring as a queue. \<open>Uring_Objects\<close>: what constructors and
    deallocators leave alone. \<open>Uring_System\<close>: the backend as a transition system: a program
    that calls the methods in any order, the kernel, drains that are interrupted by their
    callbacks. \<open>Uring_Steps\<close>: every step keeps the ring and the objects well formed and is a
    run of the protocol (interpretation of \<open>backend\<close>). \<open>Uring_Memory\<close>: the memory the kernel
    was given stays. \<open>Uring_Life\<close>: the properties of the system.
  \<^item> \<open>Linux_AIO\<close>: \<^verbatim>\<open>linux_aio.c\<close>. \<open>Laio_Properties\<close> and \<open>Laio_Claims\<close>: its lemmas and properties.
  \<^item> \<open>Laio_Objects\<close>: what constructors and deallocators leave alone. \<open>Laio_System\<close>: the
    backend as a transition system: the program, \<^verbatim>\<open>io_submit\<close> accepting a prefix of the batch and
    the rollback of the rest, the kernel posting events, \<^verbatim>\<open>process_events\<close> and \<^verbatim>\<open>cancel\<close> delivering
    them. \<open>Laio_Steps\<close>: every step is a run of the protocol (interpretation of \<open>backend\<close>).
    \<open>Laio_Memory\<close> and \<open>Laio_Buffers\<close>: the memory the kernel was given stays. \<open>Laio_Life\<close>: the
    properties of the system.

  \<^item> \<open>Module_Init\<close>: the import of the three modules. \<open>Object_Protocol\<close>: \<^verbatim>\<open>tp_traverse\<close> against
    \<^verbatim>\<open>tp_clear\<close>, \<^verbatim>\<open>repr\<close>, the method tables. \<open>Attributes\<close>: the members, read from the layout of
    the structs, and the getters.

  Correspondence. A definition has the name of the C function it models, with a suffix for
  the module where two modules use the same name: \<open>_thr\<close>, \<open>_ur\<close>, \<open>_la\<close>. A struct is a record
  with the fields of the struct at their width; a method is a function from the state to
  its result and the new state. The state of a module is the state of the runtime
  extended by the objects of the module, by address. A null pointer that is dereferenced is
  the result \<open>Crash\<close>. Whatever the code asks of libc, the kernel, the allocator or the
  argument parser is an argument: a return code, or a function in the environment record of
  the module (\<open>thr_env\<close>, \<open>ur_env\<close>, \<open>init_env_ur\<close>, \<open>la_env\<close>) that may also change the state,
  because other threads run and the kernel writes while the call blocks. What a statement
  needs of these answers is a hypothesis of the statement.

  What the lemmas show. Of the pool: every accepted task is run exactly once, in order of
  acceptance, also on a graceful shutdown; no wakeup is lost; the pool is freed only after
  the last worker left; a second destroy blocks. Of each backend: what \<^verbatim>\<open>submit\<close> accepts, in
  which order, and what it takes back on failure; what completion stores, when it becomes
  visible and how often callbacks run; that the references taken and dropped balance, the callback's included; that
  \<^verbatim>\<open>get_value\<close> returns the bytes the kernel delivered; what happens on uninitialised objects.
  Of the rings: they are bounded queues across the wrap of the 32-bit counters. Where a
  property of a single function has a callback in it, the callback only looks at the state and
  returns or raises; in the systems anything may happen around it.

  Loops. \<open>scan_cq\<close> recurses on the distance of the counters. The loop of \<^verbatim>\<open>flush\<close> and the
  waiting loop of \<^verbatim>\<open>process_events\<close> may run for ever; they are partial functions with an
  option result, \<open>None\<close> for not ending, and it is stated when they end and when not. No fuel
  is used. In \<open>Pool_System\<close> a step is one critical section.

  Of the modules as Python sees them: what an import needs and leaves, that the garbage
  collector is told the truth, what the attributes show.

  Not modelled. The Python files over the modules, the stubs, the doc strings. The
  free-threaded build only in so far as the methods are atomic: the critical sections of that
  build are taken as given. Memory ordering: the rings and flags are read and written as if
  sequentially consistent. Of the io_uring operations the pointers into the mapped memory are
  the fields of the records \<open>sq_ring\<close> and \<open>cq_ring\<close>; the offsets the kernel reports are not.
  The number handed to a callback of linux_uring is taken to be allocated (the code reports
  the failure and skips the call); an argument parse that fails is taken to have stored
  nothing. In the systems a call of \<^verbatim>\<open>submit\<close> is one step, so no state shows an Operation
  claimed by a \<^verbatim>\<open>submit\<close> that is still running; a \<^verbatim>\<open>cancel\<close> of linux_aio is split at its
  callback in the way a delivery is, which \<open>la_cancel_equiv\<close> relates to the function.
  The two kernel backends are shown to refine the ownership protocol as whole systems; of
  thread_aio its functions are specified one by one, and its pool as a system of its own.
\<close>

end
